(* ===== verification/Prelude.thy ===== *)
theory Prelude
  imports Main "HOL-Library.Sublist" "HOL-Library.AList" "HOL-Library.Char_ord"
    "HOL-Library.List_Lexorder" "HOL-Library.Monad_Syntax"
begin

text \<open>
  Shared vocabulary of the development: the lemma collections, the Go types that every
  component uses (strings as byte sequences, machine integers with their wrap-around written
  out, panics as values, maps as association lists, time with its location), and the generic
  lemmas on lists and options that the component proofs rest on.
\<close>

named_theorems reader_defs \<open>definitions of the Read methods of the readers that tests put around a body\<close>
named_theorems fake_defs \<open>definitions of the operations of the in-memory fake, Put apart\<close>

section \<open>Types\<close>

text \<open>
  A Go string and a Go byte slice are sequences of 8-bit values. A HOL \<open>char\<close> is an 8-bit
  value too, so both are \<open>char list\<close>, and the order of \<open>HOL-Library.List_Lexorder\<close> over
  \<open>HOL-Library.Char_ord\<close> is Go's bytewise string order.
\<close>

type_synonym bytes = string

text \<open>A call either returns or panics.\<close>

datatype 'a go = Ret 'a | Panic string

text \<open>
  A Go \<open>map[string]string\<close>: an association list with distinct keys, read with \<open>map_of\<close> and
  written with \<open>AList.update\<close>. The list order stands for the iteration order, which Go leaves
  open.
\<close>

type_synonym 'v smap = "(string \<times> 'v) list"

section \<open>Machine integers\<close>

text \<open>
  Go's \<open>int\<close> (64 bits on the targets this library builds for), \<open>int64\<close> and \<open>int32\<close> are
  integers in two's complement; arithmetic that can leave the range wraps around.
\<close>

definition wrap64 :: "int \<Rightarrow> int" where
  "wrap64 x = (x + 2 ^ 63) mod 2 ^ 64 - 2 ^ 63"

definition wrap32 :: "int \<Rightarrow> int" where
  "wrap32 x = (x + 2 ^ 31) mod 2 ^ 32 - 2 ^ 31"

abbreviation maxInt64 :: int where "maxInt64 \<equiv> 9223372036854775807"
abbreviation minInt64 :: int where "minInt64 \<equiv> - 9223372036854775808"
abbreviation maxInt32 :: int where "maxInt32 \<equiv> 2147483647"
abbreviation minInt32 :: int where "minInt32 \<equiv> - 2147483648"

definition int64 :: "int \<Rightarrow> bool" where
  "int64 x \<longleftrightarrow> minInt64 \<le> x \<and> x \<le> maxInt64"

lemma wrap64_id: "minInt64 \<le> x \<Longrightarrow> x \<le> maxInt64 \<Longrightarrow> wrap64 x = x"
  by (simp add: wrap64_def)

lemma wrap32_id: "minInt32 \<le> x \<Longrightarrow> x \<le> maxInt32 \<Longrightarrow> wrap32 x = x"
  by (simp add: wrap32_def)

lemma wrap64_int64: "int64 (wrap64 x)"
proof -
  have "0 \<le> (x + 2 ^ 63) mod 2 ^ 64" and "(x + 2 ^ 63) mod 2 ^ 64 < (2::int) ^ 64"
    by (simp_all only: pos_mod_sign pos_mod_bound zero_less_power zero_less_numeral)
  then show ?thesis by (simp add: wrap64_def int64_def)
qed

section \<open>Time\<close>

text \<open>
  A \<open>time.Time\<close> is an instant, in nanoseconds since the zero time, and a location. Only whether
  the location is \<open>time.UTC\<close> is observed.
\<close>

datatype location = UTC | Zone string

record time =
  instant :: int
  loc :: location

definition zeroTime :: time where
  "zeroTime = \<lparr>instant = 0, loc = UTC\<rparr>"

definition toUTC :: "time \<Rightarrow> time" where
  "toUTC t = t\<lparr>loc := UTC\<rparr>"

text \<open>\<open>Truncate(d)\<close> rounds down to a multiple of \<open>d\<close> since the zero time.\<close>

definition truncateTime :: "time \<Rightarrow> int \<Rightarrow> time" where
  "truncateTime t d = (if d \<le> 0 then t else t\<lparr>instant := instant t - instant t mod d\<rparr>)"

abbreviation second :: int where "second \<equiv> 1000000000"

lemma loc_toUTC [simp]: "loc (toUTC t) = UTC"
  by (simp add: toUTC_def)

lemma instant_toUTC [simp]: "instant (toUTC t) = instant t"
  by (simp add: toUTC_def)

lemma loc_truncateTime [simp]: "loc (truncateTime t d) = loc t"
  by (simp add: truncateTime_def)

section \<open>Association lists as Go maps\<close>

lemma map_of_update_conv: "map_of (AList.update k v m) = (map_of m)(k \<mapsto> v)"
  by (rule update_conv')

lemma map_of_delete_conv: "map_of (AList.delete k m) = (map_of m)(k := None)"
  by (rule delete_conv')

lemma distinct_keys_update: "distinct (map fst m) \<Longrightarrow> distinct (map fst (AList.update k v m))"
  by (rule distinct_update)

lemma distinct_keys_delete: "distinct (map fst m) \<Longrightarrow> distinct (map fst (AList.delete k m))"
  by (rule distinct_delete)

lemma set_keys_map_of: "k \<in> set (map fst m) \<longleftrightarrow> map_of m k \<noteq> None"
  by (simp add: map_of_eq_None_iff)

section \<open>Lists\<close>

text \<open>The first success of a partial function along a list.\<close>

fun first_some :: "('a \<Rightarrow> 'b option) \<Rightarrow> 'a list \<Rightarrow> 'b option" where
  "first_some f [] = None"
| "first_some f (x # xs) = (case f x of Some y \<Rightarrow> Some y | None \<Rightarrow> first_some f xs)"

lemma first_some_cong [fundef_cong]:
  "xs = ys \<Longrightarrow> (\<And>x. x \<in> set ys \<Longrightarrow> f x = g x) \<Longrightarrow> first_some f xs = first_some g ys"
proof (induction xs arbitrary: ys)
  case Nil
  then show ?case by simp
next
  case (Cons x xs)
  then show ?case by (cases "g x") auto
qed

lemma first_some_SomeE:
  assumes "first_some f xs = Some y"
  obtains x where "x \<in> set xs" and "f x = Some y"
  using assms by (induction xs) (auto split: option.splits)

lemma first_some_None: "first_some f xs = None \<longleftrightarrow> (\<forall>x \<in> set xs. f x = None)"
  by (induction xs) (auto split: option.splits)

section \<open>Loops\<close>

text \<open>
  A Go \<open>for\<close> loop without a condition: a turn of it returns from the function or goes on with a new
  state. A turn that does not return, or turns without end, are \<open>None\<close>.
\<close>

partial_function (option) goLoop :: "('a \<Rightarrow> ('r + 'a) option) \<Rightarrow> 'a \<Rightarrow> 'r option" where
  "goLoop turn a = do { q \<leftarrow> turn a; (case q of Inl r \<Rightarrow> Some r | Inr a' \<Rightarrow> goLoop turn a') }"

declare goLoop.simps [code]

lemma goLoop_invariant:
  fixes turn :: "'a \<Rightarrow> ('b + 'a) option"
  assumes ret: "goLoop turn a = Some r" and "I a"
    and keep: "\<And>a a'. I a \<Longrightarrow> turn a = Some (Inr a') \<Longrightarrow> I a'"
    and stops: "\<And>a r. I a \<Longrightarrow> turn a = Some (Inl r) \<Longrightarrow> Q r"
  shows "Q r"
proof -
  have "turn' = turn \<longrightarrow> I a \<longrightarrow> Q r" if "goLoop turn' a = Some r" for turn' a r
    using that
  proof (rule goLoop.raw_induct [rotated])
    fix loop :: "('a \<Rightarrow> ('b + 'a) option) \<Rightarrow> 'a \<Rightarrow> 'b option" and turn' a r
    assume IH: "\<And>turn' a r. loop turn' a = Some r \<Longrightarrow> turn' = turn \<longrightarrow> I a \<longrightarrow> Q r"
      and eq: "turn' a \<bind> case_sum Some (loop turn') = Some r"
    show "turn' = turn \<longrightarrow> I a \<longrightarrow> Q r"
    proof (intro impI)
      assume same: "turn' = turn" "I a"
      with eq obtain q where q: "turn a = Some q" "case_sum Some (loop turn) q = Some r"
        by (auto simp: bind_eq_Some_conv)
      with same IH keep [of a] stops [of a] show "Q r" by (cases q) auto
    qed
  qed
  with ret \<open>I a\<close> show ?thesis by blast
qed

text \<open>A loop whose turns return, and bring a measure down while they go on, returns.\<close>

lemma goLoop_total:
  assumes "I a" and turn: "\<And>a. I a \<Longrightarrow> \<exists>q. turn a = Some q \<and>
    (\<forall>a'. q = Inr a' \<longrightarrow> I a' \<and> f a' < (f a :: nat))"
  shows "\<exists>r. goLoop turn a = Some r"
  using \<open>I a\<close>
proof (induction "f a" arbitrary: a rule: less_induct)
  case less
  from turn [OF \<open>I a\<close>] obtain q where q: "turn a = Some q"
    "\<forall>a'. q = Inr a' \<longrightarrow> I a' \<and> f a' < f a" by blast
  then show ?case using less.hyps by (cases q) (simp_all add: goLoop.simps [of turn a])
qed

end
