(* ===== verification/Go_Errors.thy ===== *)
theory Go_Errors
  imports Prelude
begin

text \<open>
  Go's \<open>error\<close> values and the \<open>errors\<close> package, and the sentinels of \<open>errors.go\<close>. An error is
  a tree. Its inner nodes are the \<open>fmt.Errorf\<close> calls and the errors of code outside the
  repository; \<open>errors.Is\<close> and \<open>errors.AsType\<close> walk the \<open>%w\<close> edges only, so an error that is
  kept with \<open>%v\<close> is text and can no longer be matched.
\<close>

section \<open>Error values\<close>

datatype val = VInt int | VStr string | VByte char

text \<open>
  What the sources can observe of an error made by code outside the repository, through
  \<open>errors.AsType\<close>: that it is a \<open>*smithyhttp.ResponseError\<close> with a status, a
  \<open>smithy.APIError\<close> with a code, a \<open>transfermanager.MultipartUploadError\<close> with an upload ID, or
  an \<open>*azcore.ResponseError\<close> with a status and a code.
\<close>

record foreign =
  message :: string
  httpStatus :: "int option"
  apiCode :: "string option"
  uploadID :: "string option"
  azResponse :: "(int \<times> string) option"

text \<open>
  \<^item> \<open>ErrVar name text\<close>: a package-level variable made with \<open>errors.New(text)\<close>; two variables are
    different errors whatever their text.
  \<^item> \<open>Errorf site format vals ws ts\<close>: the error the call \<open>fmt.Errorf(format, ...)\<close> (or
    \<open>errors.New(format)\<close>) of the function \<open>site\<close> returns, with its plain arguments \<open>vals\<close>, the
    errors \<open>ws\<close> it wraps with \<open>%w\<close> and the errors \<open>ts\<close> it keeps as text with \<open>%v\<close>. The call
    site and the arguments stand for the pointer that Go compares.
  \<^item> \<open>Foreign f ws\<close>: an error of other code that wraps \<open>ws\<close>. An \<open>Is\<close> method that reports a match
    with a variable is represented by that variable among \<open>ws\<close>.
\<close>

datatype err =
    ErrVar string string
  | Errorf string string "val list" "err list" "err list"
  | Foreign foreign "err list"

fun errors_Is :: "err \<Rightarrow> err \<Rightarrow> bool" where
  "errors_Is (ErrVar n s) t = (ErrVar n s = t)"
| "errors_Is (Errorf l f vs ws ts) t =
     (Errorf l f vs ws ts = t \<or> list_ex (\<lambda>w. errors_Is w t) ws)"
| "errors_Is (Foreign x ws) t = (Foreign x ws = t \<or> list_ex (\<lambda>w. errors_Is w t) ws)"

text \<open>\<open>errors.AsType\<close>: the first node, in pre-order, that has the type \<open>p\<close> recognises.\<close>

fun errors_As :: "(foreign \<Rightarrow> 'a option) \<Rightarrow> err \<Rightarrow> 'a option" where
  "errors_As p (ErrVar n s) = None"
| "errors_As p (Errorf l f vs ws ts) = first_some (errors_As p) ws"
| "errors_As p (Foreign x ws) =
     (case p x of Some a \<Rightarrow> Some a | None \<Rightarrow> first_some (errors_As p) ws)"

text \<open>\<open>errors.Is\<close> on a value that may be nil; nil matches no target.\<close>

definition errors_Is_opt :: "err option \<Rightarrow> err \<Rightarrow> bool" where
  "errors_Is_opt e t = (case e of None \<Rightarrow> False | Some x \<Rightarrow> errors_Is x t)"

lemma errors_Is_opt_simps [simp]:
  "errors_Is_opt None t = False"
  "errors_Is_opt (Some e) t = errors_Is e t"
  by (simp_all add: errors_Is_opt_def)

lemma errors_Is_refl [simp]: "errors_Is e e"
  by (cases e) simp_all

text \<open>The two forms the sources build: the dual form \<open>%w: %w\<close>, and a message that wraps one.\<close>

definition dual :: "err \<Rightarrow> err \<Rightarrow> err" where
  "dual s e = Errorf '''' ''%w: %w'' [] [s, e] []"

definition newError :: "string \<Rightarrow> string \<Rightarrow> val list \<Rightarrow> err" where
  "newError site text vs = Errorf site text vs [] []"

lemma errors_As_dual [simp]:
  "errors_As p (dual (ErrVar n s) e) = errors_As p e"
  by (simp add: dual_def split: option.split)

section \<open>Sentinels\<close>

text \<open>The variables of \<open>io\<close> and \<open>context\<close>.\<close>

definition EOF :: err where "EOF = ErrVar ''io.EOF'' ''EOF''"

definition ErrUnexpectedEOF :: err where
  "ErrUnexpectedEOF = ErrVar ''io.ErrUnexpectedEOF'' ''unexpected EOF''"

definition Canceled :: err where
  "Canceled = ErrVar ''context.Canceled'' ''context canceled''"

definition DeadlineExceeded :: err where
  "DeadlineExceeded = ErrVar ''context.DeadlineExceeded'' ''context deadline exceeded''"

text \<open>The five sentinels of \<open>errors.go\<close>.\<close>

definition ErrNotFound :: err where
  "ErrNotFound = ErrVar ''storage.ErrNotFound'' ''storage object not found''"

definition ErrContainerNotFound :: err where
  "ErrContainerNotFound = ErrVar ''storage.ErrContainerNotFound'' ''storage container not found''"

definition ErrTooLarge :: err where
  "ErrTooLarge = ErrVar ''storage.ErrTooLarge'' ''storage object too large''"

definition ErrNotReady :: err where
  "ErrNotReady = ErrVar ''storage.ErrNotReady'' ''storage not ready''"

definition ErrUnavailable :: err where
  "ErrUnavailable = ErrVar ''storage.ErrUnavailable'' ''storage unavailable''"

lemmas sentinel_defs = EOF_def ErrUnexpectedEOF_def Canceled_def DeadlineExceeded_def
  ErrNotFound_def ErrContainerNotFound_def ErrTooLarge_def ErrNotReady_def ErrUnavailable_def

definition sentinels :: "err list" where
  "sentinels = [ErrNotFound, ErrContainerNotFound, ErrTooLarge, ErrNotReady, ErrUnavailable]"

text \<open>A sentinel is a variable: it matches itself alone, and every use of it is wrapped.\<close>

definition is_var :: "err \<Rightarrow> bool" where
  "is_var e = (case e of ErrVar _ _ \<Rightarrow> True | _ \<Rightarrow> False)"

lemma errors_Is_var: "is_var s \<Longrightarrow> errors_Is s t \<longleftrightarrow> s = t"
  by (cases s) (simp_all add: is_var_def)

lemma is_var_sentinels [simp]:
  "is_var EOF" "is_var ErrUnexpectedEOF" "is_var Canceled" "is_var DeadlineExceeded"
  "is_var ErrNotFound" "is_var ErrContainerNotFound" "is_var ErrTooLarge" "is_var ErrNotReady"
  "is_var ErrUnavailable"
  by (simp_all add: is_var_def sentinel_defs)

lemma sentinel_distinct:
  "distinct [EOF, ErrUnexpectedEOF, Canceled, DeadlineExceeded, ErrNotFound,
     ErrContainerNotFound, ErrTooLarge, ErrNotReady, ErrUnavailable]"
  by (simp add: sentinel_defs)

lemma sentinel_distinct_rev:
  "distinct [ErrUnavailable, ErrNotReady, ErrTooLarge, ErrContainerNotFound, ErrNotFound,
     DeadlineExceeded, Canceled, ErrUnexpectedEOF, EOF]"
  by (simp add: sentinel_defs)

text \<open>The inequalities between the variables, in both directions.\<close>

lemmas sentinel_neqs [simp] =
  sentinel_distinct [unfolded distinct.simps list.set insert_iff empty_iff de_Morgan_disj
    simp_thms]
  sentinel_distinct_rev [unfolded distinct.simps list.set insert_iff empty_iff de_Morgan_disj
    simp_thms]

text \<open>Matching a variable against an error the sources build reduces to its \<open>%w\<close> operands.\<close>

lemma is_var_neq [simp]:
  "is_var t \<Longrightarrow> Errorf l f vs ws ts \<noteq> t" "is_var t \<Longrightarrow> Foreign x ws \<noteq> t"
  by (auto simp: is_var_def)

lemma errors_Is_Errorf_var:
  "is_var t \<Longrightarrow> errors_Is (Errorf l f vs ws ts) t \<longleftrightarrow> (\<exists>w \<in> set ws. errors_Is w t)"
  by (simp add: list_ex_iff)

lemma errors_Is_Foreign_var:
  "is_var t \<Longrightarrow> errors_Is (Foreign x ws) t \<longleftrightarrow> (\<exists>w \<in> set ws. errors_Is w t)"
  by (simp add: list_ex_iff)

lemma errors_Is_newError [simp]: "is_var t \<Longrightarrow> \<not> errors_Is (newError l f vs) t"
  by (simp add: newError_def)

lemma errors_Is_dual [simp]:
  "is_var t \<Longrightarrow> errors_Is (dual a b) t \<longleftrightarrow> errors_Is a t \<or> errors_Is b t"
  by (simp add: dual_def)

text \<open>
  The wrapped operand stays matchable itself, not only against variables: a dual form keeps the
  identity of its cause.
\<close>

lemma errors_Is_dual_cause: "errors_Is b t \<Longrightarrow> errors_Is (dual a b) t"
  by (simp add: dual_def)

lemma errors_Is_dual_head: "errors_Is a t \<Longrightarrow> errors_Is (dual a b) t"
  by (simp add: dual_def)

lemma errors_Is_sentinel [simp]:
  "errors_Is EOF t \<longleftrightarrow> EOF = t" "errors_Is ErrUnexpectedEOF t \<longleftrightarrow> ErrUnexpectedEOF = t"
  "errors_Is Canceled t \<longleftrightarrow> Canceled = t"
  "errors_Is DeadlineExceeded t \<longleftrightarrow> DeadlineExceeded = t"
  "errors_Is ErrNotFound t \<longleftrightarrow> ErrNotFound = t"
  "errors_Is ErrContainerNotFound t \<longleftrightarrow> ErrContainerNotFound = t"
  "errors_Is ErrTooLarge t \<longleftrightarrow> ErrTooLarge = t" "errors_Is ErrNotReady t \<longleftrightarrow> ErrNotReady = t"
  "errors_Is ErrUnavailable t \<longleftrightarrow> ErrUnavailable = t"
  by (simp_all add: errors_Is_var)

end
