(* ===== verification/Go_Readers.thy ===== *)
theory Go_Readers
  imports Go_Errors
begin

text \<open>
  \<open>io.Reader\<close>. A reader is a state and a function from the state and the length of the buffer to
  the bytes read, the error and the next state; \<open>None\<close> is a call that does not return. The locale
  \<open>stream_reader\<close> is the contract of a reader that delivers a finite stream and then fails or
  reaches its end, and \<open>io.ReadAll\<close> over such a reader is correct and terminates. The readers of
  the standard library that the sources build, and the two test bodies of
  \<open>storagetest/suite.go\<close>, implement the contract.
\<close>

type_synonym 's rd = "'s \<Rightarrow> nat \<Rightarrow> (bytes \<times> err option \<times> 's) option"

section \<open>Reading to the end\<close>

text \<open>
  \<open>io.ReadAll\<close>: it reads into the spare capacity of its buffer, \<open>space n\<close> bytes once \<open>n\<close> bytes
  are held, until a read fails; the end of the stream is not an error. How the buffer grows is the
  runtime's choice, so it is an argument.
\<close>

partial_function (option) readAll ::
  "(nat \<Rightarrow> nat) \<Rightarrow> 's rd \<Rightarrow> 's \<Rightarrow> bytes \<Rightarrow> (bytes \<times> err option \<times> 's) option" where
  "readAll space rd s acc =
     do { (bs, e, s') \<leftarrow> rd s (space (length acc));
          (case e of
             None \<Rightarrow> readAll space rd s' (acc @ bs)
           | Some x \<Rightarrow> Some (acc @ bs, if x = EOF then None else Some x, s')) }"

declare readAll.simps [code]

text \<open>
  \<open>drains rd s d e s'\<close>: some sequence of reads into non-empty buffers takes \<open>s\<close> to \<open>s'\<close>,
  delivers the bytes \<open>d\<close> and ends with the error \<open>e\<close>.
\<close>

inductive drains :: "'s rd \<Rightarrow> 's \<Rightarrow> bytes \<Rightarrow> err \<Rightarrow> 's \<Rightarrow> bool" for rd where
  drains_stop: "0 < m \<Longrightarrow> rd s m = Some (bs, Some e, s') \<Longrightarrow> drains rd s bs e s'"
| drains_more: "0 < m \<Longrightarrow> rd s m = Some (bs, None, s') \<Longrightarrow> drains rd s' d e s'' \<Longrightarrow>
     drains rd s (bs @ d) e s''"

text \<open>Any sequence of reads, complete or not.\<close>

inductive reads :: "'s rd \<Rightarrow> 's \<Rightarrow> bytes \<Rightarrow> 's \<Rightarrow> bool" for rd where
  reads_none: "reads rd s [] s"
| reads_step: "rd s m = Some (bs, e, s') \<Longrightarrow> reads rd s' d s'' \<Longrightarrow> reads rd s (bs @ d) s''"

lemma drains_reads: "drains rd s d e s' \<Longrightarrow> reads rd s d s'"
proof (induction rule: drains.induct)
  case (drains_stop m s bs e s')
  then show ?case using reads_step [OF _ reads_none] by fastforce
next
  case (drains_more m s bs s' d e s'')
  then show ?case using reads_step by metis
qed

text \<open>A reader that only relabels the state of another is drained as the other is.\<close>

lemma drains_embed:
  assumes "\<And>s m. rd2 (C s) m = map_option (\<lambda>(bs, e, s'). (bs, e, C s')) (rd1 s m)"
    and "drains rd2 (C s) d e t"
  shows "\<exists>s'. t = C s' \<and> drains rd1 s d e s'"
  using assms(2)
proof (induction "C s" d e t arbitrary: s rule: drains.induct)
  case (drains_stop m bs e t)
  then show ?case using assms(1) by (auto intro: drains.drains_stop)
next
  case (drains_more m bs t d e u)
  from drains_more(2) obtain s' where "rd1 s m = Some (bs, None, s')" "t = C s'"
    using assms(1) [of s m] by auto
  moreover from this(2) drains_more(4) obtain u' where "u = C u'" "drains rd1 s' d e u'" by blast
  ultimately have "u = C u'" "drains rd1 s (bs @ d) e u'"
    using drains.drains_more [OF drains_more(1)] by simp_all
  then show ?case by blast
qed

lemma readAll_drains:
  fixes rd :: "'s rd"
  assumes space: "\<And>n. 0 < space n" and ret: "readAll space rd s acc = Some (out, e, s')"
  shows "\<exists>d x. out = acc @ d \<and> drains rd s d x s' \<and> e = (if x = EOF then None else Some x)"
proof -
  define P where "P = (\<lambda>(space :: nat \<Rightarrow> nat) (rd :: 's rd) s acc r. (\<forall>n. 0 < space n) \<longrightarrow>
    (\<exists>d x s'. r = (acc @ d, if x = EOF then None else Some x, s') \<and> drains rd s d x s'))"
  have "P space rd s acc (out, e, s')"
  proof (rule readAll.raw_induct [where P = P, OF _ ret])
    fix f :: "(nat \<Rightarrow> nat) \<Rightarrow> 's rd \<Rightarrow> 's \<Rightarrow> bytes \<Rightarrow> (bytes \<times> err option \<times> 's) option"
      and space rd s acc r
    assume IH: "\<And>space rd s acc r. f space rd s acc = Some r \<Longrightarrow> P space rd s acc r"
      and eq: "rd s (space (length acc)) \<bind> (\<lambda>(bs, e, s').
        case e of None \<Rightarrow> f space rd s' (acc @ bs)
        | Some x \<Rightarrow> Some (acc @ bs, if x = EOF then None else Some x, s')) = Some r"
    then obtain bs e s' where rd: "rd s (space (length acc)) = Some (bs, e, s')"
      by (auto simp: bind_eq_Some_conv)
    show "P space rd s acc r"
      unfolding P_def
    proof (intro impI)
      assume pos: "\<forall>n. 0 < space n"
      show "\<exists>d x s'. r = (acc @ d, if x = EOF then None else Some x, s') \<and> drains rd s d x s'"
      proof (cases e)
        case None
        with eq rd have "P space rd s' (acc @ bs) r" by (intro IH) simp
        with pos obtain d x t where
          "r = ((acc @ bs) @ d, if x = EOF then None else Some x, t)" "drains rd s' d x t"
          by (auto simp only: P_def)
        moreover from this(2) pos rd None have "drains rd s (bs @ d) x t"
          by (auto intro: drains_more)
        ultimately show ?thesis by auto
      next
        case (Some x)
        with rd pos have "drains rd s bs x s'"
          by (intro drains_stop [of "space (length acc)"]) simp_all
        with eq rd Some show ?thesis by (intro exI [of _ bs] exI [of _ x] exI [of _ s']) simp
      qed
    qed
  qed
  with space show ?thesis by (auto simp: P_def)
qed

section \<open>The contract of a finite stream\<close>

text \<open>
  \<open>rest s\<close> is what is still to come, \<open>fin s\<close> the error that ends it (\<open>EOF\<close> for a stream that ends
  well), \<open>steps s\<close> a bound on the reads that do not end it: a reader may return nothing and no
  error, but not for ever.
\<close>

locale stream_reader =
  fixes rd :: "'s rd" and ok :: "'s \<Rightarrow> bool" and rest :: "'s \<Rightarrow> bytes"
    and fin :: "'s \<Rightarrow> err" and steps :: "'s \<Rightarrow> nat"
  assumes returns: "ok s \<Longrightarrow> 0 < m \<Longrightarrow> rd s m \<noteq> None"
    and bounded: "ok s \<Longrightarrow> 0 < m \<Longrightarrow> rd s m = Some (bs, e, s') \<Longrightarrow> length bs \<le> m"
    and more: "ok s \<Longrightarrow> 0 < m \<Longrightarrow> rd s m = Some (bs, None, s') \<Longrightarrow>
      ok s' \<and> rest s = bs @ rest s' \<and> fin s' = fin s \<and> steps s' < steps s"
    and stop: "ok s \<Longrightarrow> 0 < m \<Longrightarrow> rd s m = Some (bs, Some x, s') \<Longrightarrow>
      rest s = bs \<and> fin s = x"
begin

text \<open>Whatever the buffers, the stream that is delivered is the same.\<close>

lemma drains_content: "drains rd s d e s' \<Longrightarrow> ok s \<Longrightarrow> d = rest s \<and> e = fin s"
proof (induction rule: drains.induct)
  case (drains_stop m s bs e s')
  then show ?case using stop [of s m bs e s'] by simp
next
  case (drains_more m s bs s' d e s'')
  then show ?case using more [of s m bs s'] by simp
qed

lemma read_cases:
  assumes "ok s" and "0 < m"
  obtains (more) bs s' where "rd s m = Some (bs, None, s')" "ok s'" "rest s = bs @ rest s'"
      "fin s' = fin s" "steps s' < steps s" "length bs \<le> m"
    | (stop) s' where "rd s m = Some (rest s, Some (fin s), s')" "length (rest s) \<le> m"
proof -
  from returns [OF assms] obtain bs e s' where rd: "rd s m = Some (bs, e, s')"
    by (auto simp: not_None_eq)
  show thesis
  proof (cases e)
    case None
    with rd have rd': "rd s m = Some (bs, None, s')" by simp
    from stream_reader.more [OF stream_reader_axioms assms rd'] bounded [OF assms rd']
    show thesis by (elim conjE) (rule that(1) [OF rd'])
  next
    case (Some x)
    with rd have rd': "rd s m = Some (bs, Some x, s')" by simp
    from stream_reader.stop [OF stream_reader_axioms assms rd'] bounded [OF assms rd'] rd'
    show thesis by (intro that(2)) simp_all
  qed
qed

text \<open>Reading to the end terminates and gives exactly the stream.\<close>

lemma readAll_stream:
  assumes space: "\<And>n. 0 < space n"
  shows "ok s \<Longrightarrow> \<exists>s'. readAll space rd s acc =
    Some (acc @ rest s, if fin s = EOF then None else Some (fin s), s')"
proof (induction "steps s" arbitrary: s acc rule: less_induct)
  case less
  from \<open>ok s\<close> space show ?case
  proof (cases rule: read_cases [of s "space (length acc)"])
    case (more bs s')
    from less.hyps [OF more(5,2)] obtain s'' where
      "readAll space rd s' (acc @ bs) =
        Some ((acc @ bs) @ rest s', if fin s' = EOF then None else Some (fin s'), s'')"
      by blast
    with more show ?thesis by (simp add: readAll.simps [of space rd s])
  next
    case (stop s')
    then show ?thesis by (simp add: readAll.simps [of space rd s])
  qed
qed

lemma drains_exists: "ok s \<Longrightarrow> \<exists>s'. drains rd s (rest s) (fin s) s'"
proof -
  assume ok: "ok s"
  have space: "\<And>n. 0 < (\<lambda>_::nat. 1::nat) n" by simp
  from readAll_stream [OF space ok, of "[]"] obtain s' where
    "readAll (\<lambda>_. 1) rd s [] = Some (rest s, if fin s = EOF then None else Some (fin s), s')"
    by auto
  from readAll_drains [OF space this] obtain d x where d: "drains rd s d x s'"
    by auto
  then show ?thesis using drains_content [OF d ok] by blast
qed

end

section \<open>Readers with a choice\<close>

text \<open>
  A reader whose next result is not a function of its state, as one under a timer or over a network: a
  relation between the state, the length of the buffer, the bytes read, the error and the next state.
  \<open>runs R b d eo b'\<close> is a sequence of reads that delivers \<open>d\<close>; with \<open>eo = Some e\<close> it has ended with \<open>e\<close>,
  with \<open>eo = None\<close> it goes on.
\<close>

type_synonym 'g readrel = "'g \<Rightarrow> nat \<Rightarrow> bytes \<Rightarrow> err option \<Rightarrow> 'g \<Rightarrow> bool"

inductive runs :: "'g readrel \<Rightarrow> 'g \<Rightarrow> bytes \<Rightarrow> err option \<Rightarrow> 'g \<Rightarrow> bool" for R where
  runs_none: "runs R b [] None b"
| runs_stop: "0 < m \<Longrightarrow> R b m bs (Some e) b' \<Longrightarrow> runs R b bs (Some e) b'"
| runs_more: "0 < m \<Longrightarrow> R b m bs None b' \<Longrightarrow> runs R b' d eo b'' \<Longrightarrow> runs R b (bs @ d) eo b''"

definition of_rd :: "'g rd \<Rightarrow> 'g readrel" where
  "of_rd rd b m bs e b' \<longleftrightarrow> rd b m = Some (bs, e, b')"

text \<open>
  \<open>streams R b d\<close>: reading \<open>b\<close> delivers a part of \<open>d\<close> from its start, whatever happens; it is never told
  to have reached the end before all of \<open>d\<close> is delivered; and it can reach that end.
\<close>

definition streams :: "'g readrel \<Rightarrow> 'g \<Rightarrow> bytes \<Rightarrow> bool" where
  "streams R b d \<longleftrightarrow> (\<exists>b'. runs R b d (Some EOF) b') \<and>
     (\<forall>d' eo b'. runs R b d' eo b' \<longrightarrow> (\<exists>rest. d = d' @ rest \<and> (eo = Some EOF \<longrightarrow> rest = [])))"

lemma streams_end: "streams R b d \<Longrightarrow> runs R b d' (Some EOF) b' \<Longrightarrow> d' = d"
  unfolding streams_def by fastforce

lemma runs_one: "0 < m \<Longrightarrow> R b m bs e b' \<Longrightarrow> runs R b bs e b'"
  using runs_more [OF _ _ runs_none, of m R b bs b'] by (cases e) (auto intro: runs_stop)

lemma drains_runs: "drains rd b d e b' \<Longrightarrow> runs (of_rd rd) b d (Some e) b'"
  by (induction rule: drains.induct) (auto simp: of_rd_def intro: runs_stop runs_more)

text \<open>A reader that keeps the contract of a finite stream, when the stream ends well.\<close>

context stream_reader
begin

lemma runs_content:
  "runs (of_rd rd) b d eo b' \<Longrightarrow> ok b \<Longrightarrow> \<exists>r. rest b = d @ r \<and> (eo \<noteq> None \<longrightarrow> r = [] \<and> eo = Some (fin b))"
proof (induction rule: runs.induct)
  case (runs_stop m b bs e b')
  then show ?case using stop [of b m bs e b'] by (simp add: of_rd_def)
next
  case (runs_more m b bs b' d eo b'')
  then show ?case using more [of b m bs b'] by (auto simp: of_rd_def)
qed simp

lemma streams_content: "ok b \<Longrightarrow> fin b = EOF \<Longrightarrow> streams (of_rd rd) b (rest b)"
  unfolding streams_def using drains_exists [of b] drains_runs runs_content by fastforce

end

section \<open>Readers of the standard library and the test bodies\<close>

text \<open>\<open>bytes.Reader\<close> and \<open>strings.Reader\<close>: the bytes not yet read.\<close>

definition bytes_Read :: "bytes rd" where
  "bytes_Read s m =
     Some (if s = [] then ([], Some EOF, []) else (take m s, None, drop m s))"

interpretation bytes_rd: stream_reader bytes_Read "\<lambda>_. True" "\<lambda>s. s" "\<lambda>_. EOF" length
  by unfold_locales (auto simp: bytes_Read_def split: if_splits)

text \<open>\<open>iotest.OneByteReader\<close>: every read asks for one byte.\<close>

definition oneByte_Read :: "'s rd \<Rightarrow> 's rd" where
  "oneByte_Read rd s m = (if m = 0 then Some ([], None, s) else rd s 1)"

text \<open>\<open>readOnly\<close> hides every method of the underlying reader but Read.\<close>

record 's readOnly =
  ro_r :: 's

definition readOnly_Read :: "'s rd \<Rightarrow> 's readOnly rd" where
  "readOnly_Read rd x m =
     do { (bs, e, s') \<leftarrow> rd (ro_r x) m; Some (bs, e, x\<lparr>ro_r := s'\<rparr>) }"

text \<open>\<open>failAfter\<close> yields the bytes of its reader and then fails with its error instead of EOF.\<close>

record 's failAfter =
  fa_r :: 's
  fa_err :: err

definition failAfter_Read :: "'s rd \<Rightarrow> 's failAfter rd" where
  "failAfter_Read rd f m =
     do { (bs, e, s') \<leftarrow> rd (fa_r f) m;
          let f' = f\<lparr>fa_r := s'\<rparr>;
          if errors_Is_opt e EOF then Some (bs, Some (fa_err f), f') else Some (bs, e, f') }"

context stream_reader
begin

lemma oneByte_stream: "stream_reader (oneByte_Read rd) ok rest fin steps"
proof unfold_locales
  show "ok s \<Longrightarrow> 0 < m \<Longrightarrow> oneByte_Read rd s m \<noteq> None" for s m
    using returns [of s 1] by (simp add: oneByte_Read_def)
  show "ok s \<Longrightarrow> 0 < m \<Longrightarrow> oneByte_Read rd s m = Some (bs, e, s') \<Longrightarrow> length bs \<le> m"
    for s m bs e s'
    using bounded [of s 1 bs e s'] by (simp add: oneByte_Read_def)
  show "ok s \<Longrightarrow> 0 < m \<Longrightarrow> oneByte_Read rd s m = Some (bs, None, s') \<Longrightarrow>
      ok s' \<and> rest s = bs @ rest s' \<and> fin s' = fin s \<and> steps s' < steps s" for s m bs s'
    using more [of s 1] by (simp add: oneByte_Read_def)
  show "ok s \<Longrightarrow> 0 < m \<Longrightarrow> oneByte_Read rd s m = Some (bs, Some e, s') \<Longrightarrow>
      rest s = bs \<and> fin s = e" for s m bs e s'
    using stop [of s 1] by (simp add: oneByte_Read_def)
qed

lemma readOnly_stream:
  "stream_reader (readOnly_Read rd) (\<lambda>x. ok (ro_r x)) (\<lambda>x. rest (ro_r x))
     (\<lambda>x. fin (ro_r x)) (\<lambda>x. steps (ro_r x))"
proof (unfold_locales, goal_cases)
  case (1 x m)
  then show ?case by (auto elim!: read_cases [of "ro_r x" m] simp: readOnly_Read_def)
next
  case (2 x m bs e x')
  then show ?case by (auto elim!: read_cases [of "ro_r x" m] simp: readOnly_Read_def)
next
  case (3 x m bs x')
  then show ?case by (auto elim!: read_cases [of "ro_r x" m] simp: readOnly_Read_def)
next
  case (4 x m bs e x')
  then show ?case by (auto elim!: read_cases [of "ro_r x" m] simp: readOnly_Read_def)
qed

lemma failAfter_stream:
  "stream_reader (failAfter_Read rd) (\<lambda>f. ok (fa_r f)) (\<lambda>f. rest (fa_r f))
     (\<lambda>f. if errors_Is (fin (fa_r f)) EOF then fa_err f else fin (fa_r f))
     (\<lambda>f. steps (fa_r f))"
proof (unfold_locales, goal_cases)
  case (1 f m)
  then show ?case by (auto elim!: read_cases [of "fa_r f" m] simp: failAfter_Read_def Let_def)
next
  case (2 f m bs e f')
  then show ?case
    by (auto elim!: read_cases [of "fa_r f" m] simp: failAfter_Read_def Let_def split: if_splits)
next
  case (3 f m bs f')
  then show ?case
    by (auto elim!: read_cases [of "fa_r f" m] simp: failAfter_Read_def Let_def split: if_splits)
next
  case (4 f m bs e f')
  then show ?case
    by (auto elim!: read_cases [of "fa_r f" m] simp: failAfter_Read_def Let_def split: if_splits)
qed

end

end
