(* ===== verification/Client_API.thy ===== *)
theory Client_API
  imports Go_Readers
begin

text \<open>
  The standard tier of \<open>client.go\<close>: the types the operations exchange, the interface \<open>Client\<close> as a
  record of its methods, and the contract the interface documents, as the locale
  \<open>storage_client\<close>. A provider's state is a value of type \<open>'c\<close> that every method returns updated;
  \<open>'b\<close> is the reader a Put body is and \<open>'g\<close> the reader a Get body is.
\<close>

section \<open>Contexts\<close>

text \<open>
  What the sources observe of a \<open>context.Context\<close>: its deadline and what \<open>Err\<close> reports. A context
  may become done while a call runs, so \<open>Err\<close> at a later time is an argument where it is asked.
\<close>

record ctx =
  ctx_deadline :: "time option"
  ctx_err :: "err option"

definition background :: ctx where
  "background = \<lparr>ctx_deadline = None, ctx_err = None\<rparr>"

text \<open>\<open>context.WithTimeout\<close> at the time \<open>now\<close> keeps the parent's deadline when it is earlier.\<close>

definition withTimeout :: "time \<Rightarrow> ctx \<Rightarrow> int \<Rightarrow> ctx" where
  "withTimeout now c d =
     (let t = now\<lparr>instant := instant now + d\<rparr> in
      case ctx_deadline c of
        None \<Rightarrow> c\<lparr>ctx_deadline := Some t\<rparr>
      | Some t0 \<Rightarrow> if instant t0 < instant t then c else c\<lparr>ctx_deadline := Some t\<rparr>)"

section \<open>The types of the operations\<close>

record Object =
  obj_Key :: string
  obj_Size :: int
  obj_ContentType :: string
  obj_ETag :: string
  obj_ModifiedAt :: time

record 'g Blob =
  blob_Object :: Object
  blob_Body :: 'g

record PutOptions =
  po_ContentType :: string
  po_Size :: int

record ListOptions =
  lo_Prefix :: string
  lo_Token :: string
  lo_Limit :: int

record Page =
  pg_Objects :: "Object list"
  pg_Next :: string

text \<open>A nil \<open>ValidateKey\<close> accepts every key.\<close>

record Capabilities =
  cap_MaxKeyLength :: int
  cap_ValidateKey :: "(string \<Rightarrow> err option) option"

text \<open>
  The methods. \<open>cl_Close\<close> is present when the client implements \<open>io.Closer\<close> besides. A Put that
  never returns, as one over a body that never ends, is \<open>None\<close>.
\<close>

record ('c, 'b, 'g) Client =
  cl_Put :: "'c \<Rightarrow> ctx \<Rightarrow> string \<Rightarrow> 'b \<Rightarrow> PutOptions \<Rightarrow> ((err + Object) \<times> 'c \<times> 'b) option"
  cl_Get :: "'c \<Rightarrow> ctx \<Rightarrow> string \<Rightarrow> (err + 'g Blob) \<times> 'c"
  cl_Stat :: "'c \<Rightarrow> ctx \<Rightarrow> string \<Rightarrow> (err + Object) \<times> 'c"
  cl_Delete :: "'c \<Rightarrow> ctx \<Rightarrow> string \<Rightarrow> err option \<times> 'c"
  cl_List :: "'c \<Rightarrow> ctx \<Rightarrow> ListOptions \<Rightarrow> (err + Page) \<times> 'c"
  cl_EnsureContainer :: "'c \<Rightarrow> ctx \<Rightarrow> err option \<times> 'c"
  cl_Probe :: "'c \<Rightarrow> ctx \<Rightarrow> err option \<times> 'c"
  cl_Capabilities :: "'c \<Rightarrow> Capabilities"
  cl_Close :: "('c \<Rightarrow> err option \<times> 'c) option"

definition defaultContentType :: string where
  "defaultContentType = ''application/octet-stream''"

definition storedType :: "PutOptions \<Rightarrow> string" where
  "storedType opts = (if po_ContentType opts = [] then defaultContentType else po_ContentType opts)"

definition keyError :: "Capabilities \<Rightarrow> string \<Rightarrow> err option" where
  "keyError caps key = (case cap_ValidateKey caps of None \<Rightarrow> None | Some v \<Rightarrow> v key)"

section \<open>The contract\<close>

text \<open>Following the continuation tokens of a listing from its options \<open>lo\<close> to the last page.\<close>

inductive walk :: "('c, 'b, 'g) Client \<Rightarrow> ctx \<Rightarrow> 'c \<Rightarrow> ListOptions \<Rightarrow> Object list \<Rightarrow> bool" for cl x where
  walk_last: "cl_List cl c x lo = (Inr page, c') \<Longrightarrow> pg_Next page = [] \<Longrightarrow> walk cl x c lo (pg_Objects page)"
| walk_more: "cl_List cl c x lo = (Inr page, c') \<Longrightarrow> pg_Next page \<noteq> [] \<Longrightarrow>
    walk cl x c' (lo\<lparr>lo_Token := pg_Next page\<rparr>) objs \<Longrightarrow> walk cl x c lo (pg_Objects page @ objs)"

text \<open>A body that ends well, of a size that a declared size does not contradict.\<close>

definition fits :: "PutOptions \<Rightarrow> bytes \<Rightarrow> bool" where
  "fits opts d \<longleftrightarrow> 0 \<le> po_Size opts \<and> (0 < po_Size opts \<longrightarrow> int (length d) = po_Size opts)"

text \<open>
  \<open>objs c\<close> is the abstract store: the content and the metadata at each key; \<open>container c\<close> says whether
  the container exists. \<open>up c x\<close> says that the store is reachable under the context \<open>x\<close>, and
  \<open>room c k opts d\<close> that nothing of the provider's own keeps it from storing \<open>d\<close> at \<open>k\<close>. \<open>gread\<close> is one
  Read of a Get body. The laws are the documented ones.

  Whatever the state of the store: Put is all or nothing and never truncates to a declared size, and it
  returns when its body ends; what Get and Stat report is what Put stored, and what reads of a Get body
  deliver is its content from the start, complete when the end is reported, which reading can reach;
  \<open>ErrNotFound\<close> is reported by Get and Stat only, of a key that is missing from an existing container,
  and \<open>ErrContainerNotFound\<close> only while the container does not exist; List reports stored objects under
  the prefix, at most as many as the limit, and following its tokens lists each of them exactly once (the
  empty string is no key);
  EnsureContainer creates the container and leaves an existing one as it is.

  While the store is up: with the container, Put stores an acceptable body, Get and Stat succeed for a
  stored key and fail with \<open>ErrNotFound\<close> for a missing one, Delete (of a missing key as well), List and
  Probe succeed; without it, Probe and every object operation fail with \<open>ErrContainerNotFound\<close>; and
  EnsureContainer succeeds.
\<close>

locale storage_client =
  fixes cl :: "('c, 'b, 'g) Client" and brd :: "'b rd" and gread :: "'g readrel"
    and wf :: "'c \<Rightarrow> bool" and up :: "'c \<Rightarrow> ctx \<Rightarrow> bool" and container :: "'c \<Rightarrow> bool"
    and objs :: "'c \<Rightarrow> string \<rightharpoonup> (bytes \<times> Object)"
    and room :: "'c \<Rightarrow> string \<Rightarrow> PutOptions \<Rightarrow> bytes \<Rightarrow> bool"
  assumes put_ok: "wf c \<Longrightarrow> int64 (po_Size opts) \<Longrightarrow> cl_Put cl c x k b opts = Some (Inr obj, c', b') \<Longrightarrow>
      \<exists>d. drains brd b d EOF b' \<and> objs c' = (objs c)(k \<mapsto> (d, obj)) \<and>
        (0 < po_Size opts \<longrightarrow> int (length d) = po_Size opts) \<and>
        obj_Key obj = k \<and> obj_Size obj = int (length d) \<and>
        obj_ContentType obj = storedType opts \<and> container c \<and> container c' \<and> wf c'"
    and put_err: "wf c \<Longrightarrow> int64 (po_Size opts) \<Longrightarrow> cl_Put cl c x k b opts = Some (Inl e, c', b') \<Longrightarrow>
      objs c' = objs c \<and> container c' = container c \<and> wf c'"
    and put_returns: "wf c \<Longrightarrow> int64 (po_Size opts) \<Longrightarrow> stream_reader brd ok rest fin steps \<Longrightarrow> ok b \<Longrightarrow>
      cl_Put cl c x k b opts \<noteq> None"
    and put_up: "wf c \<Longrightarrow> int64 (po_Size opts) \<Longrightarrow> stream_reader brd ok rest fin steps \<Longrightarrow> ok b \<Longrightarrow>
      up c x \<Longrightarrow> keyError (cl_Capabilities cl c) k = None \<Longrightarrow> fin b = EOF \<Longrightarrow> fits opts (rest b) \<Longrightarrow>
      room c k opts (rest b) \<Longrightarrow> cl_Put cl c x k b opts = Some (r, c', b') \<Longrightarrow>
      if container c then \<exists>obj. r = Inr obj else \<exists>e. r = Inl e \<and> errors_Is e ErrContainerNotFound"
    and get_ok: "wf c \<Longrightarrow> cl_Get cl c x k = (Inr blob, c') \<Longrightarrow>
      \<exists>d. objs c k = Some (d, blob_Object blob) \<and> streams gread (blob_Body blob) d \<and>
        container c \<and> objs c' = objs c \<and> container c' \<and> wf c'"
    and get_err: "wf c \<Longrightarrow> cl_Get cl c x k = (Inl e, c') \<Longrightarrow>
      objs c' = objs c \<and> container c' = container c \<and> wf c' \<and>
      (errors_Is e ErrNotFound \<longrightarrow> container c \<and> objs c k = None) \<and>
      (errors_Is e ErrContainerNotFound \<longrightarrow> \<not> container c)"
    and get_up: "wf c \<Longrightarrow> up c x \<Longrightarrow> cl_Get cl c x k = (g, c') \<Longrightarrow>
      if \<not> container c then \<exists>e. g = Inl e \<and> errors_Is e ErrContainerNotFound
      else if objs c k = None then \<exists>e. g = Inl e \<and> errors_Is e ErrNotFound
      else \<exists>blob. g = Inr blob"
    and stat_ok: "wf c \<Longrightarrow> cl_Stat cl c x k = (Inr obj, c') \<Longrightarrow>
      (\<exists>d. objs c k = Some (d, obj)) \<and> container c \<and> objs c' = objs c \<and> container c' \<and> wf c'"
    and stat_err: "wf c \<Longrightarrow> cl_Stat cl c x k = (Inl e, c') \<Longrightarrow>
      objs c' = objs c \<and> container c' = container c \<and> wf c' \<and>
      (errors_Is e ErrNotFound \<longrightarrow> container c \<and> objs c k = None) \<and>
      (errors_Is e ErrContainerNotFound \<longrightarrow> \<not> container c)"
    and stat_up: "wf c \<Longrightarrow> up c x \<Longrightarrow> cl_Stat cl c x k = (r, c') \<Longrightarrow>
      if \<not> container c then \<exists>e. r = Inl e \<and> errors_Is e ErrContainerNotFound
      else if objs c k = None then \<exists>e. r = Inl e \<and> errors_Is e ErrNotFound
      else \<exists>obj. r = Inr obj"
    and delete_ok: "wf c \<Longrightarrow> cl_Delete cl c x k = (None, c') \<Longrightarrow>
      objs c' = (objs c)(k := None) \<and> container c \<and> container c' \<and> wf c'"
    and delete_err: "wf c \<Longrightarrow> cl_Delete cl c x k = (Some e, c') \<Longrightarrow>
      objs c' = objs c \<and> container c' = container c \<and> wf c' \<and> \<not> errors_Is e ErrNotFound \<and>
      (errors_Is e ErrContainerNotFound \<longrightarrow> \<not> container c)"
    and delete_up: "wf c \<Longrightarrow> up c x \<Longrightarrow> cl_Delete cl c x k = (e', c') \<Longrightarrow>
      if container c then e' = None else \<exists>e. e' = Some e \<and> errors_Is e ErrContainerNotFound"
    and list_ok: "wf c \<Longrightarrow> cl_List cl c x lo = (Inr page, c') \<Longrightarrow>
      (\<forall>obj \<in> set (pg_Objects page). prefix (lo_Prefix lo) (obj_Key obj) \<and>
        (\<exists>d. objs c (obj_Key obj) = Some (d, obj))) \<and>
      (0 < lo_Limit lo \<longrightarrow> int (length (pg_Objects page)) \<le> lo_Limit lo) \<and>
      container c \<and> objs c' = objs c \<and> container c' \<and> wf c'"
    and list_walk: "wf c \<Longrightarrow> walk cl x c lo found \<Longrightarrow> lo_Token lo = [] \<Longrightarrow>
      distinct (map obj_Key found) \<and> obj_Key ` set found = {k \<in> dom (objs c). prefix (lo_Prefix lo) k \<and> k \<noteq> []}"
    and list_err: "wf c \<Longrightarrow> cl_List cl c x lo = (Inl e, c') \<Longrightarrow>
      objs c' = objs c \<and> container c' = container c \<and> wf c' \<and> \<not> errors_Is e ErrNotFound \<and>
      (errors_Is e ErrContainerNotFound \<longrightarrow> \<not> container c)"
    and list_up: "wf c \<Longrightarrow> up c x \<Longrightarrow> 0 \<le> lo_Limit lo \<Longrightarrow> cl_List cl c x lo = (p, c') \<Longrightarrow>
      if container c then \<exists>page. p = Inr page else \<exists>e. p = Inl e \<and> errors_Is e ErrContainerNotFound"
    and ensure_ok: "wf c \<Longrightarrow> cl_EnsureContainer cl c x = (None, c') \<Longrightarrow>
      container c' \<and> (container c \<longrightarrow> objs c' = objs c) \<and> wf c'"
    and ensure_err: "wf c \<Longrightarrow> cl_EnsureContainer cl c x = (Some e, c') \<Longrightarrow>
      objs c' = objs c \<and> container c' = container c \<and> wf c'"
    and ensure_up: "wf c \<Longrightarrow> up c x \<Longrightarrow> cl_EnsureContainer cl c x = (e', c') \<Longrightarrow> e' = None"
    and probe_ok: "wf c \<Longrightarrow> cl_Probe cl c x = (None, c') \<Longrightarrow>
      container c \<and> container c' \<and> objs c' = objs c \<and> wf c'"
    and probe_err: "wf c \<Longrightarrow> cl_Probe cl c x = (Some e, c') \<Longrightarrow>
      objs c' = objs c \<and> container c' = container c \<and> wf c' \<and> \<not> errors_Is e ErrNotFound \<and>
      (errors_Is e ErrContainerNotFound \<longrightarrow> \<not> container c)"
    and probe_up: "wf c \<Longrightarrow> up c x \<Longrightarrow> cl_Probe cl c x = (e', c') \<Longrightarrow>
      if container c then e' = None else \<exists>e. e' = Some e \<and> errors_Is e ErrContainerNotFound"
begin

text \<open>
  Round trip: after a successful Put, Get of the key succeeds while the store is up, reports Put's
  metadata, and delivers the bytes of the body, whatever buffers either side reads with.
\<close>

lemma put_get:
  assumes wf: "wf c" and rng: "int64 (po_Size opts)"
    and put: "cl_Put cl c x k b opts = Some (Inr obj, c', b')" and up: "up c' x'"
  shows "\<exists>d blob c''. drains brd b d EOF b' \<and> cl_Get cl c' x' k = (Inr blob, c'') \<and> blob_Object blob = obj \<and>
    streams gread (blob_Body blob) d"
proof -
  from put_ok [OF wf rng put] obtain d where d: "drains brd b d EOF b'"
    "objs c' = (objs c)(k \<mapsto> (d, obj))" "container c'" and wf': "wf c'" by blast
  obtain r c'' where get: "cl_Get cl c' x' k = (r, c'')" by fastforce
  with get_up [OF wf' up get] d obtain blob where "r = Inr blob" by auto
  with get get_ok [OF wf', of x' k blob c''] d show ?thesis by auto
qed

text \<open>After a successful Delete of the key, Get and Stat report that it is missing while the store is up.\<close>

lemma delete_gone:
  assumes wf: "wf c" and del: "cl_Delete cl c x k = (None, c')" and up: "up c' x'"
  shows "(\<exists>e c''. cl_Get cl c' x' k = (Inl e, c'') \<and> errors_Is e ErrNotFound) \<and>
    (\<exists>e c''. cl_Stat cl c' x' k = (Inl e, c'') \<and> errors_Is e ErrNotFound)"
proof -
  from delete_ok [OF wf del] have gone: "objs c' k = None" "container c'" and wf': "wf c'" by simp_all
  obtain r c1 r' c2 where "cl_Get cl c' x' k = (r, c1)" "cl_Stat cl c' x' k = (r', c2)" by fastforce
  with get_up [OF wf' up this(1)] stat_up [OF wf' up this(2)] gone show ?thesis by auto
qed

end

end
