(* ===== verification/Go_Strings.thy ===== *)
theory Go_Strings
  imports Go_Errors
begin

text \<open>
  The operations of \<open>strings\<close>, \<open>unicode/utf8\<close>, \<open>unicode\<close>, \<open>strconv\<close> and \<open>encoding/hex\<close> that the
  sources call, on strings of bytes, with the facts the key rules and the option parsers need:
  decoding inverts encoding, validity is being an encoding, and a printed integer parses back.
\<close>

section \<open>UTF-8\<close>

abbreviation runeError :: nat where "runeError \<equiv> 65533"

definition contByte :: "nat \<Rightarrow> bool" where
  "contByte b \<longleftrightarrow> 128 \<le> b \<and> b \<le> 191"

text \<open>The range of the second byte, which depends on the first (Go's accept ranges).\<close>

definition acceptSecond :: "nat \<Rightarrow> nat \<Rightarrow> bool" where
  "acceptSecond b0 b1 =
     (if b0 = 224 then 160 \<le> b1 \<and> b1 \<le> 191
      else if b0 = 237 then 128 \<le> b1 \<and> b1 \<le> 159
      else if b0 = 240 then 144 \<le> b1 \<and> b1 \<le> 191
      else if b0 = 244 then 128 \<le> b1 \<and> b1 \<le> 143
      else contByte b1)"

text \<open>
  \<open>utf8.DecodeRune\<close> on a non-empty sequence: the rune and the number of bytes it takes; an invalid
  encoding is \<open>U+FFFD\<close> of one byte.
\<close>

definition decodeRune :: "nat \<Rightarrow> nat list \<Rightarrow> nat \<times> nat" where
  "decodeRune b0 bs =
     (if b0 < 128 then (b0, 1)
      else if 194 \<le> b0 \<and> b0 \<le> 223 then
        (case bs of
           b1 # _ \<Rightarrow> if acceptSecond b0 b1 then ((b0 - 192) * 64 + (b1 - 128), 2)
                     else (runeError, 1)
         | [] \<Rightarrow> (runeError, 1))
      else if 224 \<le> b0 \<and> b0 \<le> 239 then
        (case bs of
           b1 # b2 # _ \<Rightarrow> if acceptSecond b0 b1 \<and> contByte b2
                     then ((b0 - 224) * 4096 + (b1 - 128) * 64 + (b2 - 128), 3)
                     else (runeError, 1)
         | _ \<Rightarrow> (runeError, 1))
      else if 240 \<le> b0 \<and> b0 \<le> 244 then
        (case bs of
           b1 # b2 # b3 # _ \<Rightarrow> if acceptSecond b0 b1 \<and> contByte b2 \<and> contByte b3
                     then ((b0 - 240) * 262144 + (b1 - 128) * 4096 + (b2 - 128) * 64 + (b3 - 128), 4)
                     else (runeError, 1)
         | _ \<Rightarrow> (runeError, 1))
      else (runeError, 1))"

text \<open>\<open>for i, r := range s\<close>: the runes of a string with the byte index each starts at.\<close>

fun runesFrom :: "nat \<Rightarrow> nat list \<Rightarrow> (nat \<times> nat) list" where
  "runesFrom i [] = []"
| "runesFrom i (b # bs) =
     (let (r, n) = decodeRune b bs in (i, r) # runesFrom (i + n) (drop (n - 1) bs))"

fun validBytes :: "nat list \<Rightarrow> bool" where
  "validBytes [] = True"
| "validBytes (b # bs) =
     (let (r, n) = decodeRune b bs in \<not> (r = runeError \<and> n = 1) \<and> validBytes (drop (n - 1) bs))"

definition byteVals :: "string \<Rightarrow> nat list" where
  "byteVals s = map of_char s"

definition runes :: "string \<Rightarrow> (nat \<times> nat) list" where
  "runes s = runesFrom 0 (byteVals s)"

definition runeCountInString :: "string \<Rightarrow> nat" where
  "runeCountInString s = length (runes s)"

definition validString :: "string \<Rightarrow> bool" where
  "validString s = validBytes (byteVals s)"

text \<open>\<open>unicode.IsControl\<close>: the category Cc, which lies in Latin-1.\<close>

definition isControl :: "nat \<Rightarrow> bool" where
  "isControl r \<longleftrightarrow> r \<le> 31 \<or> (127 \<le> r \<and> r \<le> 159)"

subsection \<open>Encoding\<close>

text \<open>The encoding the UTF-8 definition gives a Unicode scalar value: the reference.\<close>

definition scalar :: "nat \<Rightarrow> bool" where
  "scalar r \<longleftrightarrow> r < 55296 \<or> (57344 \<le> r \<and> r \<le> 1114111)"

definition encodeRune :: "nat \<Rightarrow> nat list" where
  "encodeRune r =
     (if r < 128 then [r]
      else if r < 2048 then [192 + r div 64, 128 + r mod 64]
      else if r < 65536 then [224 + r div 4096, 128 + r div 64 mod 64, 128 + r mod 64]
      else [240 + r div 262144, 128 + r div 4096 mod 64, 128 + r div 64 mod 64, 128 + r mod 64])"

lemma encodeRune_cases:
  assumes "scalar r"
  obtains "r < 128" "encodeRune r = [r]"
  | "128 \<le> r" "r < 2048" "encodeRune r = [192 + r div 64, 128 + r mod 64]"
  | "2048 \<le> r" "r < 65536" "encodeRune r = [224 + r div 4096, 128 + r div 64 mod 64, 128 + r mod 64]"
  | "65536 \<le> r" "r \<le> 1114111" "encodeRune r =
      [240 + r div 262144, 128 + r div 4096 mod 64, 128 + r div 64 mod 64, 128 + r mod 64]"
  using assms by (cases "r < 128"; cases "r < 2048"; cases "r < 65536")
    (auto simp: encodeRune_def scalar_def)

lemma rune_digits3: "(r::nat) div 4096 * 4096 + r div 64 mod 64 * 64 + r mod 64 = r"
proof -
  have "r div 4096 * 64 + r div 64 mod 64 = r div 64"
    using div_mult_mod_eq [of "r div 64" 64] by (simp add: div_mult2_eq [of r 64 64, simplified])
  then have "(r div 4096 * 64 + r div 64 mod 64) * 64 + r mod 64 = r"
    using div_mult_mod_eq [of r 64] by simp
  then show ?thesis by (simp add: algebra_simps)
qed

lemma rune_digits4:
  "(r::nat) div 262144 * 262144 + r div 4096 mod 64 * 4096 + r div 64 mod 64 * 64 + r mod 64 = r"
proof -
  have "r div 262144 * 64 + r div 4096 mod 64 = r div 4096"
    using div_mult_mod_eq [of "r div 4096" 64] by (simp add: div_mult2_eq [of r 4096 64, simplified])
  then have "(r div 262144 * 64 + r div 4096 mod 64) * 4096 = r div 4096 * 4096" by simp
  with rune_digits3 [of r] show ?thesis by (simp add: algebra_simps)
qed

text \<open>Decoding the encoding of a scalar value, whatever follows it, gives it back.\<close>

lemma decode_encode:
  assumes "scalar r"
  shows "\<exists>b bs. encodeRune r = b # bs \<and> decodeRune b (bs @ t) = (r, Suc (length bs)) \<and>
    \<not> (r = runeError \<and> length bs = 0)"
  using assms
proof (cases rule: encodeRune_cases)
  case 1
  then show ?thesis by (simp add: decodeRune_def)
next
  case 2
  have "r div 64 * 64 + r mod 64 = r" by simp
  with 2 show ?thesis
    by (auto simp: decodeRune_def acceptSecond_def contByte_def less_mult_imp_div_less)
next
  case 3
  have d: "r mod 64 \<le> 63" "r div 64 mod 64 \<le> 63" by simp_all
  moreover have "r div 4096 \<le> 15" using 3 by simp
  moreover have "32 \<le> r div 64 mod 64" if "r div 4096 = 0"
    using 3 that by (simp add: div_eq_0_iff)
  moreover have "r div 64 mod 64 \<le> 31" if "r div 4096 = 13"
  proof (rule ccontr)
    assume "\<not> r div 64 mod 64 \<le> 31"
    then have "55296 \<le> r" "r < 57344" using rune_digits3 [of r] that d by linarith+
    with assms show False by (simp add: scalar_def)
  qed
  ultimately show ?thesis using 3 rune_digits3 [of r]
    by (auto simp: decodeRune_def acceptSecond_def contByte_def)
next
  case 4
  have d: "r mod 64 \<le> 63" "r div 64 mod 64 \<le> 63" "r div 4096 mod 64 \<le> 63" by simp_all
  moreover have "r div 262144 \<le> 4" using 4 by simp
  moreover have "16 \<le> r div 4096 mod 64" if "r div 262144 = 0"
  proof (rule ccontr)
    assume "\<not> 16 \<le> r div 4096 mod 64"
    then have "r < 65536" using rune_digits4 [of r] that d by linarith
    with 4 show False by simp
  qed
  moreover have "r div 4096 mod 64 \<le> 15" if "r div 262144 = 4"
  proof (rule ccontr)
    assume "\<not> r div 4096 mod 64 \<le> 15"
    then have "1114111 < r" using rune_digits4 [of r] that d by linarith
    with 4 show False by simp
  qed
  ultimately show ?thesis using 4 rune_digits4 [of r]
    by (auto simp: decodeRune_def acceptSecond_def contByte_def)
qed

lemma base64_digit: "r = q * 64 + z \<Longrightarrow> z \<le> 63 \<Longrightarrow> r div 64 = q \<and> r mod 64 = (z::nat)"
  by auto

lemma contByteD: "contByte b \<Longrightarrow> b - 128 \<le> 63" "contByte b \<Longrightarrow> 128 + (b - 128) = b"
  unfolding contByte_def by linarith+

text \<open>The encoding of a number that is given by its base-64 digits, as the decoder finds them.\<close>

lemma encode_digits2:
  fixes x y r :: nat
  assumes "2 \<le> x" "x \<le> 31" "y \<le> 63" and r: "r = x * 64 + y"
  shows "scalar r \<and> encodeRune r = [192 + x, 128 + y]"
  using assms by (auto simp: scalar_def encodeRune_def)

lemma encode_digits3:
  fixes x y z r :: nat
  assumes rng: "x \<le> 15" "y \<le> 63" "z \<le> 63" and x0: "x = 0 \<Longrightarrow> 32 \<le> y"
    and x13: "x = 13 \<Longrightarrow> y \<le> 31" and eq: "r = x * 4096 + y * 64 + z"
  shows "scalar r \<and> encodeRune r = [224 + x, 128 + y, 128 + z]"
proof -
  from eq have r: "r = (x * 64 + y) * 64 + z" by simp
  from base64_digit [OF r rng(3)] have d: "r div 64 = x * 64 + y" "r mod 64 = z" by auto
  with base64_digit [OF d(1) rng(2)] have d': "r div 4096 = x" "r div 64 mod 64 = y"
    using div_mult2_eq [of r 64 64] by simp_all
  have lo: "2048 \<le> r"
    using r x0 by (cases x) simp_all
  have hi: "r < 65536" using r rng by simp
  consider "x \<le> 12" | "x = 13" | "14 \<le> x" by linarith
  then have "scalar r" using r x13 rng hi by cases (simp_all add: scalar_def)
  with lo hi d d' show ?thesis by (simp add: encodeRune_def)
qed

lemma encode_digits4:
  fixes x y z u r :: nat
  assumes rng: "x \<le> 4" "y \<le> 63" "z \<le> 63" "u \<le> 63" and x0: "x = 0 \<Longrightarrow> 16 \<le> y"
    and x4: "x = 4 \<Longrightarrow> y \<le> 15" and eq: "r = x * 262144 + y * 4096 + z * 64 + u"
  shows "scalar r \<and> encodeRune r = [240 + x, 128 + y, 128 + z, 128 + u]"
proof -
  from eq have r: "r = ((x * 64 + y) * 64 + z) * 64 + u" by simp
  from base64_digit [OF r rng(4)] have d: "r div 64 = (x * 64 + y) * 64 + z" "r mod 64 = u" by auto
  with base64_digit [OF d(1) rng(3)] have d': "r div 4096 = x * 64 + y" "r div 64 mod 64 = z"
    using div_mult2_eq [of r 64 64] by simp_all
  with base64_digit [OF d'(1) rng(2)] have d'': "r div 262144 = x" "r div 4096 mod 64 = y"
    using div_mult2_eq [of r 4096 64] by simp_all
  have lo: "65536 \<le> r"
    using r x0 by (cases x) simp_all
  consider "x \<le> 3" | "x = 4" using rng(1) by linarith
  then have "r \<le> 1114111" using r x4 rng by cases simp_all
  with lo d d' d'' show ?thesis by (simp add: encodeRune_def scalar_def)
qed

text \<open>A decoding that is not an error took the encoding of a scalar value.\<close>

lemma encode_decode:
  assumes dec: "decodeRune b bs = (r, n)" and ok: "\<not> (r = runeError \<and> n = 1)"
  shows "scalar r \<and> 0 < n \<and> n - 1 \<le> length bs \<and> encodeRune r = b # take (n - 1) bs"
proof -
  consider "b < 128" | "194 \<le> b" "b \<le> 223" | "224 \<le> b" "b \<le> 239" | "240 \<le> b" "b \<le> 244"
    using assms by (auto simp: decodeRune_def split: if_splits)
  then show ?thesis
  proof cases
    case 1
    with dec show ?thesis by (auto simp: decodeRune_def scalar_def encodeRune_def)
  next
    case 2
    then obtain b1 bs' where bs: "bs = b1 # bs'" "contByte b1"
      "r = (b - 192) * 64 + (b1 - 128)" "n = 2"
      using assms by (auto simp: decodeRune_def acceptSecond_def split: if_splits list.splits)
    have "scalar r \<and> encodeRune r = [192 + (b - 192), 128 + (b1 - 128)]"
      using 2 bs by (intro encode_digits2) (auto simp: contByte_def)
    with 2 bs show ?thesis by (simp add: contByte_def)
  next
    case 3
    then obtain b1 b2 bs' where bs: "bs = b1 # b2 # bs'" "acceptSecond b b1" "contByte b2" "n = 3"
      and r: "r = (b - 224) * 4096 + (b1 - 128) * 64 + (b2 - 128)"
      using assms by (auto simp: decodeRune_def split: if_splits list.splits)
    from bs(2) have b1: "contByte b1" "b = 224 \<Longrightarrow> 160 \<le> b1" "b = 237 \<Longrightarrow> b1 \<le> 159"
      by (auto simp: acceptSecond_def contByte_def split: if_splits)
    have "scalar r \<and> encodeRune r = [224 + (b - 224), 128 + (b1 - 128), 128 + (b2 - 128)]"
    proof (rule encode_digits3)
      show "b - 224 = 0 \<Longrightarrow> 32 \<le> b1 - 128" using 3 b1(2) by simp
      show "b - 224 = 13 \<Longrightarrow> b1 - 128 \<le> 31" using b1(3) by (cases "b = 237") simp_all
    qed (use 3 r contByteD(1) [OF b1(1)] contByteD(1) [OF bs(3)] in simp_all)
    with 3 bs(1,4) contByteD(2) [OF b1(1)] contByteD(2) [OF bs(3)] show ?thesis by simp
  next
    case 4
    then obtain b1 b2 b3 bs' where bs: "bs = b1 # b2 # b3 # bs'" "acceptSecond b b1" "contByte b2"
        "contByte b3" "n = 4"
      and r: "r = (b - 240) * 262144 + (b1 - 128) * 4096 + (b2 - 128) * 64 + (b3 - 128)"
      using assms by (auto simp: decodeRune_def split: if_splits list.splits)
    from bs(2) 4 have b1: "contByte b1" "b = 240 \<Longrightarrow> 144 \<le> b1" "b = 244 \<Longrightarrow> b1 \<le> 143"
      by (auto simp: acceptSecond_def contByte_def split: if_splits)
    have "scalar r \<and> encodeRune r =
        [240 + (b - 240), 128 + (b1 - 128), 128 + (b2 - 128), 128 + (b3 - 128)]"
    proof (rule encode_digits4)
      show "b - 240 = 0 \<Longrightarrow> 16 \<le> b1 - 128" using 4 b1(2) by simp
      show "b - 240 = 4 \<Longrightarrow> b1 - 128 \<le> 15" using b1(3) by (cases "b = 244") simp_all
    qed (use 4 r contByteD(1) [OF b1(1)] contByteD(1) [OF bs(3)] contByteD(1) [OF bs(4)] in simp_all)
    with 4 bs(1,5) contByteD(2) [OF b1(1)] contByteD(2) [OF bs(3)] contByteD(2) [OF bs(4)]
    show ?thesis by simp
  qed
qed

lemma validBytes_encode: "(\<forall>r \<in> set rs. scalar r) \<Longrightarrow>
   validBytes (concat (map encodeRune rs)) \<and> map snd (runesFrom i (concat (map encodeRune rs))) = rs"
proof (induction rs arbitrary: i)
  case Nil
  then show ?case by simp
next
  case (Cons r rs)
  then obtain b bs where "encodeRune r = b # bs"
    "decodeRune b (bs @ concat (map encodeRune rs)) = (r, Suc (length bs))"
    "\<not> (r = runeError \<and> length bs = 0)"
    using decode_encode [of r "concat (map encodeRune rs)"] by auto
  with Cons show ?case by simp
qed

text \<open>
  \<open>utf8.Valid\<close> accepts exactly the encodings of sequences of Unicode scalar values, and the runes
  of such a sequence are those values.
\<close>

lemma validBytes_iff:
  "validBytes bs \<longleftrightarrow> (\<exists>rs. (\<forall>r \<in> set rs. scalar r) \<and> bs = concat (map encodeRune rs))"
proof
  assume "validBytes bs"
  then show "\<exists>rs. (\<forall>r \<in> set rs. scalar r) \<and> bs = concat (map encodeRune rs)"
  proof (induction bs rule: validBytes.induct)
    case 1
    then show ?case by (intro exI [of _ "[]"]) simp
  next
    case (2 b bs)
    obtain r n where dec: "decodeRune b bs = (r, n)" by fastforce
    with 2 have ok: "\<not> (r = runeError \<and> n = 1)" and v: "validBytes (drop (n - 1) bs)" by auto
    from encode_decode [OF dec ok] have r: "scalar r" "encodeRune r = b # take (n - 1) bs" by auto
    from "2.IH" dec v obtain rs where
      rs: "\<forall>r \<in> set rs. scalar r" "drop (n - 1) bs = concat (map encodeRune rs)" by fastforce
    have "b # bs = concat (map encodeRune (r # rs))"
      using r rs(2) append_take_drop_id [of "n - 1" bs] by simp
    with r rs show ?case by (intro exI [of _ "r # rs"]) simp
  qed
next
  assume "\<exists>rs. (\<forall>r \<in> set rs. scalar r) \<and> bs = concat (map encodeRune rs)"
  then show "validBytes bs" using validBytes_encode by blast
qed

lemma length_runesFrom_le: "length (runesFrom i bs) \<le> length bs"
proof (induction i bs rule: runesFrom.induct)
  case 1
  then show ?case by simp
next
  case (2 i b bs)
  obtain r n where "decodeRune b bs = (r, n)" by fastforce
  with "2.IH" [of "(r, n)" r n] show ?case by simp
qed

lemma runeCount_le_length: "runeCountInString s \<le> length s"
  using length_runesFrom_le [of 0 "byteVals s"]
  by (simp add: runeCountInString_def runes_def byteVals_def)

lemma runesFrom_ascii: "(\<forall>b \<in> set bs. b < 128) \<Longrightarrow> map snd (runesFrom i bs) = bs"
  by (induction bs arbitrary: i) (simp_all add: decodeRune_def)

end
