(* ===== verification/Go_Text.thy ===== *)
theory Go_Text
  imports Go_Strings
begin

text \<open>
  The operations of \<open>strings\<close>, \<open>strconv\<close>, \<open>fmt\<close> and \<open>encoding/hex\<close> that the sources call, with
  the round trip between printing and parsing an integer.
\<close>

section \<open>strings\<close>

definition hasPrefix :: "string \<Rightarrow> string \<Rightarrow> bool" where
  "hasPrefix s p = prefix p s"

definition hasSuffix :: "string \<Rightarrow> string \<Rightarrow> bool" where
  "hasSuffix s p = suffix p s"

definition trimPrefix :: "string \<Rightarrow> string \<Rightarrow> string" where
  "trimPrefix s p = (if prefix p s then drop (length p) s else s)"

definition trimSuffix :: "string \<Rightarrow> string \<Rightarrow> string" where
  "trimSuffix s p = (if suffix p s then take (length s - length p) s else s)"

text \<open>\<open>strings.Cut\<close> around the first occurrence of a one-byte separator.\<close>

definition cut :: "string \<Rightarrow> char \<Rightarrow> string \<times> string \<times> bool" where
  "cut s c =
     (if c \<in> set s then (takeWhile (\<lambda>x. x \<noteq> c) s, tl (dropWhile (\<lambda>x. x \<noteq> c) s), True)
      else (s, [], False))"

fun containsStr :: "string \<Rightarrow> string \<Rightarrow> bool" where
  "containsStr [] p = (p = [])"
| "containsStr (x # xs) p = (prefix p (x # xs) \<or> containsStr xs p)"

text \<open>\<open>strings.SplitSeq\<close> around a one-byte separator: one more piece than separators.\<close>

fun splitOn :: "char \<Rightarrow> string \<Rightarrow> string list" where
  "splitOn c [] = [[]]"
| "splitOn c (x # xs) =
     (if x = c then [] # splitOn c xs
      else (case splitOn c xs of [] \<Rightarrow> [[x]] | s # ss \<Rightarrow> (x # s) # ss))"

text \<open>\<open>strings.ToLower\<close> on ASCII, which is all it is applied to.\<close>

definition toLower :: "string \<Rightarrow> string" where
  "toLower s = map (\<lambda>c. let n = of_char c :: nat in
     if 65 \<le> n \<and> n \<le> 90 then char_of (n + 32) else c) s"

lemma splitOn_nonempty [simp]: "splitOn c s \<noteq> []"
  by (induction s) (auto split: list.splits)

lemma length_splitOn: "length (splitOn c s) = count_list s c + 1"
  by (induction s) (auto split: list.splits)

text \<open>Joining the pieces with the separator gives the string back, and no piece holds it.\<close>

lemma join_splitOn:
  "(case splitOn c s of p # ps \<Rightarrow> p @ concat (map (\<lambda>q. c # q) ps) | [] \<Rightarrow> []) = s"
  by (induction s) (auto split: list.splits)

lemma splitOn_no_sep: "p \<in> set (splitOn c s) \<Longrightarrow> c \<notin> set p"
  by (induction s arbitrary: p) (auto split: list.splits if_splits)

lemma containsStr_sublist: "containsStr s p \<longleftrightarrow> sublist p s"
  by (induction s) (auto simp: sublist_Cons_right)

section \<open>strconv\<close>

definition ErrSyntax :: err where "ErrSyntax = ErrVar ''strconv.ErrSyntax'' ''invalid syntax''"
definition ErrRange :: err where "ErrRange = ErrVar ''strconv.ErrRange'' ''value out of range''"

definition numError :: "string \<Rightarrow> string \<Rightarrow> err \<Rightarrow> err" where
  "numError fn s e = Errorf fn ''strconv.%s: parsing %q: %w'' [VStr fn, VStr s] [e] []"

definition isDigit :: "char \<Rightarrow> bool" where
  "isDigit c \<longleftrightarrow> 48 \<le> (of_char c :: nat) \<and> (of_char c :: nat) \<le> 57"

definition digitVal :: "char \<Rightarrow> nat" where
  "digitVal c = of_char c - 48"

text \<open>The loop of \<open>strconv.ParseUint\<close> in base 10: the first fault decides the error.\<close>

fun parseUintLoop :: "nat \<Rightarrow> nat \<Rightarrow> string \<Rightarrow> err + nat" where
  "parseUintLoop maxVal n [] = Inr n"
| "parseUintLoop maxVal n (c # cs) =
     (if \<not> isDigit c then Inl ErrSyntax
      else if n * 10 + digitVal c > maxVal then Inl ErrRange
      else parseUintLoop maxVal (n * 10 + digitVal c) cs)"

definition parseUint :: "nat \<Rightarrow> string \<Rightarrow> err + nat" where
  "parseUint bits s = (if s = [] then Inl ErrSyntax else parseUintLoop (2 ^ bits - 1) 0 s)"

text \<open>
  \<open>strconv.ParseInt(s, 10, bits)\<close>; \<open>strconv.Atoi\<close> is the same at 64 bits. The error names the
  function \<open>fn\<close>.
\<close>

definition parseNum :: "string \<Rightarrow> nat \<Rightarrow> string \<Rightarrow> err + int" where
  "parseNum fn bits s =
     (let neg = (s \<noteq> [] \<and> hd s = CHR ''-'');
          ds = (if s \<noteq> [] \<and> (hd s = CHR ''-'' \<or> hd s = CHR ''+'') then tl s else s) in
      if s = [] then Inl (numError fn s ErrSyntax)
      else (case parseUint bits ds of
              Inl e \<Rightarrow> Inl (numError fn s e)
            | Inr un \<Rightarrow>
                if \<not> neg \<and> 2 ^ (bits - 1) \<le> un then Inl (numError fn s ErrRange)
                else if neg \<and> 2 ^ (bits - 1) < un then Inl (numError fn s ErrRange)
                else Inr (if neg then - int un else int un)))"

definition parseInt :: "nat \<Rightarrow> string \<Rightarrow> err + int" where
  "parseInt = parseNum ''ParseInt''"

definition atoi :: "string \<Rightarrow> err + int" where
  "atoi = parseNum ''Atoi'' 64"

text \<open>\<open>%d\<close>.\<close>

fun showNat :: "nat \<Rightarrow> string" where
  "showNat n = (if n < 10 then [char_of (48 + n)] else showNat (n div 10) @ [char_of (48 + n mod 10)])"

declare showNat.simps [simp del]

definition showInt :: "int \<Rightarrow> string" where
  "showInt i = (if i < 0 then CHR ''-'' # showNat (nat (- i)) else showNat (nat i))"

lemma of_char_digit: "d < 10 \<Longrightarrow> of_char (char_of (48 + d) :: char) = (48 + d :: nat)"
  by simp

lemma isDigit_char_of [simp]: "d < 10 \<Longrightarrow> isDigit (char_of (48 + d :: nat))"
  by (simp add: isDigit_def of_char_digit del: of_char_of)

lemma digitVal_char_of [simp]: "d < 10 \<Longrightarrow> digitVal (char_of (48 + d :: nat)) = d"
  by (simp add: digitVal_def of_char_digit del: of_char_of)

lemma parseUintLoop_snoc:
  "parseUintLoop mx n s = Inr v \<Longrightarrow> isDigit c \<Longrightarrow> v * 10 + digitVal c \<le> mx \<Longrightarrow>
     parseUintLoop mx n (s @ [c]) = Inr (v * 10 + digitVal c)"
  by (induction s arbitrary: n) (auto split: if_splits)

lemma showNat_nonempty [simp]: "showNat n \<noteq> []"
  by (subst showNat.simps) simp

lemma parseUintLoop_showNat: "n \<le> mx \<Longrightarrow> parseUintLoop mx 0 (showNat n) = Inr n"
proof (induction n rule: showNat.induct)
  case (1 n)
  show ?case
  proof (cases "n < 10")
    case True
    with "1.prems" show ?thesis by (subst showNat.simps) simp
  next
    case False
    with 1 have "parseUintLoop mx 0 (showNat (n div 10)) = Inr (n div 10)" by simp
    from parseUintLoop_snoc [OF this, of "char_of (48 + n mod 10)"] False "1.prems"
    show ?thesis by (subst showNat.simps) simp
  qed
qed

lemma hd_showNat: "isDigit (hd (showNat n))"
proof (induction n rule: showNat.induct)
  case (1 n)
  then show ?case by (subst showNat.simps) (simp add: hd_append)
qed

lemma showNat_not_sign: "hd (showNat n) \<noteq> CHR ''-''" "hd (showNat n) \<noteq> CHR ''+''"
  using hd_showNat [of n] by (auto simp: isDigit_def)

text \<open>Printing an integer of the width and parsing it gives it back.\<close>

lemma parseNum_showInt:
  assumes "0 < bits" and "- (2 ^ (bits - 1)) \<le> i" and "i < 2 ^ (bits - 1)"
  shows "parseNum fn bits (showInt i) = Inr i"
proof -
  have le: "n \<le> 2 ^ bits - 1" if "n \<le> 2 ^ (bits - 1)" for n :: nat
  proof -
    have "(2 :: nat) ^ bits = 2 * 2 ^ (bits - 1)" using assms(1) by (cases bits) simp_all
    moreover have "(1 :: nat) \<le> 2 ^ (bits - 1)" by simp
    ultimately show ?thesis using that by linarith
  qed
  have "nat (- i) \<le> 2 ^ (bits - 1)" using assms(2) by (simp add: nat_le_iff)
  moreover have "nat i < 2 ^ (bits - 1) \<or> i < 0" using assms(3) by (simp add: nat_less_iff)
  ultimately show ?thesis
    using showNat_not_sign [of "nat i"] parseUintLoop_showNat [OF le, of "nat i"]
      parseUintLoop_showNat [OF le, of "nat (- i)"]
    by (auto simp: parseNum_def parseUint_def showInt_def Let_def not_le)
qed

lemma parseInt_showInt:
  "0 < bits \<Longrightarrow> - (2 ^ (bits - 1)) \<le> i \<Longrightarrow> i < 2 ^ (bits - 1) \<Longrightarrow> parseInt bits (showInt i) = Inr i"
  by (simp add: parseInt_def parseNum_showInt)

text \<open>What parses fits the width.\<close>

lemma parseInt_range:
  assumes "parseInt bits s = Inr i"
  shows "- (2 ^ (bits - 1)) \<le> i \<and> i < 2 ^ (bits - 1)"
proof -
  have p: "(0 :: int) < 2 ^ (bits - 1)" by simp
  have c: "int un < 2 ^ (bits - 1) \<longleftrightarrow> un < 2 ^ (bits - 1)"
    "int un \<le> 2 ^ (bits - 1) \<longleftrightarrow> un \<le> 2 ^ (bits - 1)" for un
    using of_nat_less_iff [of un "2 ^ (bits - 1)", where 'a = int]
      of_nat_le_iff [of un "2 ^ (bits - 1)", where 'a = int] by simp_all
  from assms obtain un where "i = int un \<and> un < 2 ^ (bits - 1) \<or> i = - int un \<and> un \<le> 2 ^ (bits - 1)"
    by (auto simp: parseInt_def parseNum_def Let_def not_le not_less split: if_splits sum.splits)
  then consider "i = int un" "int un < 2 ^ (bits - 1)" | "i = - int un" "int un \<le> 2 ^ (bits - 1)"
    using c by blast
  then show ?thesis using p by cases linarith+
qed

section \<open>encoding/hex\<close>

definition hexDigit :: "nat \<Rightarrow> char" where
  "hexDigit d = (if d < 10 then char_of (48 + d) else char_of (87 + d))"

definition hexEncode :: "bytes \<Rightarrow> string" where
  "hexEncode bs = concat (map (\<lambda>c. let n = of_char c :: nat in [hexDigit (n div 16), hexDigit (n mod 16)]) bs)"

lemma hexDigit_inj: "a < 16 \<Longrightarrow> b < 16 \<Longrightarrow> hexDigit a = hexDigit b \<Longrightarrow> a = b"
  by (auto simp: hexDigit_def char_of_eq_iff take_bit_eq_mod split: if_splits)

lemma hexEncode_inj: "hexEncode xs = hexEncode ys \<Longrightarrow> xs = ys"
proof (induction xs arbitrary: ys)
  case Nil
  then show ?case by (cases ys) (simp_all add: hexEncode_def Let_def)
next
  case (Cons x xs)
  then obtain y zs where ys: "ys = y # zs" by (cases ys) (simp_all add: hexEncode_def Let_def)
  have lt: "of_char c div 16 < (16 :: nat)" for c :: char
    using of_char_mod_256 [of c, where 'a = nat] by (simp add: mod_eq_self_iff_div_eq_0 less_mult_imp_div_less)
  from Cons.prems have eq: "hexDigit (of_char x div 16) = hexDigit (of_char y div 16)"
    "hexDigit (of_char x mod 16) = hexDigit (of_char y mod 16)" "hexEncode xs = hexEncode zs"
    by (simp_all add: ys hexEncode_def Let_def)
  have "of_char x div 16 = (of_char y div 16 :: nat)" "of_char x mod 16 = (of_char y mod 16 :: nat)"
    using hexDigit_inj [OF lt lt eq(1)] hexDigit_inj [OF _ _ eq(2)] by simp_all
  then have "(of_char x :: nat) = of_char y" by (metis div_mult_mod_eq)
  with Cons.IH [OF eq(3)] show ?case by (simp add: ys)
qed

end
