(* ===== verification/Fake.thy ===== *)
theory Fake
  imports Client_API Go_Text
begin

text \<open>
  The in-memory client of \<open>storagetest/fake.go\<close>: its state, its options, its controls and its
  \<open>Client\<close> methods. The fake implements the contract of \<open>Client\<close>
  (\<open>interpretation fake: storage_client\<close>), its listing is the sorted listing of the stored keys
  whatever order the map iterates in, and its pages cover it.
\<close>

section \<open>State\<close>

definition ErrDown :: err where
  "ErrDown = ErrVar ''storagetest.ErrDown'' ''storagetest: connection refused''"

definition ErrNoSuchKey :: err where
  "ErrNoSuchKey = ErrVar ''storagetest.ErrNoSuchKey'' ''storagetest: no such key''"

definition ErrNoSuchContainer :: err where
  "ErrNoSuchContainer = ErrVar ''storagetest.ErrNoSuchContainer'' ''storagetest: no such container''"

definition DefaultMaxKeyLength :: int where "DefaultMaxKeyLength = 1024"

definition defaultPageSize :: int where "defaultPageSize = 3"

record object =
  o_meta :: Object
  o_data :: bytes

text \<open>
  The clock \<open>f_now\<close> gives the time the n-th Put reads, which is the only operation that asks it.
\<close>

record Fake =
  f_down :: bool
  f_hasContainer :: bool
  f_puts :: int
  f_ensures :: int
  f_probes :: int
  f_now :: "int \<Rightarrow> time"
  f_pageSize :: int
  f_caps :: Capabilities
  f_objects :: "object smap"
  f_putErr :: "err option"
  f_lastPutOpts :: PutOptions
  f_lastPutConsumed :: int
  f_lastEnsureDeadline :: time
  f_lastEnsureBounded :: bool
  f_lastProbeDeadline :: time
  f_lastProbeBounded :: bool
  f_lastListOpts :: ListOptions

definition fake_validateKey :: "string \<Rightarrow> err option" where
  "fake_validateKey key =
     (if key = [] then Some (newError ''storagetest.validateKey'' ''storagetest: empty key'' [])
      else let n = int (runeCountInString key) in
        if n > DefaultMaxKeyLength
        then Some (newError ''storagetest.validateKey''
          ''storagetest: key is %d characters, the limit is %d'' [VInt n, VInt DefaultMaxKeyLength])
        else None)"

section \<open>Construction\<close>

definition WithClock :: "(int \<Rightarrow> time) \<Rightarrow> Fake \<Rightarrow> Fake" where
  "WithClock now f = f\<lparr>f_now := now\<rparr>"

definition WithPageSize :: "int \<Rightarrow> Fake \<Rightarrow> Fake" where
  "WithPageSize n f = (if n > 0 then f\<lparr>f_pageSize := n\<rparr> else f)"

definition WithCapabilities :: "Capabilities \<Rightarrow> Fake \<Rightarrow> Fake" where
  "WithCapabilities c f = f\<lparr>f_caps := c\<rparr>"

definition WithoutContainer :: "Fake \<Rightarrow> Fake" where
  "WithoutContainer f = f\<lparr>f_hasContainer := False\<rparr>"

text \<open>\<open>NewFake\<close> over the wall clock \<open>now\<close>.\<close>

definition NewFake :: "(int \<Rightarrow> time) \<Rightarrow> (Fake \<Rightarrow> Fake) list \<Rightarrow> Fake" where
  "NewFake now opts = fold (\<lambda>opt f. opt f) opts
     \<lparr>f_down = False, f_hasContainer = True, f_puts = 0, f_ensures = 0, f_probes = 0,
      f_now = now, f_pageSize = defaultPageSize,
      f_caps = \<lparr>cap_MaxKeyLength = DefaultMaxKeyLength, cap_ValidateKey = Some fake_validateKey\<rparr>,
      f_objects = [], f_putErr = None,
      f_lastPutOpts = \<lparr>po_ContentType = [], po_Size = 0\<rparr>, f_lastPutConsumed = 0,
      f_lastEnsureDeadline = zeroTime, f_lastEnsureBounded = False,
      f_lastProbeDeadline = zeroTime, f_lastProbeBounded = False,
      f_lastListOpts = \<lparr>lo_Prefix = [], lo_Token = [], lo_Limit = 0\<rparr>\<rparr>"

section \<open>Controls\<close>

definition SetDown :: "Fake \<Rightarrow> bool \<Rightarrow> Fake" where
  "SetDown f down = f\<lparr>f_down := down\<rparr>"

definition FailPut :: "Fake \<Rightarrow> err option \<Rightarrow> Fake" where
  "FailPut f e = f\<lparr>f_putErr := e\<rparr>"

definition DropContainer :: "Fake \<Rightarrow> Fake" where
  "DropContainer f = f\<lparr>f_hasContainer := False, f_objects := []\<rparr>"

definition LastPut :: "Fake \<Rightarrow> PutOptions \<times> int" where
  "LastPut f = (f_lastPutOpts f, f_lastPutConsumed f)"

definition LastEnsure :: "Fake \<Rightarrow> time \<times> bool" where
  "LastEnsure f = (toUTC (f_lastEnsureDeadline f), f_lastEnsureBounded f)"

definition LastProbe :: "Fake \<Rightarrow> time \<times> bool" where
  "LastProbe f = (toUTC (f_lastProbeDeadline f), f_lastProbeBounded f)"

section \<open>The methods of Client\<close>

definition unavailable :: err where "unavailable = dual ErrUnavailable ErrDown"

definition noContainer :: err where "noContainer = dual ErrContainerNotFound ErrNoSuchContainer"

definition noKey :: err where "noKey = dual ErrNotFound ErrNoSuchKey"

text \<open>
  Put reads the body to its end before it checks anything. The hash of \<open>crypto/sha256\<close> is the
  argument \<open>sha256\<close>, and the growth of the buffer of \<open>io.ReadAll\<close> the argument \<open>space\<close>.
\<close>

definition fake_Put ::
  "(nat \<Rightarrow> nat) \<Rightarrow> (bytes \<Rightarrow> bytes) \<Rightarrow> 'b rd \<Rightarrow> Fake \<Rightarrow> ctx \<Rightarrow> string \<Rightarrow> 'b \<Rightarrow> PutOptions \<Rightarrow>
     ((err + Object) \<times> Fake \<times> 'b) option" where
  "fake_Put space sha256 rd f0 x key body opts =
     do { let f1 = f0\<lparr>f_puts := wrap64 (f_puts f0 + 1)\<rparr>;
          (data, readErr, body') \<leftarrow> readAll space rd body [];
          let f = f1\<lparr>f_lastPutOpts := opts, f_lastPutConsumed := int (length data)\<rparr>;
          let n = int (length data);
          Some (
            if f_down f then (Inl unavailable, f, body')
            else if \<not> f_hasContainer f then (Inl noContainer, f, body')
            else case readErr of
              Some e \<Rightarrow> (Inl (Errorf ''storagetest.Fake.Put'' ''fake put: %w'' [] [e] []), f, body')
            | None \<Rightarrow>
              if po_Size opts > 0 \<and> n \<noteq> po_Size opts then
                (if n < po_Size opts then
                   (Inl (Errorf ''storagetest.Fake.Put''
                      ''fake put: body ended after %d bytes, short of the declared size (%d bytes): %w''
                      [VInt n, VInt (po_Size opts)] [ErrUnexpectedEOF] []), f, body')
                 else
                   (Inl (newError ''storagetest.Fake.Put''
                      ''fake put: body is %d bytes, longer than the declared size (%d bytes)''
                      [VInt n, VInt (po_Size opts)]), f, body'))
              else case f_putErr f of
                Some e \<Rightarrow> (Inl (Errorf ''storagetest.Fake.Put'' ''fake put: %w'' [] [e] []), f, body')
              | None \<Rightarrow>
                let contentType = (if po_ContentType opts = [] then defaultContentType
                                   else po_ContentType opts);
                    meta = \<lparr>obj_Key = key, obj_Size = int (length data),
                      obj_ContentType = contentType,
                      obj_ETag = CHR 0x22 # hexEncode (sha256 data) @ [CHR 0x22],
                      obj_ModifiedAt = toUTC (f_now f (f_puts f))\<rparr>
                in (Inr meta,
                    f\<lparr>f_objects := AList.update key \<lparr>o_meta = meta, o_data = data\<rparr> (f_objects f)\<rparr>,
                    body')) }"

text \<open>The body of a Get is a reader over a copy of the content.\<close>

definition fake_Get :: "Fake \<Rightarrow> ctx \<Rightarrow> string \<Rightarrow> (err + bytes Blob) \<times> Fake" where
  "fake_Get f x key =
     (if f_down f then (Inl unavailable, f)
      else if \<not> f_hasContainer f then (Inl noContainer, f)
      else case map_of (f_objects f) key of
        None \<Rightarrow> (Inl noKey, f)
      | Some obj \<Rightarrow> (Inr \<lparr>blob_Object = o_meta obj, blob_Body = o_data obj\<rparr>, f))"

definition fake_Stat :: "Fake \<Rightarrow> ctx \<Rightarrow> string \<Rightarrow> (err + Object) \<times> Fake" where
  "fake_Stat f x key =
     (if f_down f then (Inl unavailable, f)
      else if \<not> f_hasContainer f then (Inl noContainer, f)
      else case map_of (f_objects f) key of
        None \<Rightarrow> (Inl noKey, f)
      | Some obj \<Rightarrow> (Inr (o_meta obj), f))"

definition fake_Delete :: "Fake \<Rightarrow> ctx \<Rightarrow> string \<Rightarrow> err option \<times> Fake" where
  "fake_Delete f x key =
     (if f_down f then (Some unavailable, f)
      else if \<not> f_hasContainer f then (Some noContainer, f)
      else (None, f\<lparr>f_objects := AList.delete key (f_objects f)\<rparr>))"

text \<open>A map lookup of a missing key is the zero value.\<close>

definition zeroObject :: Object where
  "zeroObject = \<lparr>obj_Key = [], obj_Size = 0, obj_ContentType = [], obj_ETag = [],
     obj_ModifiedAt = zeroTime\<rparr>"

definition metaAt :: "object smap \<Rightarrow> string \<Rightarrow> Object" where
  "metaAt m key = (case map_of m key of None \<Rightarrow> zeroObject | Some obj \<Rightarrow> o_meta obj)"

text \<open>
  The loop that fills a page from the sorted keys: \<open>i\<close> is the index and \<open>prev\<close> the key before it,
  which the loop reads only once \<open>i\<close> has reached a positive limit.
\<close>

fun listPage :: "object smap \<Rightarrow> int \<Rightarrow> int \<Rightarrow> string \<Rightarrow> string list \<Rightarrow> Page \<Rightarrow> Page" where
  "listPage m limit i prev [] page = page"
| "listPage m limit i prev (key # keys) page =
     (if i = limit then page\<lparr>pg_Next := prev\<rparr>
      else listPage m limit (i + 1) key keys
        (page\<lparr>pg_Objects := pg_Objects page @ [metaAt m key]\<rparr>))"

definition fake_List :: "Fake \<Rightarrow> ctx \<Rightarrow> ListOptions \<Rightarrow> (err + Page) \<times> Fake" where
  "fake_List f0 x opts =
     (if f_down f0 then (Inl unavailable, f0)
      else if \<not> f_hasContainer f0 then (Inl noContainer, f0)
      else let f = f0\<lparr>f_lastListOpts := opts\<rparr>;
               limit = (if lo_Limit opts \<le> 0 then f_pageSize f else lo_Limit opts);
               keys = sort (filter (\<lambda>key. hasPrefix key (lo_Prefix opts) \<and> lo_Token opts < key)
                 (map fst (f_objects f)))
           in (Inr (listPage (f_objects f) limit 0 [] keys \<lparr>pg_Objects = [], pg_Next = []\<rparr>), f))"

definition deadlineOf :: "ctx \<Rightarrow> time \<times> bool" where
  "deadlineOf x = (case ctx_deadline x of None \<Rightarrow> (zeroTime, False) | Some t \<Rightarrow> (t, True))"

definition fake_EnsureContainer :: "Fake \<Rightarrow> ctx \<Rightarrow> err option \<times> Fake" where
  "fake_EnsureContainer f0 x =
     (let (deadline, bounded) = deadlineOf x;
          f = f0\<lparr>f_ensures := wrap64 (f_ensures f0 + 1), f_lastEnsureDeadline := deadline,
                f_lastEnsureBounded := bounded\<rparr>
      in if f_down f then (Some unavailable, f) else (None, f\<lparr>f_hasContainer := True\<rparr>))"

definition fake_Probe :: "Fake \<Rightarrow> ctx \<Rightarrow> err option \<times> Fake" where
  "fake_Probe f0 x =
     (let (deadline, bounded) = deadlineOf x;
          f = f0\<lparr>f_probes := wrap64 (f_probes f0 + 1), f_lastProbeDeadline := deadline,
                f_lastProbeBounded := bounded\<rparr>
      in if f_down f then (Some unavailable, f)
         else if \<not> f_hasContainer f then (Some noContainer, f)
         else (None, f))"

text \<open>The fake as a value of the interface, over Put bodies that \<open>rd\<close> reads.\<close>

definition fake_client ::
  "(nat \<Rightarrow> nat) \<Rightarrow> (bytes \<Rightarrow> bytes) \<Rightarrow> 'b rd \<Rightarrow> (Fake, 'b, bytes) Client" where
  "fake_client space sha256 rd =
     \<lparr>cl_Put = fake_Put space sha256 rd, cl_Get = fake_Get, cl_Stat = fake_Stat,
      cl_Delete = fake_Delete, cl_List = fake_List,
      cl_EnsureContainer = fake_EnsureContainer, cl_Probe = fake_Probe,
      cl_Capabilities = f_caps, cl_Close = None\<rparr>"

lemmas fake_op_defs [fake_defs] = fake_client_def fake_Get_def fake_Stat_def fake_Delete_def fake_List_def
  fake_EnsureContainer_def fake_Probe_def

section \<open>Invariant\<close>

definition fake_wf :: "Fake \<Rightarrow> bool" where
  "fake_wf f \<longleftrightarrow> distinct (map fst (f_objects f)) \<and> 0 < f_pageSize f \<and>
     (\<not> f_hasContainer f \<longrightarrow> f_objects f = []) \<and>
     (\<forall>(k, obj) \<in> set (f_objects f). obj_Key (o_meta obj) = k \<and>
        obj_Size (o_meta obj) = int (length (o_data obj)) \<and> loc (obj_ModifiedAt (o_meta obj)) = UTC)"

definition fake_objs :: "Fake \<Rightarrow> string \<rightharpoonup> (bytes \<times> Object)" where
  "fake_objs f k = map_option (\<lambda>obj. (o_data obj, o_meta obj)) (map_of (f_objects f) k)"

section \<open>Errors of the fake\<close>

lemma is_var_fake [simp]: "is_var ErrDown" "is_var ErrNoSuchKey" "is_var ErrNoSuchContainer"
  by (simp_all add: is_var_def ErrDown_def ErrNoSuchKey_def ErrNoSuchContainer_def)

lemma fake_causes_match_no_sentinel:
  "t \<in> set sentinels \<Longrightarrow> \<not> errors_Is ErrDown t \<and> \<not> errors_Is ErrNoSuchKey t \<and>
     \<not> errors_Is ErrNoSuchContainer t"
  by (auto simp: sentinels_def ErrDown_def ErrNoSuchKey_def ErrNoSuchContainer_def sentinel_defs)

lemma fake_errors_Is [simp]:
  "errors_Is unavailable ErrNotFound = False" "errors_Is noContainer ErrNotFound = False"
  "errors_Is noKey ErrNotFound = True" "errors_Is unavailable ErrUnavailable = True"
  "errors_Is noContainer ErrContainerNotFound = True"
  "errors_Is noKey ErrContainerNotFound = False" "errors_Is noKey ErrUnavailable = False"
  "errors_Is unavailable ErrContainerNotFound = False"
  using fake_causes_match_no_sentinel [of ErrNotFound]
    fake_causes_match_no_sentinel [of ErrContainerNotFound]
    fake_causes_match_no_sentinel [of ErrUnavailable]
  by (simp_all add: unavailable_def noContainer_def noKey_def sentinels_def)

section \<open>Pages\<close>

lemma listPage_eq:
  "0 \<le> i \<Longrightarrow> i \<le> limit \<Longrightarrow> listPage m limit i prev keys page =
     page\<lparr>pg_Objects := pg_Objects page @ map (metaAt m) (take (nat (limit - i)) keys),
       pg_Next := if limit - i < int (length keys)
         then (prev # keys) ! nat (limit - i) else pg_Next page\<rparr>"
proof (induction keys arbitrary: i prev page)
  case Nil
  then show ?case by simp
next
  case (Cons key keys)
  show ?case
  proof (cases "i = limit")
    case False
    with Cons.prems have "nat (limit - i) = Suc (nat (limit - (i + 1)))" by simp
    with Cons.IH [of "i + 1" key] Cons.prems False show ?thesis by simp
  qed simp
qed

text \<open>The keys a listing under a prefix has after a token, in key order.\<close>

definition keysAfter :: "Fake \<Rightarrow> string \<Rightarrow> string \<Rightarrow> string list" where
  "keysAfter f pre token =
     sort (filter (\<lambda>key. prefix pre key \<and> token < key) (map fst (f_objects f)))"

definition pageLimit :: "Fake \<Rightarrow> ListOptions \<Rightarrow> int" where
  "pageLimit f opts = (if lo_Limit opts \<le> 0 then f_pageSize f else lo_Limit opts)"

lemma pageLimit_pos: "fake_wf f \<Longrightarrow> 0 < pageLimit f opts"
  by (simp add: pageLimit_def fake_wf_def)

text \<open>One page: the next keys in order up to the limit, and the last of them as the token when
  more remain.\<close>

lemma fake_List_up:
  assumes "fake_wf f" "\<not> f_down f" "f_hasContainer f"
  shows "fake_List f x opts =
    (let keys = keysAfter f (lo_Prefix opts) (lo_Token opts); n = nat (pageLimit f opts)
     in (Inr \<lparr>pg_Objects = map (metaAt (f_objects f)) (take n keys),
             pg_Next = if n < length keys then keys ! (n - 1) else []\<rparr>,
         f\<lparr>f_lastListOpts := opts\<rparr>))"
proof -
  let ?keys = "keysAfter f (lo_Prefix opts) (lo_Token opts)" and ?l = "pageLimit f opts"
  have pos: "0 < ?l" using assms(1) by (rule pageLimit_pos)
  have "fake_List f x opts =
      (Inr (listPage (f_objects f) ?l 0 [] ?keys \<lparr>pg_Objects = [], pg_Next = []\<rparr>),
       f\<lparr>f_lastListOpts := opts\<rparr>)"
    using assms by (simp add: fake_List_def Let_def keysAfter_def pageLimit_def hasPrefix_def)
  moreover have "listPage (f_objects f) ?l 0 [] ?keys \<lparr>pg_Objects = [], pg_Next = []\<rparr> =
      \<lparr>pg_Objects = map (metaAt (f_objects f)) (take (nat ?l) ?keys),
       pg_Next = if nat ?l < length ?keys then ?keys ! (nat ?l - 1) else []\<rparr>"
    using pos by (subst listPage_eq) (auto simp: nth_Cons')
  ultimately show ?thesis by (simp add: Let_def)
qed

lemma sorted_keysAfter: "sorted (keysAfter f pre token)"
  by (simp add: keysAfter_def)

lemma set_keysAfter:
  "set (keysAfter f pre token) = {k \<in> set (map fst (f_objects f)). prefix pre k \<and> token < k}"
  by (auto simp: keysAfter_def)

lemma distinct_keysAfter: "fake_wf f \<Longrightarrow> distinct (keysAfter f pre token)"
  by (simp add: keysAfter_def fake_wf_def)

text \<open>In a sorted list without duplicates, the elements above its \<open>n\<close>-th are the rest.\<close>

lemma filter_above_nth:
  fixes xs :: "'a :: linorder list"
  assumes "sorted xs" "distinct xs" "n < length xs"
  shows "filter (\<lambda>x. xs ! n < x) xs = drop (Suc n) xs"
  using assms
proof (induction xs arbitrary: n)
  case Nil
  then show ?case by simp
next
  case (Cons x xs)
  show ?case
  proof (cases n)
    case 0
    with Cons.prems have "\<forall>y \<in> set xs. x < y" by (auto simp: less_le)
    with 0 show ?thesis by simp
  next
    case (Suc j)
    with Cons.prems have "xs ! j \<in> set xs" and "\<not> xs ! j < x" by (auto simp: not_less)
    with Suc Cons show ?thesis by simp
  qed
qed

text \<open>The token of a page continues the listing exactly after the page.\<close>

lemma keysAfter_next:
  assumes "fake_wf f" and n: "n < length (keysAfter f pre token)"
  shows "keysAfter f pre (keysAfter f pre token ! n) = drop (Suc n) (keysAfter f pre token)"
proof -
  let ?ks = "keysAfter f pre token"
  have "?ks ! n \<in> set ?ks" using n by simp
  then have t: "token < ?ks ! n" by (simp only: set_keysAfter mem_Collect_eq)
  have "filter (\<lambda>k. ?ks ! n < k) ?ks = keysAfter f pre (?ks ! n)"
    using t by (auto simp: keysAfter_def filter_sort intro!: arg_cong [where f = sort] filter_cong)
  then show ?thesis
    using filter_above_nth [OF sorted_keysAfter distinct_keysAfter [OF assms(1)] n] by simp
qed

section \<open>The fake implements the contract\<close>

lemma set_update_subset: "set (AList.update k v m) \<subseteq> insert (k, v) (set m)"
  by (induction m) auto

lemma set_delete_subset: "set (AList.delete k m) \<subseteq> set m"
  by (auto simp: AList.delete_eq)

lemma fake_objs_update:
  "fake_objs (f\<lparr>f_objects := AList.update k obj (f_objects f)\<rparr>) =
     (fake_objs f)(k \<mapsto> (o_data obj, o_meta obj))"
  by (auto simp: fake_objs_def update_conv')

lemma fake_objs_delete:
  "fake_objs (f\<lparr>f_objects := AList.delete k (f_objects f)\<rparr>) = (fake_objs f)(k := None)"
  by (auto simp: fake_objs_def delete_conv')

lemma fake_wf_update:
  assumes "fake_wf f" "f_hasContainer f" "obj_Key (o_meta obj) = k"
    "obj_Size (o_meta obj) = int (length (o_data obj))" "loc (obj_ModifiedAt (o_meta obj)) = UTC"
  shows "fake_wf (f\<lparr>f_objects := AList.update k obj (f_objects f)\<rparr>)"
  using assms set_update_subset [of k obj "f_objects f"]
  by (fastforce simp: fake_wf_def distinct_update)

lemma fake_wf_delete:
  "fake_wf f \<Longrightarrow> f_hasContainer f \<Longrightarrow> fake_wf (f\<lparr>f_objects := AList.delete k (f_objects f)\<rparr>)"
  using set_delete_subset [of k "f_objects f"] by (fastforce simp: fake_wf_def distinct_delete)

text \<open>The fields that record calls are no part of the invariant or of the stored objects.\<close>

lemma fake_wf_records [simp]:
  "fake_wf (f\<lparr>f_puts := n\<rparr>) = fake_wf f" "fake_wf (f\<lparr>f_ensures := n\<rparr>) = fake_wf f"
  "fake_wf (f\<lparr>f_probes := n\<rparr>) = fake_wf f" "fake_wf (f\<lparr>f_lastPutOpts := po\<rparr>) = fake_wf f"
  "fake_wf (f\<lparr>f_lastPutConsumed := n\<rparr>) = fake_wf f"
  "fake_wf (f\<lparr>f_lastEnsureDeadline := t\<rparr>) = fake_wf f"
  "fake_wf (f\<lparr>f_lastEnsureBounded := b\<rparr>) = fake_wf f"
  "fake_wf (f\<lparr>f_lastProbeDeadline := t\<rparr>) = fake_wf f"
  "fake_wf (f\<lparr>f_lastProbeBounded := b\<rparr>) = fake_wf f"
  "fake_wf (f\<lparr>f_lastListOpts := lo\<rparr>) = fake_wf f"
  by (simp_all add: fake_wf_def)

lemma fake_objs_records [simp]:
  "fake_objs (f\<lparr>f_puts := n\<rparr>) = fake_objs f" "fake_objs (f\<lparr>f_ensures := n\<rparr>) = fake_objs f"
  "fake_objs (f\<lparr>f_probes := n\<rparr>) = fake_objs f" "fake_objs (f\<lparr>f_lastPutOpts := po\<rparr>) = fake_objs f"
  "fake_objs (f\<lparr>f_lastPutConsumed := n\<rparr>) = fake_objs f"
  "fake_objs (f\<lparr>f_lastEnsureDeadline := t\<rparr>) = fake_objs f"
  "fake_objs (f\<lparr>f_lastEnsureBounded := b\<rparr>) = fake_objs f"
  "fake_objs (f\<lparr>f_lastProbeDeadline := t\<rparr>) = fake_objs f"
  "fake_objs (f\<lparr>f_lastProbeBounded := b\<rparr>) = fake_objs f"
  "fake_objs (f\<lparr>f_lastListOpts := lo\<rparr>) = fake_objs f"
  "fake_objs (f\<lparr>f_hasContainer := b\<rparr>) = fake_objs f"
  by (simp_all add: fake_objs_def fun_eq_iff)

lemma fake_wf_ensure: "fake_wf f \<Longrightarrow> fake_wf (f\<lparr>f_hasContainer := True\<rparr>)"
  by (simp add: fake_wf_def)

text \<open>A Put that returns an object, with everything it did.\<close>

lemma fake_Put_ok:
  assumes space: "\<And>n. 0 < space n" and wf: "fake_wf f"
    and ret: "fake_Put space sha256 rd f x k b opts = Some (Inr obj, f', b')"
  shows "\<exists>d. drains rd b d EOF b' \<and> fake_objs f' = (fake_objs f)(k \<mapsto> (d, obj)) \<and>
     (0 < po_Size opts \<longrightarrow> int (length d) = po_Size opts) \<and> obj_Key obj = k \<and>
     obj_Size obj = int (length d) \<and> obj_ContentType obj = storedType opts \<and>
     f_hasContainer f \<and> f_hasContainer f' \<and> fake_wf f'"
proof -
  from ret obtain d where all: "readAll space rd b [] = Some (d, None, b')"
    and up: "\<not> f_down f" "f_hasContainer f" "0 < po_Size opts \<longrightarrow> int (length d) = po_Size opts"
    and obj: "obj_Key obj = k" "obj_Size obj = int (length d)" "obj_ContentType obj = storedType opts"
      "loc (obj_ModifiedAt obj) = UTC"
    and f': "f' = (f\<lparr>f_puts := wrap64 (f_puts f + 1), f_lastPutOpts := opts,
        f_lastPutConsumed := int (length d)\<rparr>)\<lparr>f_objects :=
          AList.update k \<lparr>o_meta = obj, o_data = d\<rparr> (f_objects f)\<rparr>"
    by (auto simp: fake_Put_def bind_eq_Some_conv Let_def storedType_def
        split: if_splits option.splits prod.splits)
  let ?g = "f\<lparr>f_puts := wrap64 (f_puts f + 1), f_lastPutOpts := opts,
        f_lastPutConsumed := int (length d)\<rparr>"
  have "drains rd b d EOF b'"
    using readAll_drains [OF space all] by (auto split: if_splits)
  moreover have "fake_objs f' = (fake_objs f)(k \<mapsto> (d, obj))"
    using fake_objs_update [where f = ?g and k = k and obj = "\<lparr>o_meta = obj, o_data = d\<rparr>"] by (simp add: f')
  moreover have "fake_wf f'"
    using fake_wf_update [where f = ?g and obj = "\<lparr>o_meta = obj, o_data = d\<rparr>" and k = k] wf up obj by (simp add: f')
  moreover have "f_hasContainer f'" using up by (simp add: f')
  ultimately show ?thesis using up obj by blast
qed

lemma fake_Put_err:
  assumes "fake_wf f" and "fake_Put space sha256 rd f x k b opts = Some (Inl e, f', b')"
  shows "fake_objs f' = fake_objs f \<and> f_hasContainer f' = f_hasContainer f \<and> fake_wf f'"
  using assms
  by (auto simp: fake_Put_def bind_eq_Some_conv Let_def split: if_splits option.splits prod.splits)

lemma map_of_metaAt: "map_of m k = Some obj \<Longrightarrow> metaAt m k = o_meta obj"
  by (simp add: metaAt_def)

lemma fake_List_ok:
  assumes wf: "fake_wf f" and ret: "fake_List f x opts = (Inr page, f')"
  shows "(\<forall>obj \<in> set (pg_Objects page). prefix (lo_Prefix opts) (obj_Key obj) \<and>
        (\<exists>d. fake_objs f (obj_Key obj) = Some (d, obj))) \<and>
      (0 < lo_Limit opts \<longrightarrow> int (length (pg_Objects page)) \<le> lo_Limit opts) \<and>
      f_hasContainer f \<and> fake_objs f' = fake_objs f \<and> f_hasContainer f' \<and> fake_wf f'"
proof -
  from ret have up: "\<not> f_down f" "f_hasContainer f"
    by (auto simp: fake_List_def split: if_splits)
  let ?ks = "take (nat (pageLimit f opts)) (keysAfter f (lo_Prefix opts) (lo_Token opts))"
  from ret fake_List_up [OF wf up] have page: "pg_Objects page = map (metaAt (f_objects f)) ?ks"
    and f': "f' = f\<lparr>f_lastListOpts := opts\<rparr>" by (auto simp: Let_def)
  have mem: "prefix (lo_Prefix opts) k \<and> (\<exists>obj. map_of (f_objects f) k = Some obj \<and>
      obj_Key (o_meta obj) = k)" if k: "k \<in> set ?ks" for k
  proof -
    from k have "k \<in> set (keysAfter f (lo_Prefix opts) (lo_Token opts))" by (rule in_set_takeD)
    then have "prefix (lo_Prefix opts) k" "map_of (f_objects f) k \<noteq> None"
      by (auto simp: set_keysAfter map_of_eq_None_iff)
    with wf show ?thesis by (auto simp: fake_wf_def dest!: map_of_SomeD)
  qed
  have "prefix (lo_Prefix opts) (obj_Key obj) \<and> (\<exists>d. fake_objs f (obj_Key obj) = Some (d, obj))"
    if "obj \<in> set (pg_Objects page)" for obj
  proof -
    from that obtain k where k: "k \<in> set ?ks" "obj = metaAt (f_objects f) k" by (auto simp: page)
    with mem [OF k(1)] show ?thesis by (auto simp: map_of_metaAt fake_objs_def)
  qed
  moreover have "int (length (pg_Objects page)) \<le> lo_Limit opts" if "0 < lo_Limit opts"
    using that by (simp add: page pageLimit_def)
  ultimately show ?thesis using up wf by (simp add: f')
qed

text \<open>Following the tokens of a listing lists the keys after the first token, in order.\<close>

lemma fake_walk:
  "walk (fake_client space sha256 rd) x f lo found \<Longrightarrow> fake_wf f \<Longrightarrow>
     found = map (metaAt (f_objects f)) (keysAfter f (lo_Prefix lo) (lo_Token lo))"
proof (induction rule: walk.induct)
  case (walk_last f lo page f')
  then have ret: "fake_List f x lo = (Inr page, f')" by (simp add: fake_client_def)
  then have up: "\<not> f_down f" "f_hasContainer f" by (auto simp: fake_List_def split: if_splits)
  let ?ks = "keysAfter f (lo_Prefix lo) (lo_Token lo)" and ?n = "nat (pageLimit f lo)"
  from ret fake_List_up [OF walk_last(3) up] have page: "pg_Objects page = map (metaAt (f_objects f)) (take ?n ?ks)"
    "pg_Next page = (if ?n < length ?ks then ?ks ! (?n - 1) else [])" by (auto simp: Let_def)
  have "\<not> ?n < length ?ks"
  proof
    assume n: "?n < length ?ks"
    with page(2) walk_last(2) have "?ks ! (?n - 1) = []" by simp
    moreover from n have "?ks ! (?n - 1) \<in> set ?ks" by simp
    then have "lo_Token lo < ?ks ! (?n - 1)" by (simp only: set_keysAfter mem_Collect_eq)
    ultimately show False by simp
  qed
  with page(1) show ?case by simp
next
  case (walk_more f lo page f' objs)
  then have ret: "fake_List f x lo = (Inr page, f')" by (simp add: fake_client_def)
  then have up: "\<not> f_down f" "f_hasContainer f" by (auto simp: fake_List_def split: if_splits)
  let ?ks = "keysAfter f (lo_Prefix lo) (lo_Token lo)" and ?n = "nat (pageLimit f lo)"
  from ret fake_List_up [OF walk_more(5) up] have page: "pg_Objects page = map (metaAt (f_objects f)) (take ?n ?ks)"
    "pg_Next page = (if ?n < length ?ks then ?ks ! (?n - 1) else [])" "f' = f\<lparr>f_lastListOpts := lo\<rparr>"
    by (auto simp: Let_def)
  with walk_more(2) have n: "?n < length ?ks" by (auto split: if_splits)
  have pos: "0 < ?n" using pageLimit_pos [OF walk_more(5), of lo] by simp
  have ks: "keysAfter f' pre tok = keysAfter f pre tok" "f_objects f' = f_objects f" for pre tok
    by (simp_all add: page(3) keysAfter_def)
  from keysAfter_next [OF walk_more(5), of "?n - 1"] n pos
  have "keysAfter f (lo_Prefix lo) (pg_Next page) = drop ?n ?ks" by (simp add: page(2))
  with walk_more.IH walk_more(5) have "objs = map (metaAt (f_objects f)) (drop ?n ?ks)"
    by (simp add: ks) (simp add: page(3))
  with page(1) show ?case by (simp flip: map_append)
qed

lemma fake_walk_keys:
  assumes "fake_wf f" "walk (fake_client space sha256 rd) x f lo found" "lo_Token lo = []"
  shows "distinct (map obj_Key found) \<and> obj_Key ` set found = {k \<in> dom (fake_objs f). prefix (lo_Prefix lo) k \<and> k \<noteq> []}"
proof -
  let ?ks = "keysAfter f (lo_Prefix lo) []"
  have key: "obj_Key (metaAt (f_objects f) k) = k" if "k \<in> set ?ks" for k
  proof -
    from that have "k \<in> dom (map_of (f_objects f))" by (simp add: set_keysAfter dom_map_of_conv_image_fst)
    then obtain obj where obj: "map_of (f_objects f) k = Some obj" by blast
    from map_of_SomeD [OF this] assms(1) have "obj_Key (o_meta obj) = k" by (auto simp: fake_wf_def)
    with map_of_metaAt [OF obj] show ?thesis by simp
  qed
  have "found = map (metaAt (f_objects f)) ?ks"
    using fake_walk [OF assms(2,1)] assms(3) by simp
  then have "map obj_Key found = map (\<lambda>k. obj_Key (metaAt (f_objects f) k)) ?ks" by simp
  also have "\<dots> = ?ks" using key by (intro map_idI)
  finally have ks: "map obj_Key found = ?ks" .
  have "set ?ks = {k \<in> dom (map_of (f_objects f)). prefix (lo_Prefix lo) k \<and> [] < k}"
    by (simp add: set_keysAfter dom_map_of_conv_image_fst)
  moreover have nil: "([] < k) = (k \<noteq> [])" for k :: string by (cases k) simp_all
  moreover have "dom (fake_objs f) = dom (map_of (f_objects f))" by (simp add: fake_objs_def dom_def)
  ultimately have set: "set ?ks = {k \<in> dom (fake_objs f). prefix (lo_Prefix lo) k \<and> k \<noteq> []}"
    by (simp add: nil)
  have "obj_Key ` set found = set (map obj_Key found)" by simp
  also have "\<dots> = set ?ks" by (simp only: ks)
  finally show ?thesis
    using distinct_keysAfter [OF assms(1)] by (simp add: ks set)
qed

text \<open>A Put to a fake that is up, of a body that ends well and is of the declared size.\<close>

lemma fake_Put_room:
  assumes "stream_reader rd ok rest fin steps" "ok b" "\<And>n. 0 < space n"
  shows "fake_Put space sha256 rd f x k b opts \<noteq> None \<and>
    (\<not> f_down f \<longrightarrow> fin b = EOF \<longrightarrow> fits opts (rest b) \<longrightarrow> f_putErr f = None \<longrightarrow>
      fake_Put space sha256 rd f x k b opts = Some (r, f', b') \<longrightarrow>
      (if f_hasContainer f then \<exists>obj. r = Inr obj else r = Inl noContainer))"
proof -
  from stream_reader.readAll_stream [OF assms(1) _ assms(2), where acc = "[]" and space = space] assms(3) obtain s' where
    "readAll space rd b [] = Some (rest b, if fin b = EOF then None else Some (fin b), s')" by auto
  then show ?thesis by (auto simp: fake_Put_def Let_def fits_def)
qed

text \<open>
  The fake is a conforming client, for every buffer growth of \<open>io.ReadAll\<close>, every hash and every
  kind of Put body.
\<close>

interpretation fake: storage_client "fake_client (\<lambda>n. Suc (extra n)) sha256 rd" rd "of_rd bytes_Read"
  fake_wf "\<lambda>f x. \<not> f_down f" f_hasContainer fake_objs "\<lambda>f k opts d. f_putErr f = None"
  for extra :: "nat \<Rightarrow> nat" and sha256 :: "bytes \<Rightarrow> bytes" and rd :: "'b rd"
proof (unfold_locales, goal_cases)
  case (1 c opts x k b obj c' b')
  then show ?case using fake_Put_ok [of "\<lambda>n. Suc (extra n)"] by (simp add: fake_client_def)
next
  case (2 c opts x k b e c' b')
  then show ?case using fake_Put_err [of c "\<lambda>n. Suc (extra n)"] by (simp add: fake_client_def)
next
  case (3 c opts ok rest fin steps b x k)
  then show ?case using fake_Put_room [OF 3(3,4), of "\<lambda>n. Suc (extra n)"] by (simp add: fake_client_def)
next
  case (4 c opts ok rest fin steps b x k r c' b')
  then show ?case
    using fake_Put_room [OF 4(3,4), of "\<lambda>n. Suc (extra n)" sha256 c x k opts r c' b'] by (simp add: fake_client_def)
next
  case (5 c x k blob c')
  then show ?case
    using bytes_rd.streams_content
    by (auto simp: fake_client_def fake_Get_def fake_objs_def split: if_splits option.splits)
next
  case (14 c x lo page c')
  then show ?case using fake_List_ok by (simp add: fake_client_def)
next
  case (15 c x lo found)
  then show ?case by (intro fake_walk_keys)
qed (auto simp: fake_defs fake_objs_delete fake_wf_delete fake_wf_ensure
      fake_objs_def [of _ k for k] Let_def split: if_splits option.splits prod.splits)

section \<open>Properties\<close>

text \<open>
  C17: the fake meets the documented contract of \<open>Client\<close>, and is up unless \<open>SetDown\<close> or \<open>FailPut\<close> says
  otherwise. Put is all or nothing and refuses a body that is not of the declared size, and stores every
  other; Get and Stat report what Put stored, and \<open>ErrNotFound\<close> for a key that is missing; Delete of a
  missing key succeeds; following List's tokens lists each stored key under the prefix exactly once, and
  no page holds more than the limit; EnsureContainer keeps an existing container; and without the
  container Probe and every object operation report \<open>ErrContainerNotFound\<close>, never \<open>ErrNotFound\<close>.
\<close>

theorem fake_conforms:
  "storage_client (fake_client (\<lambda>n. Suc (extra n)) hash rd) rd (of_rd bytes_Read) fake_wf
     (\<lambda>f x. \<not> f_down f) f_hasContainer fake_objs (\<lambda>f k opts d. f_putErr f = None)"
  by (rule fake.storage_client_axioms)

text \<open>
  Without a container, Probe and every object operation of a fake that is up fail with an error
  that matches \<open>ErrContainerNotFound\<close> and not \<open>ErrNotFound\<close>, and none stores anything; Put does so
  for every body that its reading ends, a broken one included.
\<close>

theorem fake_missing_container:
  assumes "\<not> f_down f" and "\<not> f_hasContainer f"
    and "readAll space rd b [] = Some (d, re, b')"
  shows "\<exists>e. errors_Is e ErrContainerNotFound \<and> \<not> errors_Is e ErrNotFound \<and>
    (\<exists>f'. fake_Put space hash rd f x k b opts = Some (Inl e, f', b') \<and> f_objects f' = f_objects f) \<and>
    fake_Get f x k = (Inl e, f) \<and> fake_Stat f x k = (Inl e, f) \<and> fake_Delete f x k = (Some e, f) \<and>
    fake_List f x lo = (Inl e, f) \<and> fst (fake_Probe f x) = Some e"
  using assms
  by (intro exI [of _ noContainer])
    (simp add: fake_Put_def fake_defs Let_def split: prod.splits)

theorem fake_missing_container_witness:
  "\<exists>e. errors_Is e ErrContainerNotFound \<and>
     fake_Get (NewFake (\<lambda>_. zeroTime) [WithoutContainer]) background ''k'' =
       (Inl e, NewFake (\<lambda>_. zeroTime) [WithoutContainer])"
proof -
  have "readAll (\<lambda>_. 4) bytes_Read ''ab'' [] = Some (''ab'', None, [])"
    by (simp add: readAll.simps bytes_Read_def)
  from fake_missing_container [OF _ _ this, of "NewFake (\<lambda>_. zeroTime) [WithoutContainer]"]
  show ?thesis by (fastforce simp: NewFake_def WithoutContainer_def)
qed

end
