(* ===== verification/Limit_Reader.thy ===== *)
theory Limit_Reader
  imports Go_Readers
begin

text \<open>
  The reader that \<open>store.go\<close> puts around a Put body, \<open>limitReader\<close>, and \<open>readFailure\<close>. The
  central result is that a limited stream is a stream again, whose content is given in closed
  form: cut at the limit with the error \<open>long\<close> when the body runs past it, ended with a short-body
  error when an exact limit is not reached, and the body itself otherwise.
\<close>

record 'r limitReader =
  lr_r :: 'r
  lr_limit :: int
  lr_read :: int
  lr_exact :: bool
  lr_long :: err
  lr_err :: "err option"
  lr_tripped :: bool

definition newLimitReader :: "'r \<Rightarrow> int \<Rightarrow> bool \<Rightarrow> err \<Rightarrow> 'r limitReader" where
  "newLimitReader r limit exact long =
     \<lparr>lr_r = r, lr_limit = limit, lr_read = 0, lr_exact = exact, lr_long = long,
      lr_err = None, lr_tripped = False\<rparr>"

text \<open>\<open>trip\<close> records the failure every later Read reports and returns it.\<close>

definition trip :: "'r limitReader \<Rightarrow> err \<Rightarrow> err \<times> 'r limitReader" where
  "trip l e = (e, l\<lparr>lr_err := Some e, lr_tripped := True\<rparr>)"

definition shortBody :: "string \<Rightarrow> int \<Rightarrow> int \<Rightarrow> err" where
  "shortBody site n sz =
     Errorf site ''body ended after %d bytes, short of the declared size (%d bytes): %w''
       [VInt n, VInt sz] [ErrUnexpectedEOF] []"

definition limitReader_Read :: "'r rd \<Rightarrow> 'r limitReader rd" where
  "limitReader_Read rd l m =
     (if lr_tripped l then Some ([], lr_err l, l)
      else let remain = wrap64 (lr_limit l - lr_read l) in
        if remain \<le> 0 then
          do { (bs, e, r') \<leftarrow> rd (lr_r l) 1;
               let l' = l\<lparr>lr_r := r'\<rparr>;
               if bs \<noteq> [] then (let (t, l'') = trip l' (lr_long l) in Some ([], Some t, l''))
               else Some ([], e, l') }
        else
          do { let p = (if int m > remain then nat remain else m);
               (bs, e, r') \<leftarrow> rd (lr_r l) p;
               let l' = l\<lparr>lr_r := r', lr_read := wrap64 (lr_read l + int (length bs))\<rparr>;
               if lr_exact l \<and> errors_Is_opt e EOF \<and> lr_read l' < lr_limit l' then
                 (let (t, l'') = trip l' (shortBody ''storage.limitReader.Read'' (lr_read l') (lr_limit l'))
                  in Some (bs, Some t, l''))
               else Some (bs, e, l') })"

text \<open>\<open>readFailure\<close> combines the error a limitReader recorded with what the provider returned.\<close>

definition readFailure :: "err \<Rightarrow> err option \<Rightarrow> err" where
  "readFailure recorded provider =
     (case provider of
        None \<Rightarrow> recorded
      | Some p \<Rightarrow> if errors_Is p recorded then p else dual recorded p)"

section \<open>The content of a limited stream\<close>

text \<open>
  What a stream of content \<open>d\<close> that ends with \<open>e\<close> becomes under a limit of which \<open>n\<close> bytes are
  spent, and the error it then ends with.
\<close>

definition limit_rest :: "int \<Rightarrow> int \<Rightarrow> bytes \<Rightarrow> bytes" where
  "limit_rest limit n d = take (nat (limit - n)) d"

definition limit_fin :: "string \<Rightarrow> int \<Rightarrow> int \<Rightarrow> bool \<Rightarrow> err \<Rightarrow> bytes \<Rightarrow> err \<Rightarrow> err" where
  "limit_fin site limit n exact long d e =
     (if limit - n < int (length d) then long
      else if exact \<and> errors_Is e EOF \<and> n + int (length d) < limit
        then shortBody site (n + int (length d)) limit
      else e)"

definition lr_inv :: "('r \<Rightarrow> bool) \<Rightarrow> 'r limitReader \<Rightarrow> bool" where
  "lr_inv ok l \<longleftrightarrow>
     (if lr_tripped l then lr_err l \<noteq> None
      else ok (lr_r l) \<and> 0 \<le> lr_read l \<and> lr_read l \<le> lr_limit l \<and> lr_limit l \<le> maxInt64)"

definition lr_rest :: "('r \<Rightarrow> bytes) \<Rightarrow> 'r limitReader \<Rightarrow> bytes" where
  "lr_rest rest l =
     (if lr_tripped l then [] else limit_rest (lr_limit l) (lr_read l) (rest (lr_r l)))"

definition lr_fin :: "('r \<Rightarrow> bytes) \<Rightarrow> ('r \<Rightarrow> err) \<Rightarrow> 'r limitReader \<Rightarrow> err" where
  "lr_fin rest fin l =
     (if lr_tripped l then the (lr_err l)
      else limit_fin ''storage.limitReader.Read'' (lr_limit l) (lr_read l) (lr_exact l)
        (lr_long l) (rest (lr_r l)) (fin (lr_r l)))"

definition lr_steps :: "('r \<Rightarrow> nat) \<Rightarrow> 'r limitReader \<Rightarrow> nat" where
  "lr_steps steps l = (if lr_tripped l then 0 else steps (lr_r l))"

text \<open>Whether reading the stream to its end trips the reader.\<close>

definition limit_trips :: "int \<Rightarrow> int \<Rightarrow> bool \<Rightarrow> bytes \<Rightarrow> err \<Rightarrow> bool" where
  "limit_trips limit n exact d e \<longleftrightarrow> limit - n < int (length d) \<or>
     (exact \<and> errors_Is e EOF \<and> n + int (length d) < limit)"

definition lr_trips :: "('r \<Rightarrow> bytes) \<Rightarrow> ('r \<Rightarrow> err) \<Rightarrow> 'r limitReader \<Rightarrow> bool" where
  "lr_trips rest fin l \<longleftrightarrow> lr_tripped l \<or>
     limit_trips (lr_limit l) (lr_read l) (lr_exact l) (rest (lr_r l)) (fin (lr_r l))"

lemmas lr_spec_defs = lr_inv_def lr_rest_def lr_fin_def lr_steps_def limit_rest_def limit_fin_def
  lr_trips_def limit_trips_def

lemma lr_inv_remain:
  assumes "lr_inv ok l" and "\<not> lr_tripped l"
  shows "wrap64 (lr_limit l - lr_read l) = lr_limit l - lr_read l"
  using assms by (simp add: lr_inv_def wrap64_id)

lemma lr_inv_new:
  "ok r \<Longrightarrow> 0 \<le> limit \<Longrightarrow> limit \<le> maxInt64 \<Longrightarrow> lr_inv ok (newLimitReader r limit exact long)"
  by (simp add: lr_inv_def newLimitReader_def)

context stream_reader
begin

text \<open>
  One Read of a limited stream, with what it does to the content: the case distinction that the
  four laws of the contract share.
\<close>

lemma limitReader_Read_step:
  assumes ok: "lr_inv ok l" and m: "0 < m"
  shows "\<exists>bs e l'. limitReader_Read rd l m = Some (bs, e, l') \<and> length bs \<le> m \<and>
    (case e of
       None \<Rightarrow> lr_inv ok l' \<and> lr_rest rest l = bs @ lr_rest rest l' \<and>
         lr_fin rest fin l' = lr_fin rest fin l \<and> lr_steps steps l' < lr_steps steps l \<and>
         lr_trips rest fin l' = lr_trips rest fin l
     | Some x \<Rightarrow> lr_rest rest l = bs \<and> lr_fin rest fin l = x \<and>
         lr_tripped l' = lr_trips rest fin l \<and> (lr_tripped l' \<longrightarrow> lr_err l' = Some x))"
proof (cases "lr_tripped l")
  case True
  with ok show ?thesis by (auto simp: limitReader_Read_def lr_spec_defs)
next
  case False
  let ?rem = "lr_limit l - lr_read l"
  from False ok have ok': "ok (lr_r l)" and wrap: "wrap64 ?rem = ?rem"
    and rng: "0 \<le> lr_read l" "lr_read l \<le> lr_limit l" "lr_limit l \<le> maxInt64"
    by (simp_all add: lr_inv_remain) (simp_all add: lr_inv_def)
  show ?thesis
  proof (cases "?rem \<le> 0")
    case True
    from ok' zero_less_one show ?thesis
    proof (cases rule: read_cases)
      case (more bs s')
      with False True wrap rng show ?thesis
        by (cases bs) (auto simp: limitReader_Read_def lr_spec_defs trip_def Let_def)
    next
      case (stop s')
      with False True wrap rng show ?thesis
        by (cases "rest (lr_r l)") (auto simp: limitReader_Read_def lr_spec_defs trip_def Let_def)
    qed
  next
    case rem: False
    define p where "p = (if int m > ?rem then nat ?rem else m)"
    have p: "0 < p" "p \<le> m" "int p \<le> ?rem" using rem m by (auto simp: p_def)
    from ok' p(1) show ?thesis
    proof (cases rule: read_cases)
      case (more bs s')
      have w: "wrap64 (lr_read l + int (length bs)) = lr_read l + int (length bs)"
        using more(6) p rng by (intro wrap64_id) auto
      have n: "nat (lr_limit l - (lr_read l + int (length bs))) = nat ?rem - length bs"
        by linarith
      have t: "take (nat ?rem) (bs @ rest s') =
        bs @ take (nat (lr_limit l - (lr_read l + int (length bs)))) (rest s')"
        using more(6) p n by simp
      from more False rem wrap rng p w t show ?thesis
        by (simp add: limitReader_Read_def lr_spec_defs Let_def p_def [symmetric])
          (auto simp: algebra_simps)
    next
      case (stop s')
      have w: "wrap64 (lr_read l + int (length (rest (lr_r l)))) =
          lr_read l + int (length (rest (lr_r l)))"
        using stop(2) p rng by (intro wrap64_id) auto
      have t: "take (nat ?rem) (rest (lr_r l)) = rest (lr_r l)"
        using stop(2) p by simp
      from stop False rem wrap rng p w t show ?thesis
        by (simp add: limitReader_Read_def lr_spec_defs Let_def p_def [symmetric] trip_def)
    qed
  qed
qed

lemma limitReader_stream:
  "stream_reader (limitReader_Read rd) (lr_inv ok) (lr_rest rest) (lr_fin rest fin)
     (lr_steps steps)"
proof (unfold_locales, goal_cases)
  case (1 l m)
  then show ?case using limitReader_Read_step [of l m] by auto
next
  case (2 l m bs e l')
  then show ?case using limitReader_Read_step [of l m] by auto
next
  case (3 l m bs l')
  then show ?case using limitReader_Read_step [of l m] by auto
next
  case (4 l m bs e l')
  then show ?case using limitReader_Read_step [of l m] by auto
qed

lemma limitReader_tripped:
  "drains (limitReader_Read rd) l d e l' \<Longrightarrow> lr_inv ok l \<Longrightarrow>
     lr_tripped l' = lr_trips rest fin l \<and> (lr_tripped l' \<longrightarrow> lr_err l' = Some e)"
proof (induction rule: drains.induct)
  case (drains_stop m l bs e l')
  then show ?case using limitReader_Read_step [of l m] by auto
next
  case (drains_more m l bs l1 d e l')
  then show ?case using limitReader_Read_step [of l m] by auto
qed

end

text \<open>
  A limit that is not exact trips on a Read that delivers nothing, with its own error; so of two
  limits around one body, the outer exact, at most one trips.
\<close>

lemma limitReader_Read_bound:
  assumes "limitReader_Read rd l m = Some (bs, e, l')" "\<not> lr_tripped l" "\<not> lr_exact l"
  shows "\<not> lr_exact l' \<and> lr_long l' = lr_long l \<and> (lr_tripped l' \<longrightarrow> bs = [] \<and> e = Some (lr_long l))"
  using assms by (auto simp: limitReader_Read_def Let_def trip_def bind_eq_Some_conv split: if_splits)

lemma limitReader_nested_Read:
  assumes "limitReader_Read (limitReader_Read rd) L m = Some (bs, e, L')"
    "\<not> lr_tripped L" "\<not> lr_tripped (lr_r L)" "\<not> lr_exact (lr_r L)"
    "\<not> errors_Is (lr_long (lr_r L)) EOF"
  shows "\<not> (lr_tripped L' \<and> lr_tripped (lr_r L')) \<and>
    (e = None \<longrightarrow> \<not> lr_tripped L' \<and> \<not> lr_tripped (lr_r L') \<and> \<not> lr_exact (lr_r L') \<and>
      lr_long (lr_r L') = lr_long (lr_r L))"
  using assms
  by (cases L) (auto simp: limitReader_Read_def [of "limitReader_Read rd"] Let_def trip_def
      bind_eq_Some_conv limitReader.defs dest!: limitReader_Read_bound split: if_splits)

lemma limitReader_nested_drains:
  "drains (limitReader_Read (limitReader_Read rd)) L d e L' \<Longrightarrow> \<not> lr_tripped L \<Longrightarrow>
     \<not> lr_tripped (lr_r L) \<Longrightarrow> \<not> lr_exact (lr_r L) \<Longrightarrow> \<not> errors_Is (lr_long (lr_r L)) EOF \<Longrightarrow>
     \<not> (lr_tripped L' \<and> lr_tripped (lr_r L'))"
proof (induction rule: drains.induct)
  case (drains_stop m L bs e L')
  then show ?case using limitReader_nested_Read by fastforce
next
  case (drains_more m L bs L1 d e L')
  from limitReader_nested_Read [OF drains_more(2)] drains_more show ?case by fastforce
qed

section \<open>Any body\<close>

text \<open>
  A body need not be a finite stream: it may never end, or change its mind after an error. The one
  law of \<open>io.Reader\<close>, that a Read returns at most as many bytes as the buffer holds, is enough for
  the guarantees Put gives.
\<close>

locale io_reader =
  fixes rd :: "'s rd"
  assumes len: "rd s m = Some (bs, e, s') \<Longrightarrow> length bs \<le> m"
begin

definition lr_live :: "'s limitReader \<Rightarrow> bool" where
  "lr_live l \<longleftrightarrow> \<not> lr_tripped l \<and> 0 \<le> lr_read l \<and> lr_read l \<le> lr_limit l \<and> lr_limit l \<le> maxInt64"

text \<open>A Read trips the reader, or passes one Read of the body on and counts its bytes.\<close>

lemma limitReader_Read_cases:
  assumes live: "lr_live l" and m: "0 < m" and rd: "limitReader_Read rd l m = Some (bs, e, l')"
  obtains (trip) x where "lr_tripped l'" "e = Some x" "lr_err l' = Some x"
      "x = lr_long l \<or> (lr_exact l \<and> (\<exists>n. x = shortBody ''storage.limitReader.Read'' n (lr_limit l)))"
    | (pass) p r n where "0 < p" "rd (lr_r l) p = Some (bs, e, r)"
      "l' = l\<lparr>lr_r := r, lr_read := n\<rparr>" "n = lr_read l + int (length bs)" "lr_live l'"
      "lr_exact l \<Longrightarrow> errors_Is_opt e EOF \<Longrightarrow> n = lr_limit l"
proof (cases "lr_limit l - lr_read l \<le> 0")
  case True
  with live have w: "wrap64 (lr_limit l - lr_read l) = 0" "lr_read l = lr_limit l"
    by (auto simp: lr_live_def wrap64_id)
  with live rd obtain cs f r where cs: "rd (lr_r l) 1 = Some (cs, f, r)"
    by (auto simp: limitReader_Read_def lr_live_def bind_eq_Some_conv)
  show thesis
  proof (cases "cs = []")
    case True
    with live rd cs w show thesis
      by (intro pass [of 1 r]) (auto simp: limitReader_Read_def lr_live_def)
  next
    case False
    with live rd cs w show thesis
      by (intro trip [of "lr_long l"]) (auto simp: limitReader_Read_def lr_live_def trip_def)
  qed
next
  case False
  define p where "p = (if int m > lr_limit l - lr_read l then nat (lr_limit l - lr_read l) else m)"
  with False m have p: "0 < p" "int p \<le> lr_limit l - lr_read l" by auto
  from live False rd obtain cs f r where cs: "rd (lr_r l) p = Some (cs, f, r)"
    by (auto simp: limitReader_Read_def lr_live_def wrap64_id bind_eq_Some_conv Let_def p_def
        split: if_splits)
  let ?n = "lr_read l + int (length cs)"
  have w: "wrap64 ?n = ?n" "?n \<le> lr_limit l" "0 \<le> ?n"
    using len [OF cs] p live by (auto simp: lr_live_def intro!: wrap64_id)
  from live False rd cs w(1) have *:
    "if lr_exact l \<and> errors_Is_opt f EOF \<and> ?n < lr_limit l
     then lr_tripped l' \<and> lr_err l' = e \<and>
       e = Some (shortBody ''storage.limitReader.Read'' ?n (lr_limit l))
     else bs = cs \<and> e = f \<and> l' = l\<lparr>lr_r := r, lr_read := ?n\<rparr>"
    by (auto simp: limitReader_Read_def lr_live_def wrap64_id Let_def p_def [symmetric] trip_def
        split: if_splits)
  show thesis
  proof (cases "lr_exact l \<and> errors_Is_opt f EOF \<and> ?n < lr_limit l")
    case True
    with * show thesis by (intro trip) auto
  next
    case False
    with * cs p w live show thesis by (intro pass [of p r ?n]) (auto simp: lr_live_def)
  qed
qed

text \<open>
  What a complete reading of a limited body means: it failed with the recorded error, or it is a
  complete reading of the body itself, within the limit, and of exactly the limit when that is
  exact and the body ended well.
\<close>

lemma limitReader_drains:
  "drains (limitReader_Read rd) l d e l' \<Longrightarrow> lr_live l \<Longrightarrow>
     (if lr_tripped l' then lr_err l' = Some e \<and>
        (e = lr_long l \<or> (\<exists>n. e = shortBody ''storage.limitReader.Read'' n (lr_limit l)))
      else drains rd (lr_r l) d e (lr_r l') \<and> lr_read l + int (length d) \<le> lr_limit l \<and>
        (lr_exact l \<longrightarrow> errors_Is e EOF \<longrightarrow> lr_read l + int (length d) = lr_limit l))"
proof (induction rule: drains.induct)
  case (drains_stop m l bs e l')
  from drains_stop(3,1,2) show ?case
  proof (cases rule: limitReader_Read_cases)
    case (trip x)
    then show ?thesis by auto
  next
    case (pass p r n)
    then show ?thesis by (auto simp: lr_live_def intro: drains.drains_stop)
  qed
next
  case (drains_more m l bs l1 d e l')
  from drains_more(5,1,2) show ?case
  proof (cases rule: limitReader_Read_cases)
    case (pass p r n)
    with drains_more.IH show ?thesis
      by (auto simp: algebra_simps intro: drains.drains_more split: if_splits)
  qed auto
qed

end

interpretation bytes_io: io_reader bytes_Read
  by unfold_locales (auto simp: bytes_Read_def split: if_splits)

context io_reader
begin

lemma limitReader_io: "io_reader (limitReader_Read rd)"
proof
  fix l m bs e l'
  assume rd: "limitReader_Read rd l m = Some (bs, e, l')"
  show "length bs \<le> m"
    using rd by (auto simp: limitReader_Read_def bind_eq_Some_conv Let_def trip_def
        dest!: len split: if_splits)
qed

end

section \<open>Properties\<close>

text \<open>
  C7: what a limiting reader delivers. Over a body that delivers a finite stream, every complete
  sequence of reads delivers the body cut at the limit. It ends with the reader's own error when the
  body runs past the limit, with an \<open>io.ErrUnexpectedEOF\<close> when an exact limit is not reached, and as
  the body does otherwise; the reader has tripped in exactly the first two cases, and a tripped
  reader repeats its error on every later Read.
\<close>

theorem limitReader_cuts:
  assumes str: "stream_reader rd ok rest fin steps" and ok: "ok r"
    and limit: "0 \<le> limit" "limit \<le> maxInt64"
    and dr: "drains (limitReader_Read rd) (newLimitReader r limit exact long) d e l'"
  shows "d = take (nat limit) (rest r) \<and>
    (if limit < int (length (rest r)) then e = long
     else if exact \<and> errors_Is (fin r) EOF \<and> int (length (rest r)) < limit
       then errors_Is e ErrUnexpectedEOF \<and> \<not> errors_Is e EOF
     else e = fin r) \<and>
    lr_tripped l' = (limit < int (length (rest r)) \<or>
      (exact \<and> errors_Is (fin r) EOF \<and> int (length (rest r)) < limit)) \<and>
    (lr_tripped l' \<longrightarrow> limitReader_Read rd l' m = Some ([], Some e, l'))"
proof -
  have inv: "lr_inv ok (newLimitReader r limit exact long)"
    using ok limit by (rule lr_inv_new)
  note content = stream_reader.drains_content [OF stream_reader.limitReader_stream [OF str] dr inv]
  note trips = stream_reader.limitReader_tripped [OF str dr inv]
  have "d = take (nat limit) (rest r)" using content
    by (simp add: lr_rest_def limit_rest_def newLimitReader_def)
  moreover have "if limit < int (length (rest r)) then e = long
     else if exact \<and> errors_Is (fin r) EOF \<and> int (length (rest r)) < limit
       then errors_Is e ErrUnexpectedEOF \<and> \<not> errors_Is e EOF
     else e = fin r"
    using content by (simp add: lr_fin_def limit_fin_def newLimitReader_def shortBody_def)
  moreover have "lr_tripped l' = (limit < int (length (rest r)) \<or>
      (exact \<and> errors_Is (fin r) EOF \<and> int (length (rest r)) < limit))"
    using trips by (simp add: lr_trips_def limit_trips_def newLimitReader_def)
  moreover have "lr_tripped l' \<longrightarrow> limitReader_Read rd l' m = Some ([], Some e, l')"
    using trips by (simp add: limitReader_Read_def)
  ultimately show ?thesis by blast
qed

theorem limitReader_cuts_witness:
  "\<exists>d e l'. drains (limitReader_Read bytes_Read) (newLimitReader ''hello'' 3 True EOF) d e l' \<and>
     d = ''hel'' \<and> lr_tripped l'"
proof -
  have "lr_inv (\<lambda>_. True) (newLimitReader ''hello'' 3 True EOF)" by (intro lr_inv_new) simp_all
  from stream_reader.drains_exists [OF bytes_rd.limitReader_stream, OF this] obtain d e l' where
    dr: "drains (limitReader_Read bytes_Read) (newLimitReader ''hello'' 3 True EOF) d e l'"
    by (elim exE) (rule that)
  have rng: "(0 :: int) \<le> 3" "(3 :: int) \<le> maxInt64" by simp_all
  note cuts = limitReader_cuts [where rd = bytes_Read and ok = "\<lambda>_. True" and rest = "\<lambda>s. s"
      and fin = "\<lambda>_. EOF" and r = "''hello''" and limit = 3 and m = 1,
      OF bytes_rd.stream_reader_axioms TrueI rng dr]
  have "d = ''hel''" using conjunct1 [OF cuts] by simp
  moreover have "lr_tripped l'" using conjunct1 [OF conjunct2 [OF conjunct2 [OF cuts]]] by simp
  ultimately show ?thesis using dr by (intro exI conjI)
qed

text \<open>
  The error of a Put whose body tripped a limit matches the limit's own error and everything the
  provider's error matches.
\<close>

theorem readFailure_matches:
  "errors_Is (readFailure recorded provider) recorded \<and>
   (\<forall>t. errors_Is_opt provider t \<longrightarrow> errors_Is (readFailure recorded provider) t)"
  by (auto simp: readFailure_def errors_Is_dual_head errors_Is_dual_cause split: option.splits)

theorem readFailure_matches_witness:
  "errors_Is (readFailure EOF (Some (dual ErrUnavailable Canceled))) Canceled"
  using readFailure_matches [of EOF "Some (dual ErrUnavailable Canceled)"] by simp

end
