(* ===== verification/Idle_Reader.thy ===== *)
theory Idle_Reader
  imports Go_Readers
begin

text \<open>
  \<open>idle.go\<close>: the reader that bounds each read of a Get body. The timer runs beside the reader, so
  what it does during one Read is an argument: when a callback left over from an earlier expiry runs,
  whether the timer expires before the Read stops it, and whether its callback has run by the time the
  Read looks. Everything the code does is then a function of that argument, and the theorems hold for
  every behaviour of the timer.
\<close>

text \<open>
  \<open>ir_expired\<close> is a timer that has expired while its callback has not run; the callback sets
  \<open>ir_fired\<close> and cancels the request. Several such callbacks are as good as one, since a second one
  changes nothing. Arming the timer again does not take back a callback that is due.
\<close>

record 'g idleReader =
  ir_body :: 'g
  ir_limit :: int
  ir_cancelled :: bool
  ir_expired :: bool
  ir_fired :: bool

record tick =
  t_before :: bool    \<comment> \<open>the callback of an earlier expiry runs before the Read looks at fired\<close>
  t_during :: bool    \<comment> \<open>the callback of an earlier expiry runs after that, while the body is read\<close>
  t_expires :: bool   \<comment> \<open>the timer expires during the Read, so Stop reports false\<close>
  t_seen :: bool      \<comment> \<open>its callback has run when the Read looks at fired\<close>

definition quiet :: tick where
  "quiet = \<lparr>t_before = False, t_during = False, t_expires = False, t_seen = False\<rparr>"

definition callback :: "'g idleReader \<Rightarrow> 'g idleReader" where
  "callback r = r\<lparr>ir_fired := True, ir_cancelled := True, ir_expired := False\<rparr>"

text \<open>
  \<open>newIdleReader\<close> arms the timer and stops it at once; \<open>expires\<close> says that it expired in between.
\<close>

definition newIdleReader :: "bool \<Rightarrow> 'g \<Rightarrow> int \<Rightarrow> 'g idleReader" where
  "newIdleReader expires body limit =
     \<lparr>ir_body = body, ir_limit = limit, ir_cancelled = False, ir_expired = expires,
      ir_fired = False\<rparr>"

text \<open>The cause is kept as text.\<close>

definition stalled :: "'g idleReader \<Rightarrow> err \<Rightarrow> err" where
  "stalled r cause = Errorf ''storage.idleReader.stalled''
     ''%w: no bytes read within the read idle timeout (%s): %v'' [VInt (ir_limit r)]
     [ErrUnavailable] [cause]"

text \<open>\<open>cmp.Or\<close> on errors: the first that is not nil.\<close>

definition cmpOr :: "err option \<Rightarrow> err \<Rightarrow> err" where
  "cmpOr e d = (case e of None \<Rightarrow> d | Some x \<Rightarrow> x)"

definition idleReader_Read :: "tick \<Rightarrow> 'g rd \<Rightarrow> 'g idleReader rd" where
  "idleReader_Read t rd r0 m =
     (let r = (if ir_expired r0 \<and> t_before t then callback r0 else r0) in
      if ir_fired r then Some ([], Some (stalled r DeadlineExceeded), r)
      else
        do { (bs, e, body') \<leftarrow> rd (ir_body r) m;
             let r0' = r\<lparr>ir_body := body'\<rparr>;
             let r1 = (if ir_expired r0' \<and> t_during t then callback r0' else r0');
             let r2 = (if t_expires t
                       then (if t_seen t then callback r1 else r1\<lparr>ir_expired := True\<rparr>) else r1);
             if t_expires t \<and> ir_fired r2 then
               (if e = Some EOF then Some (bs, e, r2)
                else Some (bs, Some (stalled r2 (cmpOr e DeadlineExceeded)), r2))
             else Some (bs, e, r2) })"

text \<open>
  Close stops the timer, cancels the request, and then closes the body, whose \<open>Close\<close> sees the
  state of the request.
\<close>

definition idleReader_Close ::
  "(bool \<Rightarrow> 'g \<Rightarrow> err option \<times> 'g) \<Rightarrow> 'g idleReader \<Rightarrow> err option \<times> 'g idleReader" where
  "idleReader_Close bodyClose r0 =
     (let r = r0\<lparr>ir_cancelled := True\<rparr>;
          (e, body') = bodyClose (ir_cancelled r) (ir_body r)
      in (e, r\<lparr>ir_body := body'\<rparr>))"

section \<open>Lemmas\<close>

lemma stalled_Is [simp]: "is_var t \<Longrightarrow> errors_Is (stalled r cause) t \<longleftrightarrow> t = ErrUnavailable"
  by (auto simp: stalled_def)

text \<open>Once the timer has fired, every Read fails and none reaches the body.\<close>

lemma idleReader_Read_fired:
  "ir_fired r \<Longrightarrow> idleReader_Read t rd r m =
     (let r' = (if ir_expired r \<and> t_before t then callback r else r)
      in Some ([], Some (stalled r' DeadlineExceeded), r'))"
  by (simp add: idleReader_Read_def Let_def callback_def)

definition ir_quiet :: "'g idleReader \<Rightarrow> bool" where
  "ir_quiet r \<longleftrightarrow> \<not> ir_fired r \<and> \<not> ir_expired r"

text \<open>A Read during which the timer does not expire is the body's own Read.\<close>

lemma idleReader_Read_quiet:
  "ir_quiet r \<Longrightarrow> idleReader_Read quiet rd r m =
     map_option (\<lambda>(bs, e, body'). (bs, e, r\<lparr>ir_body := body'\<rparr>)) (rd (ir_body r) m)"
  by (cases "rd (ir_body r) m") (auto simp: idleReader_Read_def quiet_def ir_quiet_def Let_def)

context stream_reader
begin

lemma idleReader_stream:
  "stream_reader (idleReader_Read quiet rd) (\<lambda>r. ir_quiet r \<and> ok (ir_body r))
     (\<lambda>r. rest (ir_body r)) (\<lambda>r. fin (ir_body r)) (\<lambda>r. steps (ir_body r))"
proof (unfold_locales, goal_cases)
  case (1 r m)
  then show ?case by (auto elim!: read_cases [of "ir_body r" m] simp: idleReader_Read_quiet)
next
  case (2 r m bs e r')
  then show ?case by (auto elim!: read_cases [of "ir_body r" m] simp: idleReader_Read_quiet)
next
  case (3 r m bs r')
  then show ?case
    by (auto elim!: read_cases [of "ir_body r" m] simp: idleReader_Read_quiet ir_quiet_def)
next
  case (4 r m bs e r')
  then show ?case by (auto elim!: read_cases [of "ir_body r" m] simp: idleReader_Read_quiet)
qed

end

text \<open>Reading a quiet idle reader to its end is reading its body to the end.\<close>

lemma drains_idle_quiet:
  "drains (idleReader_Read quiet rd) r d e r' \<Longrightarrow> ir_quiet r \<Longrightarrow>
     drains rd (ir_body r) d e (ir_body r')"
proof (induction rule: drains.induct)
  case (drains_stop m s bs e s')
  then show ?case by (auto simp: idleReader_Read_quiet intro: drains.drains_stop)
next
  case (drains_more m s bs s' d e s'')
  then obtain b where "rd (ir_body s) m = Some (bs, None, b)" "s' = s\<lparr>ir_body := b\<rparr>"
    by (auto simp: idleReader_Read_quiet)
  with drains_more show ?case by (auto simp: ir_quiet_def intro!: drains.drains_more)
qed

section \<open>The idle reader under every timer\<close>

text \<open>
  One Read of an idle reader: the timer does anything, and the body's own Read, which the cancelled
  request may have cut off, is any that \<open>R\<close> allows.
\<close>

definition idle_reads :: "'g readrel \<Rightarrow> 'g idleReader readrel" where
  "idle_reads R r m bs e r' \<longleftrightarrow>
     (\<exists>t rd. (\<forall>b m bs e b'. rd b m = Some (bs, e, b') \<longrightarrow> R b m bs e b') \<and>
        idleReader_Read t rd r m = Some (bs, e, r'))"

lemma stalled_not_EOF [simp]: "stalled r cause \<noteq> EOF"
  by (simp add: stalled_def EOF_def)

text \<open>It delivers what the body's Read delivered, and its end only as the end; or nothing, and a failure.\<close>

lemma idle_reads_body:
  assumes "idle_reads R r m bs e r'"
  shows "bs = [] \<and> e \<noteq> None \<and> e \<noteq> Some EOF \<or>
    (\<exists>e0. R (ir_body r) m bs e0 (ir_body r') \<and> (e = None \<longrightarrow> e0 = None) \<and> (e = Some EOF \<longrightarrow> e0 = Some EOF))"
proof -
  from assms obtain t rd where rd: "\<forall>b m bs e b'. rd b m = Some (bs, e, b') \<longrightarrow> R b m bs e b'"
    and read: "idleReader_Read t rd r m = Some (bs, e, r')" by (auto simp: idle_reads_def)
  let ?r = "if ir_expired r \<and> t_before t then callback r else r"
  have body: "ir_body ?r = ir_body r" by (simp add: callback_def)
  show ?thesis
  proof (cases "ir_fired ?r")
    case True
    with read have "bs = []" "e = Some (stalled ?r DeadlineExceeded)" by (auto simp: idleReader_Read_def Let_def)
    then show ?thesis by simp
  next
    case False
    with read obtain e0 where "rd (ir_body r) m = Some (bs, e0, ir_body r')"
      "(e = None \<longrightarrow> e0 = None) \<and> (e = Some EOF \<longrightarrow> e0 = Some EOF)"
      by (auto simp: idleReader_Read_def Let_def bind_eq_Some_conv body callback_def split: if_splits)
    with rd show ?thesis by blast
  qed
qed

lemma runs_idle:
  "runs (idle_reads R) r d eo r' \<Longrightarrow>
     \<exists>eo' b'. runs R (ir_body r) d eo' b' \<and> (eo = Some EOF \<longrightarrow> eo' = Some EOF)"
proof (induction rule: runs.induct)
  case (runs_none r)
  show ?case using runs.runs_none [of R "ir_body r"] by blast
next
  case (runs_stop m r bs e r')
  from idle_reads_body [OF runs_stop(2)] consider "bs = []" "e \<noteq> EOF"
    | e0 where "R (ir_body r) m bs e0 (ir_body r')" "e = EOF \<Longrightarrow> e0 = Some EOF" by auto
  then show ?case
  proof cases
    case 1
    with runs.runs_none [of R "ir_body r"] show ?thesis by blast
  next
    case (2 e0)
    from runs_one [where R = R, OF runs_stop(1) 2(1)] 2(2) show ?thesis by blast
  qed
next
  case (runs_more m r bs r' d eo r'')
  from idle_reads_body [OF runs_more(2)] have "R (ir_body r) m bs None (ir_body r')" by auto
  note step = runs.runs_more [where R = R, OF runs_more(1) this]
  from runs_more.IH obtain eo' b' where "runs R (ir_body r') d eo' b'" "eo = Some EOF \<longrightarrow> eo' = Some EOF"
    by blast
  with step show ?case by blast
qed

text \<open>When the timer stays quiet, a reader that has not fired reads its body.\<close>

lemma idle_reads_quiet:
  assumes "R (ir_body r) m bs e b'" and "\<not> ir_fired r"
  shows "idle_reads R r m bs e (r\<lparr>ir_body := b'\<rparr>)"
  unfolding idle_reads_def
proof (intro exI [of _ quiet] exI [of _ "\<lambda>b m'. if b = ir_body r \<and> m' = m then Some (bs, e, b') else None"] conjI)
  show "idleReader_Read quiet (\<lambda>b m'. if b = ir_body r \<and> m' = m then Some (bs, e, b') else None) r m =
      Some (bs, e, r\<lparr>ir_body := b'\<rparr>)"
    using assms(2) by (simp add: idleReader_Read_def quiet_def Let_def)
qed (use assms(1) in \<open>simp split: if_splits\<close>)

lemma runs_quiet:
  "runs R b d eo b' \<Longrightarrow> ir_body r = b \<Longrightarrow> \<not> ir_fired r \<Longrightarrow> runs (idle_reads R) r d eo (r\<lparr>ir_body := b'\<rparr>)"
proof (induction arbitrary: r rule: runs.induct)
  case (runs_none b)
  then have "r\<lparr>ir_body := b\<rparr> = r" by auto
  with runs.runs_none [of "idle_reads R" r] show ?case by simp
next
  case (runs_stop m b bs e b')
  then show ?case by (intro runs.runs_stop [of m] idle_reads_quiet) simp_all
next
  case (runs_more m b bs b' d eo b'')
  have "runs (idle_reads R) (r\<lparr>ir_body := b'\<rparr>) d eo ((r\<lparr>ir_body := b'\<rparr>)\<lparr>ir_body := b''\<rparr>)"
    by (intro runs_more.IH) (simp_all add: runs_more)
  with runs_more show ?case
    by (intro runs.runs_more [of m _ _ _ "r\<lparr>ir_body := b'\<rparr>"] idle_reads_quiet) simp_all
qed

text \<open>An idle reader delivers what its body does.\<close>

lemma streams_idle:
  assumes "streams R body d"
  shows "streams (idle_reads R) (newIdleReader expires body limit) d"
  unfolding streams_def
proof (intro conjI allI impI)
  let ?r = "newIdleReader expires body limit"
  have r: "ir_body ?r = body" "\<not> ir_fired ?r" by (simp_all add: newIdleReader_def)
  from assms obtain b' where "runs R body d (Some EOF) b'" by (auto simp: streams_def)
  from runs_quiet [OF this r] show "\<exists>b'. runs (idle_reads R) ?r d (Some EOF) b'" by blast
  fix d' eo r'
  assume "runs (idle_reads R) ?r d' eo r'"
  from runs_idle [OF this] r obtain eo' b' where "runs R body d' eo' b'" "eo = Some EOF \<longrightarrow> eo' = Some EOF"
    by auto
  with assms show "\<exists>rest. d = d' @ rest \<and> (eo = Some EOF \<longrightarrow> rest = [])" unfolding streams_def by blast
qed

section \<open>Properties\<close>

text \<open>
  C22: a Read of a reader that has not fired delivers the bytes of the body's own Read, and its end as
  the end, whatever the timer does. When the timer of this Read has expired before the Read stops it, and
  a callback has cancelled the request, any other result is an error that matches \<open>ErrUnavailable\<close> and
  neither \<open>context.Canceled\<close> nor \<open>context.DeadlineExceeded\<close>. In every other case the body's error is passed
  on as it is: also when a callback left over from an earlier Read cancels the request while this one
  reads and the Read then stops its own timer in time, so that the error of the cancelled request
  reaches the caller; the reader has fired then, and only the next Read reports the stall.
\<close>

theorem idleReader_Read_delivers:
  assumes "\<not> ir_fired r" and "\<not> (ir_expired r \<and> t_before t)"
    and "rd (ir_body r) m = Some (bs, e, b')"
  shows "\<exists>e' r'. idleReader_Read t rd r m = Some (bs, e', r') \<and> ir_body r' = b' \<and>
    ir_fired r' = (ir_expired r \<and> t_during t \<or> t_expires t \<and> t_seen t) \<and>
    (ir_fired r' \<longrightarrow> ir_cancelled r') \<and>
    (if t_expires t \<and> ir_fired r' \<and> e \<noteq> Some EOF
     then \<exists>x. e' = Some x \<and> errors_Is x ErrUnavailable \<and> \<not> errors_Is x Canceled \<and> \<not> errors_Is x DeadlineExceeded
     else e' = e)"
  using assms by (auto simp: idleReader_Read_def Let_def callback_def)

text \<open>The race of the second case, on a body whose read fails because its request is cancelled.\<close>

theorem idleReader_Read_delivers_witness:
  "\<exists>r'. idleReader_Read \<lparr>t_before = False, t_during = True, t_expires = False, t_seen = False\<rparr>
     (\<lambda>b m. Some ([], Some Canceled, b)) (newIdleReader True ''hello'' 5) 2 = Some ([], Some Canceled, r') \<and>
     ir_fired r'"
  using idleReader_Read_delivers [where r = "newIdleReader True ''hello'' 5" and rd = "\<lambda>b m. Some ([], Some Canceled, b)"
      and m = 2 and t = "\<lparr>t_before = False, t_during = True, t_expires = False, t_seen = False\<rparr>"]
  by (auto simp: newIdleReader_def)

text \<open>
  C23: once the timer has fired, every later Read fails at once with \<open>ErrUnavailable\<close>, neither
  reads from the body nor matches a context error, and the reader stays fired.
\<close>

theorem idleReader_Read_sticky:
  assumes "ir_fired r"
  shows "\<exists>e r'. idleReader_Read t rd r m = Some ([], Some e, r') \<and> ir_fired r' \<and>
    ir_body r' = ir_body r \<and> errors_Is e ErrUnavailable \<and> \<not> errors_Is e Canceled \<and>
    \<not> errors_Is e DeadlineExceeded"
  using assms by (auto simp: idleReader_Read_fired Let_def callback_def)

theorem idleReader_Read_sticky_witness:
  "\<exists>e r'. idleReader_Read quiet bytes_Read (callback (newIdleReader False ''hello'' 5)) 2 =
     Some ([], Some e, r') \<and> errors_Is e ErrUnavailable"
  using idleReader_Read_sticky [of "callback (newIdleReader False ''hello'' 5)" quiet bytes_Read 2]
  by (auto simp: callback_def)

text \<open>Close has cancelled the request by the time it closes the body, and reports the body's error.\<close>

theorem idleReader_Close_cancels_first:
  "idleReader_Close bodyClose r =
     (fst (bodyClose True (ir_body r)),
      r\<lparr>ir_cancelled := True, ir_body := snd (bodyClose True (ir_body r))\<rparr>)"
  by (simp add: idleReader_Close_def Let_def split: prod.splits)

end
