(* ===== verification/Config.thy ===== *)
theory Config
  imports Go_Text
begin

text \<open>
  \<open>config.go\<close> and \<open>env.go\<close>: the configuration, its layering (\<open>Merge\<close>) and its completion
  (\<open>Finalize\<close>: defaults, environment overrides, validation). The maps that \<open>Options\<close> fields refer
  to live in a heap, because the code promises not to write to a map another Config shares.
  go-core's \<open>config.EnvName\<close> and \<open>config.SetDurationFromEnv\<close> are the arguments \<open>envName\<close> and
  \<open>setDuration\<close>.
\<close>

section \<open>State\<close>

text \<open>A reference to a map is an index into the heap, and nil is \<open>None\<close>.\<close>

type_synonym maps = "string smap list"

record Env =
  env_Endpoint :: string
  env_Container :: string
  env_Account :: string
  env_Key :: string
  env_MaxObjectSize :: string
  env_ListPageSize :: string
  env_RequestTimeout :: string
  env_ReadIdleTimeout :: string
  env_Options :: string

text \<open>
  A \<open>*config.Duration\<close> is the duration in nanoseconds or nil; nothing under \<open>src/\<close> writes through
  the pointer.
\<close>

record Config =
  cfg_Endpoint :: string
  cfg_Container :: string
  cfg_Account :: string
  cfg_Key :: string
  cfg_Options :: "nat option"
  cfg_MaxObjectSize :: int
  cfg_ListPageSize :: int
  cfg_RequestTimeout :: "int option"
  cfg_ReadIdleTimeout :: "int option"
  cfg_Env :: Env
  cfg_finalized :: bool

definition defaultRequestTimeout :: int where "defaultRequestTimeout = 10 * second"

definition defaultReadIdleTimeout :: int where "defaultReadIdleTimeout = 30 * second"

definition options :: "maps \<Rightarrow> nat option \<Rightarrow> string smap" where
  "options h r = (case r of None \<Rightarrow> [] | Some a \<Rightarrow> h ! a)"

section \<open>The map operations\<close>

definition maps_Clone :: "maps \<Rightarrow> nat option \<Rightarrow> maps \<times> nat option" where
  "maps_Clone h r = (case r of None \<Rightarrow> (h, None) | Some a \<Rightarrow> (h @ [h ! a], Some (length h)))"

definition maps_make :: "maps \<Rightarrow> maps \<times> nat option" where
  "maps_make h = (h @ [[]], Some (length h))"

definition map_set :: "maps \<Rightarrow> nat option \<Rightarrow> string \<Rightarrow> string \<Rightarrow> maps" where
  "map_set h r k v = (case r of None \<Rightarrow> h | Some a \<Rightarrow> h[a := AList.update k v (h ! a)])"

definition maps_Copy :: "maps \<Rightarrow> nat option \<Rightarrow> string smap \<Rightarrow> maps" where
  "maps_Copy h r m = fold (\<lambda>(k, v) h. map_set h r k v) m h"

text \<open>Clone, and make an empty map when there was none to clone.\<close>

definition cloneOrMake :: "maps \<Rightarrow> nat option \<Rightarrow> maps \<times> nat option" where
  "cloneOrMake h r = (let (h', r') = maps_Clone h r in if r' = None then maps_make h' else (h', r'))"

section \<open>Merge\<close>

definition Merge :: "maps \<Rightarrow> Config \<Rightarrow> Config \<Rightarrow> maps \<times> Config" where
  "Merge h c src =
     (let c = (if cfg_Endpoint src \<noteq> [] then c\<lparr>cfg_Endpoint := cfg_Endpoint src\<rparr> else c);
          c = (if cfg_Container src \<noteq> [] then c\<lparr>cfg_Container := cfg_Container src\<rparr> else c);
          c = (if cfg_Account src \<noteq> [] then c\<lparr>cfg_Account := cfg_Account src\<rparr> else c);
          c = (if cfg_Key src \<noteq> [] then c\<lparr>cfg_Key := cfg_Key src\<rparr> else c);
          c = (if cfg_MaxObjectSize src \<noteq> 0
               then c\<lparr>cfg_MaxObjectSize := cfg_MaxObjectSize src\<rparr> else c);
          c = (if cfg_ListPageSize src \<noteq> 0
               then c\<lparr>cfg_ListPageSize := cfg_ListPageSize src\<rparr> else c);
          c = (if cfg_RequestTimeout src \<noteq> None
               then c\<lparr>cfg_RequestTimeout := cfg_RequestTimeout src\<rparr> else c);
          c = (if cfg_ReadIdleTimeout src \<noteq> None
               then c\<lparr>cfg_ReadIdleTimeout := cfg_ReadIdleTimeout src\<rparr> else c)
      in if 0 < length (options h (cfg_Options src)) then
           (let (h1, r) = cloneOrMake h (cfg_Options c);
                h2 = maps_Copy h1 r (options h1 (cfg_Options src))
            in (h2, c\<lparr>cfg_Options := r\<rparr>))
         else (h, c))"

section \<open>Environment\<close>

text \<open>
  \<open>os.Environ\<close> is a list of \<open>name=value\<close> strings, and \<open>os.Getenv\<close> the value of the first entry of
  the name, empty for an unset or an empty name.
\<close>

definition getenv :: "string list \<Rightarrow> string \<Rightarrow> string" where
  "getenv environ name =
     (if name = [] then []
      else case first_some (\<lambda>kv. let (n, v, ok) = cut kv (CHR ''='') in
             if ok \<and> n = name then Some v else None) environ of
        None \<Rightarrow> [] | Some v \<Rightarrow> v)"

definition NewEnv :: "(string \<Rightarrow> string list \<Rightarrow> string) \<Rightarrow> string \<Rightarrow> Env" where
  "NewEnv envName pre =
     \<lparr>env_Endpoint = envName pre [''storage'', ''endpoint''],
      env_Container = envName pre [''storage'', ''container''],
      env_Account = envName pre [''storage'', ''account''],
      env_Key = envName pre [''storage'', ''key''],
      env_MaxObjectSize = envName pre [''storage'', ''max'', ''object'', ''size''],
      env_ListPageSize = envName pre [''storage'', ''list'', ''page'', ''size''],
      env_RequestTimeout = envName pre [''storage'', ''request'', ''timeout''],
      env_ReadIdleTimeout = envName pre [''storage'', ''read'', ''idle'', ''timeout''],
      env_Options = envName pre [''storage'', ''options'']\<rparr>"

definition optionKey :: "string \<Rightarrow> bool" where
  "optionKey key = (key \<noteq> [] \<and>
     list_all (\<lambda>(i, r). \<not> ((r < 65 \<or> r > 90) \<and> (r < 48 \<or> r > 57) \<and> r \<noteq> 95)) (runes key))"

text \<open>The variables that set a provider option, in the order of the environment.\<close>

definition optionVar :: "string \<Rightarrow> string \<Rightarrow> (string \<times> string) option" where
  "optionVar pre kv =
     (let (name, v, ok) = cut kv (CHR ''='') in
      if \<not> ok \<or> v = [] \<or> \<not> hasPrefix name pre then None
      else let key = trimPrefix name pre in
        if \<not> optionKey key then None else Some (toLower key, v))"

fun optionsLoop :: "string \<Rightarrow> string list \<Rightarrow> bool \<Rightarrow> maps \<Rightarrow> Config \<Rightarrow> maps \<times> Config" where
  "optionsLoop pre [] copied h c = (h, c)"
| "optionsLoop pre (kv # kvs) copied h c =
     (case optionVar pre kv of
        None \<Rightarrow> optionsLoop pre kvs copied h c
      | Some (key, v) \<Rightarrow>
          let (h1, c1) = (if \<not> copied
                then (let (h', r) = cloneOrMake h (cfg_Options c) in (h', c\<lparr>cfg_Options := r\<rparr>))
                else (h, c))
          in optionsLoop pre kvs True (map_set h1 (cfg_Options c1) key v) c1)"

definition applyOptionsEnv :: "string list \<Rightarrow> maps \<Rightarrow> Config \<Rightarrow> maps \<times> Config" where
  "applyOptionsEnv environ h c =
     (if env_Options (cfg_Env c) = [] then (h, c)
      else optionsLoop (env_Options (cfg_Env c) @ ''_'') environ False h c)"

section \<open>Finalize\<close>

definition applyDefaults :: "Config \<Rightarrow> Config" where
  "applyDefaults c =
     (let c = (if cfg_RequestTimeout c = None
               then c\<lparr>cfg_RequestTimeout := Some defaultRequestTimeout\<rparr> else c)
      in if cfg_ReadIdleTimeout c = None
         then c\<lparr>cfg_ReadIdleTimeout := Some defaultReadIdleTimeout\<rparr> else c)"

type_synonym setDuration = "string list \<Rightarrow> int option \<Rightarrow> string \<Rightarrow> int option \<times> err option"

text \<open>The form of an override: \<open>if v := os.Getenv(name); v != "" { field = v }\<close>, and its parsed kin.\<close>

definition overrideString :: "string list \<Rightarrow> string \<Rightarrow> string \<Rightarrow> string" where
  "overrideString environ name old = (let v = getenv environ name in if v \<noteq> [] then v else old)"

definition overrideInt ::
  "(string \<Rightarrow> err + int) \<Rightarrow> string list \<Rightarrow> string \<Rightarrow> int \<Rightarrow> err + int" where
  "overrideInt parse environ name old =
     (let v = getenv environ name in
      if v \<noteq> [] then
        (case parse v of
           Inl e \<Rightarrow> Inl (Errorf ''storage.Config.applyEnv'' ''%s: %w'' [VStr name] [e] [])
         | Inr n \<Rightarrow> Inr n)
      else Inr old)"

definition applyEnv ::
  "setDuration \<Rightarrow> string list \<Rightarrow> maps \<Rightarrow> Config \<Rightarrow> maps \<times> Config \<times> err option" where
  "applyEnv setDuration environ h c =
     (let env = cfg_Env c;
          c = c\<lparr>cfg_Endpoint := overrideString environ (env_Endpoint env) (cfg_Endpoint c)\<rparr>;
          c = c\<lparr>cfg_Container := overrideString environ (env_Container env) (cfg_Container c)\<rparr>;
          c = c\<lparr>cfg_Account := overrideString environ (env_Account env) (cfg_Account c)\<rparr>;
          c = c\<lparr>cfg_Key := overrideString environ (env_Key env) (cfg_Key c)\<rparr> in
      case overrideInt (parseInt 64) environ (env_MaxObjectSize env) (cfg_MaxObjectSize c) of
        Inl e \<Rightarrow> (h, c, Some e)
      | Inr n \<Rightarrow>
        let c = c\<lparr>cfg_MaxObjectSize := n\<rparr> in
        case overrideInt atoi environ (env_ListPageSize env) (cfg_ListPageSize c) of
          Inl e \<Rightarrow> (h, c, Some e)
        | Inr n \<Rightarrow>
          let (h, c) = applyOptionsEnv environ h (c\<lparr>cfg_ListPageSize := n\<rparr>);
              (d, e) = setDuration environ (cfg_RequestTimeout c) (env_RequestTimeout env);
              c = c\<lparr>cfg_RequestTimeout := d\<rparr> in
          if e \<noteq> None then (h, c, e)
          else let (d, e) = setDuration environ (cfg_ReadIdleTimeout c) (env_ReadIdleTimeout env)
               in (h, c\<lparr>cfg_ReadIdleTimeout := d\<rparr>, e))"

text \<open>A nil duration would be dereferenced.\<close>

definition validate :: "Config \<Rightarrow> err option go" where
  "validate c =
     (let bad = (\<lambda>text vs. Ret (Some (newError ''storage.Config.validate'' text vs))) in
      if cfg_Container c = [] then bad ''storage: container is required'' []
      else if cfg_MaxObjectSize c < 0 then
        bad ''storage: max_object_size must not be negative, got %d'' [VInt (cfg_MaxObjectSize c)]
      else if cfg_ListPageSize c < 0 then
        bad ''storage: list_page_size must not be negative, got %d'' [VInt (cfg_ListPageSize c)]
      else case cfg_RequestTimeout c of
        None \<Rightarrow> Panic ''nil pointer dereference''
      | Some d \<Rightarrow>
        if d \<le> 0 then bad ''storage: request_timeout must be positive, got %s'' [VInt d]
        else case cfg_ReadIdleTimeout c of
          None \<Rightarrow> Panic ''nil pointer dereference''
        | Some d' \<Rightarrow>
          if d' \<le> 0 then bad ''storage: read_idle_timeout must be positive, got %s'' [VInt d']
          else Ret None)"

definition Finalize ::
  "(string \<Rightarrow> string list \<Rightarrow> string) \<Rightarrow> setDuration \<Rightarrow> string list \<Rightarrow> maps \<Rightarrow> Config \<Rightarrow> string \<Rightarrow>
     (maps \<times> Config \<times> err option) go" where
  "Finalize envName setDuration environ h c envPrefix =
     (let c = c\<lparr>cfg_finalized := False\<rparr>;
          c = c\<lparr>cfg_Env := NewEnv envName envPrefix\<rparr>;
          c = applyDefaults c;
          (h, c, e) = applyEnv setDuration environ h c in
      if e \<noteq> None then Ret (h, c, e)
      else case validate c of
        Panic p \<Rightarrow> Panic p
      | Ret (Some e) \<Rightarrow> Ret (h, c, Some e)
      | Ret None \<Rightarrow> Ret (h, c\<lparr>cfg_finalized := True\<rparr>, None))"

section \<open>Maps are copied before they are written\<close>

text \<open>A heap extends another when every map of the other is still there, unchanged.\<close>

definition extends :: "maps \<Rightarrow> maps \<Rightarrow> bool" where
  "extends h h' \<longleftrightarrow> prefix h h'"

definition updates :: "string smap \<Rightarrow> string smap \<Rightarrow> string smap" where
  "updates kvs m = fold (\<lambda>(k, v) m. AList.update k v m) kvs m"

lemma extends_refl [simp]: "extends h h"
  by (simp add: extends_def)

lemma extends_append [simp]: "extends h (h @ ms)"
  by (simp add: extends_def)

lemma extends_nth: "extends h h' \<Longrightarrow> a < length h \<Longrightarrow> h' ! a = h ! a"
  by (auto simp: extends_def prefix_def nth_append)

lemma map_of_updates: "map_of (updates kvs m) = map_of m ++ map_of (rev kvs)"
  unfolding updates_def
  by (induction kvs arbitrary: m) (auto simp: update_conv' map_add_def fun_eq_iff split: option.splits)

lemma cloneOrMake_eq: "cloneOrMake h r = (h @ [options h r], Some (length h))"
  by (cases r) (simp_all add: cloneOrMake_def maps_Clone_def maps_make_def options_def)

lemma map_set_fresh: "map_set (h @ [m]) (Some (length h)) k v = h @ [AList.update k v m]"
  by (simp add: map_set_def)

lemma maps_Copy_fresh: "maps_Copy (h @ [m]) (Some (length h)) kvs = h @ [updates kvs m]"
  unfolding maps_Copy_def updates_def
  by (induction kvs arbitrary: m) (auto simp: map_set_fresh)

lemma optionsLoop_copied:
  "cfg_Options c = Some (length h) \<Longrightarrow>
     optionsLoop pre kvs True (h @ [m]) c = (h @ [updates (List.map_filter (optionVar pre) kvs) m], c)"
  by (induction kvs arbitrary: m)
    (auto simp: List.map_filter_simps map_set_fresh updates_def split: option.splits)

lemma optionsLoop_eq:
  "optionsLoop pre kvs False h c =
     (let sets = List.map_filter (optionVar pre) kvs in
      if sets = [] then (h, c)
      else (h @ [updates sets (options h (cfg_Options c))], c\<lparr>cfg_Options := Some (length h)\<rparr>))"
proof (induction kvs)
  case Nil
  then show ?case by (simp add: List.map_filter_simps)
next
  case (Cons kv kvs)
  show ?case
  proof (cases "optionVar pre kv")
    case None
    with Cons show ?thesis by (simp add: List.map_filter_simps)
  next
    case (Some a)
    then show ?thesis
      by (cases a) (simp add: List.map_filter_simps cloneOrMake_eq map_set_fresh
          optionsLoop_copied updates_def)
  qed
qed

lemma applyOptionsEnv_extends:
  "applyOptionsEnv environ h c = (h', c') \<Longrightarrow> extends h h'"
  by (auto simp: applyOptionsEnv_def optionsLoop_eq Let_def split: if_splits)

lemma applyEnv_extends: "applyEnv sd environ h c = (h', c', e) \<Longrightarrow> extends h h'"
  by (auto simp: applyEnv_def Let_def applyOptionsEnv_extends split: if_splits sum.splits prod.splits)

section \<open>Validity\<close>

definition config_valid :: "Config \<Rightarrow> bool" where
  "config_valid c \<longleftrightarrow> cfg_Container c \<noteq> [] \<and> 0 \<le> cfg_MaxObjectSize c \<and> 0 \<le> cfg_ListPageSize c \<and>
     (\<exists>d. cfg_RequestTimeout c = Some d \<and> 0 < d) \<and> (\<exists>d. cfg_ReadIdleTimeout c = Some d \<and> 0 < d)"

lemma validate_None: "validate c = Ret None \<longleftrightarrow> config_valid c"
  by (auto simp: validate_def config_valid_def Let_def newError_def split: option.splits if_splits)

lemma validate_no_panic:
  "cfg_RequestTimeout c \<noteq> None \<Longrightarrow> cfg_ReadIdleTimeout c \<noteq> None \<Longrightarrow> validate c \<noteq> Panic p"
  by (auto simp: validate_def Let_def split: option.splits if_splits)

text \<open>\<open>applyOptionsEnv\<close> and the steps before it keep the fields they do not own.\<close>

lemma applyOptionsEnv_fields:
  "applyOptionsEnv environ h c = (h', c') \<Longrightarrow> \<exists>r. c' = c\<lparr>cfg_Options := r\<rparr>"
  by (auto simp: applyOptionsEnv_def optionsLoop_eq Let_def split: if_splits intro: exI [of _ "cfg_Options c"])

lemma applyEnv_finalized:
  assumes "applyEnv sd environ h c = (h', c', e)"
  shows "cfg_finalized c' = cfg_finalized c"
  using assms
  by (auto simp: applyEnv_def Let_def split: if_splits sum.splits prod.splits
      dest!: applyOptionsEnv_fields)

lemma Finalize_cases:
  assumes "Finalize en sd environ h c pre = Ret (h', c', e)"
  obtains c1 e1 where
    "applyEnv sd environ h (applyDefaults (c\<lparr>cfg_finalized := False, cfg_Env := NewEnv en pre\<rparr>)) =
       (h', c1, e1)"
    "(e = e1 \<and> e1 \<noteq> None \<and> c' = c1) \<or>
     (e1 = None \<and> e \<noteq> None \<and> validate c1 = Ret e \<and> c' = c1) \<or>
     (e1 = None \<and> e = None \<and> validate c1 = Ret None \<and> c' = c1\<lparr>cfg_finalized := True\<rparr>)"
  using assms
  by (auto simp: Finalize_def Let_def split: prod.splits if_splits go.splits option.splits)

lemma applyDefaults_finalized [simp]: "cfg_finalized (applyDefaults c) = cfg_finalized c"
  by (simp add: applyDefaults_def Let_def)

lemma applyDefaults_timeouts [simp]:
  "cfg_RequestTimeout (applyDefaults c) \<noteq> None" "cfg_ReadIdleTimeout (applyDefaults c) \<noteq> None"
  by (simp_all add: applyDefaults_def Let_def)

lemma applyEnv_timeouts:
  assumes "applyEnv sd environ h c = (h', c', None)"
    and sd: "\<And>environ d name d'. sd environ (Some d) name = (d', None) \<Longrightarrow> \<exists>d0. d' = Some d0"
    and "cfg_RequestTimeout c \<noteq> None" "cfg_ReadIdleTimeout c \<noteq> None"
  shows "cfg_RequestTimeout c' \<noteq> None \<and> cfg_ReadIdleTimeout c' \<noteq> None"
  using assms
  by (auto simp: applyEnv_def Let_def split: if_splits sum.splits prod.splits
      dest!: applyOptionsEnv_fields)

section \<open>Properties\<close>

definition refers :: "maps \<Rightarrow> Config \<Rightarrow> bool" where
  "refers h c \<longleftrightarrow> (case cfg_Options c of None \<Rightarrow> True | Some a \<Rightarrow> a < length h)"

lemma map_of_rev_distinct: "distinct (map fst xs) \<Longrightarrow> map_of (rev xs) = map_of xs"
  by (subst map_of_inject_set) (simp_all add: rev_map [symmetric])

lemma options_append: "refers h c \<Longrightarrow> options (h @ ms) (cfg_Options c) = options h (cfg_Options c)"
  by (auto simp: refers_def options_def nth_append split: option.splits)

lemma options_fresh [simp]: "options (h @ [m]) (Some (length h)) = m"
  by (simp add: options_def)

text \<open>A conditional write of a field is a write of a conditional value, so Merge is one overlay.\<close>

lemma conditional_writes:
  fixes c :: Config
  shows "(if b then c\<lparr>cfg_Endpoint := s\<rparr> else c) = c\<lparr>cfg_Endpoint := if b then s else cfg_Endpoint c\<rparr>"
    "(if b then c\<lparr>cfg_Container := s\<rparr> else c) = c\<lparr>cfg_Container := if b then s else cfg_Container c\<rparr>"
    "(if b then c\<lparr>cfg_Account := s\<rparr> else c) = c\<lparr>cfg_Account := if b then s else cfg_Account c\<rparr>"
    "(if b then c\<lparr>cfg_Key := s\<rparr> else c) = c\<lparr>cfg_Key := if b then s else cfg_Key c\<rparr>"
    "(if b then c\<lparr>cfg_MaxObjectSize := n\<rparr> else c) =
       c\<lparr>cfg_MaxObjectSize := if b then n else cfg_MaxObjectSize c\<rparr>"
    "(if b then c\<lparr>cfg_ListPageSize := n\<rparr> else c) =
       c\<lparr>cfg_ListPageSize := if b then n else cfg_ListPageSize c\<rparr>"
    "(if b then c\<lparr>cfg_RequestTimeout := d\<rparr> else c) =
       c\<lparr>cfg_RequestTimeout := if b then d else cfg_RequestTimeout c\<rparr>"
    "(if b then c\<lparr>cfg_ReadIdleTimeout := d\<rparr> else c) =
       c\<lparr>cfg_ReadIdleTimeout := if b then d else cfg_ReadIdleTimeout c\<rparr>"
  by simp_all

definition overlay :: "Config \<Rightarrow> Config \<Rightarrow> Config" where
  "overlay c src = c\<lparr>
     cfg_Endpoint := if cfg_Endpoint src \<noteq> [] then cfg_Endpoint src else cfg_Endpoint c,
     cfg_Container := if cfg_Container src \<noteq> [] then cfg_Container src else cfg_Container c,
     cfg_Account := if cfg_Account src \<noteq> [] then cfg_Account src else cfg_Account c,
     cfg_Key := if cfg_Key src \<noteq> [] then cfg_Key src else cfg_Key c,
     cfg_MaxObjectSize :=
       if cfg_MaxObjectSize src \<noteq> 0 then cfg_MaxObjectSize src else cfg_MaxObjectSize c,
     cfg_ListPageSize := if cfg_ListPageSize src \<noteq> 0 then cfg_ListPageSize src else cfg_ListPageSize c,
     cfg_RequestTimeout :=
       if cfg_RequestTimeout src \<noteq> None then cfg_RequestTimeout src else cfg_RequestTimeout c,
     cfg_ReadIdleTimeout :=
       if cfg_ReadIdleTimeout src \<noteq> None then cfg_ReadIdleTimeout src else cfg_ReadIdleTimeout c\<rparr>"

lemma overlay_Options: "cfg_Options (overlay c src) = cfg_Options c"
  by (simp add: overlay_def)

lemma Merge_eq:
  assumes "refers h src"
  shows "Merge h c src =
    (if options h (cfg_Options src) = [] then (h, overlay c src)
     else (h @ [updates (options h (cfg_Options src)) (options h (cfg_Options c))],
       (overlay c src)\<lparr>cfg_Options := Some (length h)\<rparr>))"
  using assms
  by (cases "options h (cfg_Options src) = []")
    (simp_all add: Merge_def Let_def conditional_writes overlay_def cloneOrMake_eq maps_Copy_fresh
      options_append cong: if_cong split del: if_split)

text \<open>
  C19: \<open>Merge\<close> overlays exactly the fields the source sets, and the options key by key with the
  source's values winning; it writes to no map that existed before, so no Config that shares a map
  with the receiver or the source changes.
\<close>

theorem Merge_overlays:
  assumes "refers h c" "refers h src" "distinct (map fst (options h (cfg_Options src)))"
    and "Merge h c src = (h', c')"
  shows "extends h h' \<and>
    map_of (options h' (cfg_Options c')) =
      map_of (options h (cfg_Options c)) ++ map_of (options h (cfg_Options src)) \<and>
    cfg_Endpoint c' = (if cfg_Endpoint src \<noteq> [] then cfg_Endpoint src else cfg_Endpoint c) \<and>
    cfg_Container c' = (if cfg_Container src \<noteq> [] then cfg_Container src else cfg_Container c) \<and>
    cfg_Account c' = (if cfg_Account src \<noteq> [] then cfg_Account src else cfg_Account c) \<and>
    cfg_Key c' = (if cfg_Key src \<noteq> [] then cfg_Key src else cfg_Key c) \<and>
    cfg_MaxObjectSize c' =
      (if cfg_MaxObjectSize src \<noteq> 0 then cfg_MaxObjectSize src else cfg_MaxObjectSize c) \<and>
    cfg_ListPageSize c' =
      (if cfg_ListPageSize src \<noteq> 0 then cfg_ListPageSize src else cfg_ListPageSize c) \<and>
    cfg_RequestTimeout c' =
      (if cfg_RequestTimeout src \<noteq> None then cfg_RequestTimeout src else cfg_RequestTimeout c) \<and>
    cfg_ReadIdleTimeout c' =
      (if cfg_ReadIdleTimeout src \<noteq> None then cfg_ReadIdleTimeout src else cfg_ReadIdleTimeout c) \<and>
    cfg_finalized c' = cfg_finalized c"
proof -
  have fields: "\<exists>r. c' = (overlay c src)\<lparr>cfg_Options := r\<rparr>"
    using assms(4) by (cases "options h (cfg_Options src) = []")
      (auto simp: Merge_eq [OF assms(2)] intro: exI [of _ "cfg_Options (overlay c src)"])
  have "extends h h' \<and> map_of (options h' (cfg_Options c')) =
      map_of (options h (cfg_Options c)) ++ map_of (options h (cfg_Options src))"
    using assms(4)
    by (cases "options h (cfg_Options src) = []")
      (auto simp: Merge_eq [OF assms(2)] map_of_updates map_of_rev_distinct [OF assms(3)]
        overlay_Options)
  with fields show ?thesis by (elim exE) (simp add: overlay_def split del: if_split)
qed

text \<open>Two configurations that share one options map.\<close>

definition sample_maps :: maps where "sample_maps = [[(''a'', ''1''), (''b'', ''2'')], [(''b'', ''3'')]]"

definition sample_config :: Config where
  "sample_config = \<lparr>cfg_Endpoint = [], cfg_Container = ''box'', cfg_Account = [], cfg_Key = [],
     cfg_Options = Some 0, cfg_MaxObjectSize = 0, cfg_ListPageSize = 0, cfg_RequestTimeout = None,
     cfg_ReadIdleTimeout = None, cfg_Env = NewEnv (\<lambda>_ _. []) [], cfg_finalized = False\<rparr>"

theorem Merge_overlays_witness:
  "\<exists>h' c'. Merge sample_maps sample_config (sample_config\<lparr>cfg_Options := Some 1\<rparr>) = (h', c') \<and>
     extends sample_maps h' \<and> map_of (options h' (cfg_Options c')) ''b'' = Some ''3'' \<and>
     map_of (options h' (cfg_Options c')) ''a'' = Some ''1''"
proof -
  obtain h' c' where m: "Merge sample_maps sample_config (sample_config\<lparr>cfg_Options := Some 1\<rparr>) = (h', c')"
    by fastforce
  from Merge_overlays [OF _ _ _ m] m show ?thesis
    by (simp add: refers_def options_def sample_config_def sample_maps_def map_add_def)
qed

lemma Finalize_result:
  assumes "Finalize en sd environ h c pre = Ret (h', c', e)"
  shows "extends h h'" "cfg_finalized c' \<longleftrightarrow> e = None" "e = None \<longrightarrow> config_valid c'"
proof -
  from assms have "extends h h' \<and> (cfg_finalized c' \<longleftrightarrow> e = None) \<and> (e = None \<longrightarrow> config_valid c')"
  proof (cases rule: Finalize_cases)
    case (1 c1 e1)
    from applyEnv_extends [OF 1(1)] applyEnv_finalized [OF 1(1)] 1(2) show ?thesis
      by (auto simp: validate_None) (auto simp: config_valid_def)
  qed
  then show "extends h h'" "cfg_finalized c' \<longleftrightarrow> e = None" "e = None \<longrightarrow> config_valid c'" by blast+
qed

text \<open>
  C18: a Finalize that returns nil leaves a finalized configuration that is valid: it names a
  container, its sizes are not negative and its timeouts are positive. A Finalize that returns an
  error leaves it not finalized, even when it was before. Either way no map that existed before is
  written.
\<close>

theorem Finalize_outcome:
  assumes "Finalize en sd environ h c pre = Ret (h', c', e)"
  shows "extends h h' \<and> (cfg_finalized c' \<longleftrightarrow> e = None) \<and> (e = None \<longrightarrow> config_valid c')"
  using Finalize_result [OF assms] by blast

definition keepDuration :: setDuration where
  "keepDuration environ d name = (d, None)"

lemma sample_Finalize:
  "\<exists>h' c'. Finalize (\<lambda>_ _. []) keepDuration [] sample_maps sample_config [] = Ret (h', c', None)"
  by (simp add: Finalize_def applyDefaults_def applyEnv_def overrideString_def overrideInt_def
        getenv_def NewEnv_def applyOptionsEnv_def keepDuration_def validate_def sample_config_def
        defaultRequestTimeout_def defaultReadIdleTimeout_def)

theorem Finalize_outcome_witness:
  "\<exists>h' c'. Finalize (\<lambda>_ _. []) keepDuration [] sample_maps sample_config [] = Ret (h', c', None) \<and>
     cfg_finalized c' \<and> config_valid c'"
proof -
  from sample_Finalize obtain h' c' where
    f: "Finalize (\<lambda>_ _. []) keepDuration [] sample_maps sample_config [] = Ret (h', c', None)" by blast
  from Finalize_outcome [OF f] f show ?thesis by blast
qed

text \<open>
  Finalize never dereferences a nil duration, given that go-core's \<open>SetDurationFromEnv\<close> leaves a
  duration set when it succeeds on one that is set.
\<close>

theorem Finalize_no_panic:
  assumes "\<And>environ d name d'. sd environ (Some d) name = (d', None) \<Longrightarrow> \<exists>d0. d' = Some d0"
  shows "Finalize en sd environ h c pre \<noteq> Panic p"
proof -
  let ?c = "applyDefaults (c\<lparr>cfg_finalized := False, cfg_Env := NewEnv en pre\<rparr>)"
  obtain h' c' e where env: "applyEnv sd environ h ?c = (h', c', e)" by (metis prod_cases3)
  show ?thesis
  proof (cases e)
    case None
    with env have "applyEnv sd environ h ?c = (h', c', None)" by simp
    from applyEnv_timeouts [OF this assms] have "validate c' \<noteq> Panic p" for p
      using validate_no_panic by simp
    with env None show ?thesis by (auto simp: Finalize_def split: go.splits option.splits)
  next
    case (Some x)
    with env show ?thesis by (simp add: Finalize_def)
  qed
qed

theorem Finalize_no_panic_witness:
  "Finalize (\<lambda>_ _. ''N'') keepDuration [''N=5''] sample_maps sample_config ''app'' \<noteq> Panic ''p''"
  using Finalize_no_panic [of keepDuration "\<lambda>_ _. ''N''" "[''N=5'']" sample_maps sample_config "''app''" "''p''"]
  by (simp add: keepDuration_def)

text \<open>
  C20: the option overrides. For each variable of the environment that carries the prefix and an
  underscore, a well-formed option key and a non-empty value, the option of the lower-cased key is
  set, the last such variable winning; every other option is as before, and no map that existed
  before is written.
\<close>

theorem applyOptionsEnv_sets:
  assumes "refers h c" and "env_Options (cfg_Env c) = pre" "pre \<noteq> []"
    and "applyOptionsEnv environ h c = (h', c')"
  shows "extends h h' \<and> c' = c\<lparr>cfg_Options := cfg_Options c'\<rparr> \<and>
    map_of (options h' (cfg_Options c')) = map_of (options h (cfg_Options c)) ++
      map_of (rev (List.map_filter (optionVar (pre @ ''_'')) environ))"
  using assms
  by (auto simp: applyOptionsEnv_def optionsLoop_eq Let_def map_of_updates split: if_splits)

theorem applyOptionsEnv_sets_witness:
  "\<exists>h' c'. applyOptionsEnv [''P_MAX_RETRIES=4'', ''P_lower=1''] sample_maps
     (sample_config\<lparr>cfg_Env := NewEnv (\<lambda>_ _. ''P'') []\<rparr>) = (h', c') \<and>
     map_of (options h' (cfg_Options c')) = [''a'' \<mapsto> ''1'', ''b'' \<mapsto> ''2'', ''max_retries'' \<mapsto> ''4'']"
proof -
  let ?c = "sample_config\<lparr>cfg_Env := NewEnv (\<lambda>_ _. ''P'') []\<rparr>"
  obtain h' c' where a: "applyOptionsEnv [''P_MAX_RETRIES=4'', ''P_lower=1''] sample_maps ?c = (h', c')"
    by fastforce
  have v: "List.map_filter (optionVar (''P'' @ ''_'')) [''P_MAX_RETRIES=4'', ''P_lower=1''] =
      [(''max_retries'', ''4'')]" by code_simp
  have r: "refers sample_maps ?c" "env_Options (cfg_Env ?c) = ''P''"
    "options sample_maps (cfg_Options ?c) = [(''a'', ''1''), (''b'', ''2'')]"
    by (simp_all add: refers_def options_def sample_config_def sample_maps_def NewEnv_def)
  from applyOptionsEnv_sets [OF r(1,2) _ a, unfolded v r(3)]
  have "map_of (options h' (cfg_Options c')) =
      map_of [(''a'', ''1''), (''b'', ''2'')] ++ map_of (rev [(''max_retries'', ''4'')])" by simp
  also have "\<dots> = [''a'' \<mapsto> ''1'', ''b'' \<mapsto> ''2'', ''max_retries'' \<mapsto> ''4'']" by (auto simp: fun_eq_iff)
  finally show ?thesis using a by blast
qed

end
