(* ===== verification/Store.thy ===== *)
theory Store
  imports Client_API Limit_Reader Idle_Reader Config
begin

text \<open>
  \<open>store.go\<close>: the lifecycle wrapper over a provider's client. A Store is the value of its fields;
  the state of the client it wraps is passed beside it, because the client is shared. The
  operations below run without interference; \<open>Lifecycle\<close> has Start and Shutdown interleaved.
\<close>

section \<open>State and construction\<close>

record Store =
  st_container :: string
  st_maxObjectSize :: int
  st_listPageSize :: int
  st_requestTimeout :: int
  st_readIdle :: int
  st_started :: bool
  st_shut :: bool

text \<open>\<open>New\<close>; a nil client is \<open>None\<close>.\<close>

definition New :: "'cl option \<Rightarrow> Config \<Rightarrow> Store go" where
  "New c cfg =
     (if c = None then Panic ''storage: nil client''
      else if \<not> cfg_finalized cfg then
        Panic ''storage: Config not finalized: call Finalize before New''
      else case (cfg_RequestTimeout cfg, cfg_ReadIdleTimeout cfg) of
        (Some rt, Some ri) \<Rightarrow>
          Ret \<lparr>st_container = cfg_Container cfg, st_maxObjectSize = cfg_MaxObjectSize cfg,
               st_listPageSize = cfg_ListPageSize cfg, st_requestTimeout = rt, st_readIdle = ri,
               st_started = False, st_shut = False\<rparr>
      | _ \<Rightarrow> Panic ''nil pointer dereference'')"

section \<open>Lifecycle\<close>

text \<open>
  \<open>startFailure\<close>: \<open>shut\<close> and \<open>ctxErr\<close> are what \<open>isShut\<close> and \<open>ctx.Err\<close> report when it asks.
\<close>

definition startFailure :: "bool \<Rightarrow> err option \<Rightarrow> err \<Rightarrow> err" where
  "startFailure shut ctxErr e =
     (if shut then ErrNotReady
      else case ctxErr of
        Some ce \<Rightarrow>
          if errors_Is e ce \<and> \<not> errors_Is e ErrUnavailable then e
          else Errorf ''storage.Store.startFailure'' ''%w: %v'' [] [ce] [e]
      | None \<Rightarrow> if errors_Is e ErrUnavailable then e else dual ErrUnavailable e)"

text \<open>
  \<open>Start\<close> at the time \<open>now\<close> under the caller's context \<open>x\<close>; \<open>ctxErr\<close> is what the caller's context
  reports when a failure is classified.
\<close>

definition Start ::
  "('c, 'b, 'g) Client \<Rightarrow> Store \<Rightarrow> 'c \<Rightarrow> time \<Rightarrow> ctx \<Rightarrow> err option \<Rightarrow> err option \<times> Store \<times> 'c" where
  "Start cl s c now x ctxErr =
     (if st_shut s then (Some ErrNotReady, s, c)
      else
        let startCtx = withTimeout now x (st_requestTimeout s);
            (e1, c1) = cl_EnsureContainer cl c startCtx in
        case e1 of
          Some e \<Rightarrow> (Some (startFailure (st_shut s) ctxErr e), s, c1)
        | None \<Rightarrow>
          if st_shut s then (Some ErrNotReady, s, c1)
          else
            let (e2, c2) = cl_Probe cl c1 startCtx in
            case e2 of
              Some e \<Rightarrow> (Some (startFailure (st_shut s) ctxErr e), s, c2)
            | None \<Rightarrow>
              if st_shut s then (Some ErrNotReady, s, c2)
              else (None, s\<lparr>st_started := True\<rparr>, c2))"

definition Shutdown :: "('c, 'b, 'g) Client \<Rightarrow> Store \<Rightarrow> 'c \<Rightarrow> err option \<times> Store \<times> 'c" where
  "Shutdown cl s c =
     (let already = st_shut s;
          s' = s\<lparr>st_shut := True, st_started := False\<rparr> in
      if already then (None, s', c)
      else case cl_Close cl of
        Some close \<Rightarrow> (let (e, c') = close c in (e, s', c'))
      | None \<Rightarrow> (None, s', c))"

definition Ready :: "('c, 'b, 'g) Client \<Rightarrow> Store \<Rightarrow> 'c \<Rightarrow> time \<Rightarrow> bool \<times> 'c" where
  "Ready cl s c now =
     (if \<not> st_started s then (False, c)
      else let (e, c') = cl_Probe cl c (withTimeout now background (st_requestTimeout s))
           in (e = None, c'))"

section \<open>Put\<close>

text \<open>
  The body the provider is handed: the caller's reader inside the reader that bounds it
  (\<open>bounded\<close>), inside the reader that holds it to the declared size (\<open>sized\<close>), each when it applies.
\<close>

datatype 'r putBody =
    Plain 'r
  | Bounded "'r limitReader"
  | Sized "'r limitReader"
  | SizedBounded "'r limitReader limitReader"

fun putBody_Read :: "'r rd \<Rightarrow> 'r putBody rd" where
  "putBody_Read rd (Plain r) m =
     map_option (\<lambda>(bs, e, r'). (bs, e, Plain r')) (rd r m)"
| "putBody_Read rd (Bounded l) m =
     map_option (\<lambda>(bs, e, l'). (bs, e, Bounded l')) (limitReader_Read rd l m)"
| "putBody_Read rd (Sized l) m =
     map_option (\<lambda>(bs, e, l'). (bs, e, Sized l')) (limitReader_Read rd l m)"
| "putBody_Read rd (SizedBounded l) m =
     map_option (\<lambda>(bs, e, l'). (bs, e, SizedBounded l'))
       (limitReader_Read (limitReader_Read rd) l m)"

definition boundLong :: "int \<Rightarrow> err" where
  "boundLong n = newError ''storage.Store.Put''
     ''body exceeds the configured max object size (%d bytes)'' [VInt n]"

definition sizeLong :: "int \<Rightarrow> err" where
  "sizeLong n = newError ''storage.Store.Put''
     ''body is longer than the declared size (%d bytes)'' [VInt n]"

definition wrapBody :: "Store \<Rightarrow> 'r \<Rightarrow> PutOptions \<Rightarrow> 'r putBody" where
  "wrapBody s body opts =
     (if st_maxObjectSize s > 0 then
        (let bounded = newLimitReader body (st_maxObjectSize s) False (boundLong (st_maxObjectSize s)) in
         if po_Size opts > 0
         then SizedBounded (newLimitReader bounded (po_Size opts) True (sizeLong (po_Size opts)))
         else Bounded bounded)
      else if po_Size opts > 0
        then Sized (newLimitReader body (po_Size opts) True (sizeLong (po_Size opts)))
      else Plain body)"

text \<open>What \<open>bounded.tripped\<close> with \<open>bounded.err\<close>, and \<open>sized.tripped\<close> with \<open>sized.err\<close>, say.\<close>

definition tripErr :: "'r limitReader \<Rightarrow> err option" where
  "tripErr l = (if lr_tripped l then lr_err l else None)"

fun boundedErr :: "'r putBody \<Rightarrow> err option" where
  "boundedErr (Bounded l) = tripErr l"
| "boundedErr (SizedBounded l) = tripErr (lr_r l)"
| "boundedErr _ = None"

fun sizedErr :: "'r putBody \<Rightarrow> err option" where
  "sizedErr (Sized l) = tripErr l"
| "sizedErr (SizedBounded l) = tripErr l"
| "sizedErr _ = None"

text \<open>The caller's reader inside.\<close>

fun innerBody :: "'r putBody \<Rightarrow> 'r" where
  "innerBody (Plain r) = r"
| "innerBody (Bounded l) = lr_r l"
| "innerBody (Sized l) = lr_r l"
| "innerBody (SizedBounded l) = lr_r (lr_r l)"

definition errOf :: "err + 'a \<Rightarrow> err option" where
  "errOf r = (case r of Inl e \<Rightarrow> Some e | Inr _ \<Rightarrow> None)"

definition Put ::
  "('c, 'r putBody, 'g) Client \<Rightarrow> Store \<Rightarrow> 'c \<Rightarrow> ctx \<Rightarrow> string \<Rightarrow> 'r \<Rightarrow> PutOptions \<Rightarrow>
     ((err + Object) \<times> 'c \<times> 'r) option" where
  "Put cl s c x key body opts =
     (if \<not> st_started s then Some (Inl ErrNotReady, c, body)
      else case keyError (cl_Capabilities cl c) key of
        Some e \<Rightarrow> Some (Inl e, c, body)
      | None \<Rightarrow>
        if po_Size opts < 0 then
          Some (Inl (newError ''storage.Store.Put'' ''invalid put size: %d'' [VInt (po_Size opts)]), c, body)
        else if st_maxObjectSize s > 0 \<and> po_Size opts > st_maxObjectSize s then
          Some (Inl (Errorf ''storage.Store.Put''
            ''%w: declared size %d exceeds the configured max object size (%d bytes)''
            [VInt (po_Size opts), VInt (st_maxObjectSize s)] [ErrTooLarge] []), c, body)
        else
          do { (r, c', b') \<leftarrow> cl_Put cl c x key (wrapBody s body opts) opts;
               Some (case boundedErr b' of
                   Some t \<Rightarrow> (Inl (dual ErrTooLarge (readFailure t (errOf r))), c', innerBody b')
                 | None \<Rightarrow> (case sizedErr b' of
                     Some t \<Rightarrow> (Inl (readFailure t (errOf r)), c', innerBody b')
                   | None \<Rightarrow> (r, c', innerBody b'))) })"

section \<open>The other operations\<close>

text \<open>\<open>expires\<close> is the timer's part in the construction of the idle reader.\<close>

definition Get ::
  "('c, 'b, 'g) Client \<Rightarrow> Store \<Rightarrow> 'c \<Rightarrow> bool \<Rightarrow> ctx \<Rightarrow> string \<Rightarrow> (err + 'g idleReader Blob) \<times> 'c" where
  "Get cl s c expires x key =
     (if \<not> st_started s then (Inl ErrNotReady, c)
      else let (r, c') = cl_Get cl c x key in
        case r of
          Inl e \<Rightarrow> (Inl e, c')
        | Inr blob \<Rightarrow>
          (Inr \<lparr>blob_Object = blob_Object blob,
                blob_Body = newIdleReader expires (blob_Body blob) (st_readIdle s)\<rparr>, c'))"

definition Stat :: "('c, 'b, 'g) Client \<Rightarrow> Store \<Rightarrow> 'c \<Rightarrow> ctx \<Rightarrow> string \<Rightarrow> (err + Object) \<times> 'c" where
  "Stat cl s c x key = (if \<not> st_started s then (Inl ErrNotReady, c) else cl_Stat cl c x key)"

definition Delete :: "('c, 'b, 'g) Client \<Rightarrow> Store \<Rightarrow> 'c \<Rightarrow> ctx \<Rightarrow> string \<Rightarrow> err option \<times> 'c" where
  "Delete cl s c x key = (if \<not> st_started s then (Some ErrNotReady, c) else cl_Delete cl c x key)"

definition List_op ::
  "('c, 'b, 'g) Client \<Rightarrow> Store \<Rightarrow> 'c \<Rightarrow> ctx \<Rightarrow> ListOptions \<Rightarrow> (err + Page) \<times> 'c" where
  "List_op cl s c x opts =
     (if \<not> st_started s then (Inl ErrNotReady, c)
      else if lo_Limit opts < 0 then
        (Inl (newError ''storage.Store.List'' ''invalid list limit: %d'' [VInt (lo_Limit opts)]), c)
      else cl_List cl c x
        (if lo_Limit opts = 0 then opts\<lparr>lo_Limit := st_listPageSize s\<rparr> else opts))"

definition EnsureContainer :: "('c, 'b, 'g) Client \<Rightarrow> Store \<Rightarrow> 'c \<Rightarrow> ctx \<Rightarrow> err option \<times> 'c" where
  "EnsureContainer cl s c x = cl_EnsureContainer cl c x"

definition Probe :: "('c, 'b, 'g) Client \<Rightarrow> Store \<Rightarrow> 'c \<Rightarrow> ctx \<Rightarrow> err option \<times> 'c" where
  "Probe cl s c x = (if \<not> st_started s then (Some ErrNotReady, c) else cl_Probe cl c x)"

definition Capabilities_op :: "('c, 'b, 'g) Client \<Rightarrow> Store \<Rightarrow> 'c \<Rightarrow> Capabilities" where
  "Capabilities_op cl s c = cl_Capabilities cl c"

definition Container :: "Store \<Rightarrow> string" where
  "Container s = st_container s"

text \<open>
  The Store as a \<open>Client\<close>: its state is its own fields and the provider's state. It is not an
  \<open>io.Closer\<close>.
\<close>

definition store_client ::
  "bool \<Rightarrow> ('c, 'r putBody, 'g) Client \<Rightarrow> (Store \<times> 'c, 'r, 'g idleReader) Client" where
  "store_client expires cl =
     \<lparr>cl_Put = (\<lambda>(s, c) x k b opts.
        map_option (\<lambda>(r, c', b'). (r, (s, c'), b')) (Put cl s c x k b opts)),
      cl_Get = (\<lambda>(s, c) x k. let (r, c') = Get cl s c expires x k in (r, (s, c'))),
      cl_Stat = (\<lambda>(s, c) x k. let (r, c') = Stat cl s c x k in (r, (s, c'))),
      cl_Delete = (\<lambda>(s, c) x k. let (r, c') = Delete cl s c x k in (r, (s, c'))),
      cl_List = (\<lambda>(s, c) x lo. let (r, c') = List_op cl s c x lo in (r, (s, c'))),
      cl_EnsureContainer = (\<lambda>(s, c) x. let (r, c') = EnsureContainer cl s c x in (r, (s, c'))),
      cl_Probe = (\<lambda>(s, c) x. let (r, c') = Probe cl s c x in (r, (s, c'))),
      cl_Capabilities = (\<lambda>(s, c). Capabilities_op cl s c), cl_Close = None\<rparr>"

section \<open>The wrapped body\<close>

lemma shortBody_not_EOF: "\<not> errors_Is (shortBody site n m) EOF"
  by (simp add: shortBody_def)

lemma long_not_EOF: "\<not> errors_Is (boundLong n) EOF" "\<not> errors_Is (sizeLong n) EOF"
  by (simp_all add: boundLong_def sizeLong_def)

context io_reader
begin

lemma newLimitReader_live: "0 < n \<Longrightarrow> n \<le> maxInt64 \<Longrightarrow> lr_live (newLimitReader r n exact long)"
  by (simp add: lr_live_def newLimitReader_def)

text \<open>
  A complete reading of the body the provider is handed: when neither reader tripped it is a
  complete reading of the caller's body within both limits, and when one did it did not end well.
\<close>

lemma wrapBody_drains:
  assumes dr: "drains (putBody_Read rd) (wrapBody s body opts) d e b'"
    and rng: "st_maxObjectSize s \<le> maxInt64" "po_Size opts \<le> maxInt64"
  shows "if boundedErr b' = None \<and> sizedErr b' = None
    then drains rd body d e (innerBody b') \<and>
      (0 < st_maxObjectSize s \<longrightarrow> int (length d) \<le> st_maxObjectSize s) \<and>
      (0 < po_Size opts \<longrightarrow> errors_Is e EOF \<longrightarrow> int (length d) = po_Size opts)
    else \<not> errors_Is e EOF"
proof (cases "0 < st_maxObjectSize s"; cases "0 < po_Size opts")
  assume pos: "0 < st_maxObjectSize s" "0 < po_Size opts"
  let ?l = "newLimitReader body (st_maxObjectSize s) False (boundLong (st_maxObjectSize s))"
  let ?L = "newLimitReader ?l (po_Size opts) True (sizeLong (po_Size opts))"
  from dr pos obtain L where b': "b' = SizedBounded L"
    and L: "drains (limitReader_Read (limitReader_Read rd)) ?L d e L"
    by (auto simp: wrapBody_def dest!: drains_embed [where C = SizedBounded, rotated])
  note outer = io_reader.limitReader_drains [OF limitReader_io L]
  have "io_reader.lr_live ?L"
    using pos rng by (intro io_reader.newLimitReader_live [OF limitReader_io]) simp_all
  note outer = outer [OF this]
  show ?thesis
  proof (cases "lr_tripped L")
    case True
    with outer show ?thesis
      by (auto simp: b' tripErr_def shortBody_not_EOF long_not_EOF newLimitReader_def)
  next
    case False
    with outer have "drains (limitReader_Read rd) ?l d e (lr_r L)"
      by (simp add: newLimitReader_def)
    from limitReader_drains [OF this newLimitReader_live] pos rng False outer show ?thesis
      by (auto simp: b' tripErr_def shortBody_not_EOF long_not_EOF newLimitReader_def split: if_splits)
  qed
next
  assume pos: "0 < st_maxObjectSize s" "\<not> 0 < po_Size opts"
  let ?l = "newLimitReader body (st_maxObjectSize s) False (boundLong (st_maxObjectSize s))"
  from dr pos obtain l where "b' = Bounded l" "drains (limitReader_Read rd) ?l d e l"
    by (auto simp: wrapBody_def dest!: drains_embed [where C = Bounded, rotated])
  with limitReader_drains [OF this(2) newLimitReader_live] pos rng show ?thesis
    by (auto simp: tripErr_def shortBody_not_EOF long_not_EOF newLimitReader_def split: if_splits)
next
  assume pos: "\<not> 0 < st_maxObjectSize s" "0 < po_Size opts"
  let ?l = "newLimitReader body (po_Size opts) True (sizeLong (po_Size opts))"
  from dr pos obtain l where "b' = Sized l" "drains (limitReader_Read rd) ?l d e l"
    by (auto simp: wrapBody_def dest!: drains_embed [where C = Sized, rotated])
  with limitReader_drains [OF this(2) newLimitReader_live] pos rng show ?thesis
    by (auto simp: tripErr_def shortBody_not_EOF long_not_EOF newLimitReader_def split: if_splits)
next
  assume pos: "\<not> 0 < st_maxObjectSize s" "\<not> 0 < po_Size opts"
  with dr obtain r where "b' = Plain r" "drains rd body d e r"
    by (auto simp: wrapBody_def dest!: drains_embed [where C = Plain, rotated])
  with pos show ?thesis by simp
qed

end

section \<open>Properties\<close>

text \<open>A store that has just been constructed, for the examples.\<close>

definition life_store :: Store where
  "life_store = \<lparr>st_container = ''c'', st_maxObjectSize = 0, st_listPageSize = 0,
     st_requestTimeout = second, st_readIdle = second, st_started = False, st_shut = False\<rparr>"


text \<open>A client that is down, whose Close fails with \<open>Canceled\<close>.\<close>

definition down_client :: "(unit, 'b, unit) Client" where
  "down_client =
     \<lparr>cl_Put = (\<lambda>c x k b opts. None), cl_Get = (\<lambda>c x k. (Inl ErrUnavailable, c)),
      cl_Stat = (\<lambda>c x k. (Inl ErrUnavailable, c)), cl_Delete = (\<lambda>c x k. (Some ErrUnavailable, c)),
      cl_List = (\<lambda>c x lo. (Inl ErrUnavailable, c)), cl_EnsureContainer = (\<lambda>c x. (Some EOF, c)),
      cl_Probe = (\<lambda>c x. (Some ErrUnavailable, c)),
      cl_Capabilities = (\<lambda>_. \<lparr>cap_MaxKeyLength = 1, cap_ValidateKey = None\<rparr>),
      cl_Close = Some (\<lambda>c. (Some Canceled, c))\<rparr>"

text \<open>
  C21: how Start classifies a failure. After a Shutdown it is \<open>ErrNotReady\<close> alone. Once the caller's
  context is done, with its error a variable as \<open>context.Canceled\<close> is, the result matches that error
  and not \<open>ErrUnavailable\<close>. Otherwise it matches \<open>ErrUnavailable\<close> and everything the provider's
  error matches, and an error that was classified already is returned as it is.
\<close>

theorem startFailure_classifies:
  assumes "is_var ce" and "ce \<noteq> ErrUnavailable"
  shows "startFailure True ctxErr e = ErrNotReady \<and>
    errors_Is (startFailure False (Some ce) e) ce \<and>
    \<not> errors_Is (startFailure False (Some ce) e) ErrUnavailable \<and>
    errors_Is (startFailure False None e) ErrUnavailable \<and>
    (\<forall>t. errors_Is e t \<longrightarrow> errors_Is (startFailure False None e) t) \<and>
    (errors_Is e ErrUnavailable \<longrightarrow> startFailure False None e = e)"
  using assms
  by (auto simp: startFailure_def errors_Is_dual_head errors_Is_dual_cause errors_Is_var)

theorem startFailure_classifies_witness:
  "errors_Is (startFailure False (Some Canceled) (dual ErrUnavailable Canceled)) Canceled \<and>
   \<not> errors_Is (startFailure False (Some Canceled) (dual ErrUnavailable Canceled)) ErrUnavailable"
  using startFailure_classifies [of Canceled None "dual ErrUnavailable Canceled"] by simp

text \<open>
  C29: a Store that is not started answers every object operation and Probe with \<open>ErrNotReady\<close>, and
  Ready with false, without calling the client or reading the body.
\<close>

theorem not_started_gates:
  assumes "\<not> st_started s"
  shows "Put cl s c x k body opts = Some (Inl ErrNotReady, c, body) \<and>
    Get cl s c ex x k = (Inl ErrNotReady, c) \<and> Stat cl s c x k = (Inl ErrNotReady, c) \<and>
    Delete cl s c x k = (Some ErrNotReady, c) \<and> List_op cl s c x lo = (Inl ErrNotReady, c) \<and>
    Probe cl s c x = (Some ErrNotReady, c) \<and> Ready cl s c now = (False, c)"
  using assms
  by (simp add: Put_def Get_def Stat_def Delete_def List_op_def Probe_def Ready_def)

theorem not_started_gates_witness:
  "Put down_client life_store () background ''k'' (9 :: nat) \<lparr>po_ContentType = [], po_Size = 0\<rparr> =
     Some (Inl ErrNotReady, (), 9)"
  using not_started_gates [where s = life_store and cl = down_client and c = "()" and x = background
      and k = "''k''" and body = "9 :: nat" and opts = "\<lparr>po_ContentType = [], po_Size = 0\<rparr>"]
  by (simp add: life_store_def)

text \<open>
  C28: what a Put refuses without calling the client: a key the provider's \<open>ValidateKey\<close> refuses,
  with that error; a negative size; and a declared size over the bound, which matches
  \<open>ErrTooLarge\<close>. Any other Put of a started store hands the client the wrapped body.
\<close>

theorem Put_refusals:
  assumes "st_started s"
  shows "(case keyError (cl_Capabilities cl c) k of
      Some e \<Rightarrow> Put cl s c x k body opts = Some (Inl e, c, body)
    | None \<Rightarrow>
      if po_Size opts < 0 then
        (\<exists>e. Put cl s c x k body opts = Some (Inl e, c, body) \<and> \<not> errors_Is e ErrTooLarge)
      else if 0 < st_maxObjectSize s \<and> st_maxObjectSize s < po_Size opts then
        (\<exists>e. Put cl s c x k body opts = Some (Inl e, c, body) \<and> errors_Is e ErrTooLarge)
      else (\<forall>r c' b'. cl_Put cl c x k (wrapBody s body opts) opts = Some (r, c', b') \<longrightarrow>
        (\<exists>r'. Put cl s c x k body opts = Some (r', c', innerBody b'))))"
  using assms by (auto simp: Put_def split: option.splits)

theorem Put_refusals_witness:
  "\<exists>e. Put down_client (life_store\<lparr>st_started := True, st_maxObjectSize := 4\<rparr>) () background ''k''
     (9 :: nat) \<lparr>po_ContentType = [], po_Size = 5\<rparr> = Some (Inl e, (), 9) \<and> errors_Is e ErrTooLarge"
  using Put_refusals [where s = "life_store\<lparr>st_started := True, st_maxObjectSize := 4\<rparr>"
      and cl = down_client and c = "()" and x = background and k = "''k''" and body = "9 :: nat"
      and opts = "\<lparr>po_ContentType = [], po_Size = 5\<rparr>"]
  by (simp add: keyError_def down_client_def)

text \<open>
  C24: a configuration that Finalize completed without error is one New accepts, and the Store it
  makes is neither started nor shut, with positive timeouts, sizes that are not negative and a
  container name; New panics on a nil client and on a configuration that is not finalized.
\<close>

theorem New_of_finalized:
  assumes "Finalize en sd environ h c pre = Ret (h', c', None)"
  shows "(\<exists>s. New (Some cl) c' = Ret s \<and> \<not> st_started s \<and> \<not> st_shut s \<and> 0 < st_requestTimeout s \<and>
      0 < st_readIdle s \<and> 0 \<le> st_maxObjectSize s \<and> 0 \<le> st_listPageSize s \<and> Container s \<noteq> []) \<and>
    (\<exists>p. New (None :: 'cl option) c' = Panic p) \<and>
    (\<exists>p. New (Some cl) (c'\<lparr>cfg_finalized := False\<rparr>) = Panic p)"
  using Finalize_result [OF assms] by (auto simp: New_def config_valid_def Container_def)

theorem New_of_finalized_witness:
  "\<exists>c' s. cfg_finalized c' \<and> New (Some ()) c' = Ret s \<and> 0 < st_requestTimeout s"
proof -
  from sample_Finalize obtain h' c' where
    f: "Finalize (\<lambda>_ _. []) keepDuration [] sample_maps sample_config [] = Ret (h', c', None)" by blast
  from New_of_finalized [OF f, of "()"] Finalize_result(2) [OF f] show ?thesis by blast
qed

end
