(* ===== verification/Put_Spec.thy ===== *)
theory Put_Spec
  imports Store
begin

text \<open>
  What \<open>Store.Put\<close> decides about a body, as a specification: the outcome is a function of the size
  bound, the declared size and the stream the body delivers, and the two limiting readers that the
  code puts around the body implement that function, however the provider reads them.
\<close>

section \<open>The wrapped body as a stream\<close>

fun pb_ok :: "('r \<Rightarrow> bool) \<Rightarrow> 'r putBody \<Rightarrow> bool" where
  "pb_ok ok (Plain r) = ok r"
| "pb_ok ok (Bounded l) = lr_inv ok l"
| "pb_ok ok (Sized l) = lr_inv ok l"
| "pb_ok ok (SizedBounded l) = lr_inv (lr_inv ok) l"

fun pb_rest :: "('r \<Rightarrow> bytes) \<Rightarrow> 'r putBody \<Rightarrow> bytes" where
  "pb_rest rest (Plain r) = rest r"
| "pb_rest rest (Bounded l) = lr_rest rest l"
| "pb_rest rest (Sized l) = lr_rest rest l"
| "pb_rest rest (SizedBounded l) = lr_rest (lr_rest rest) l"

fun pb_fin :: "('r \<Rightarrow> bytes) \<Rightarrow> ('r \<Rightarrow> err) \<Rightarrow> 'r putBody \<Rightarrow> err" where
  "pb_fin rest fin (Plain r) = fin r"
| "pb_fin rest fin (Bounded l) = lr_fin rest fin l"
| "pb_fin rest fin (Sized l) = lr_fin rest fin l"
| "pb_fin rest fin (SizedBounded l) = lr_fin (lr_rest rest) (lr_fin rest fin) l"

fun pb_steps :: "('r \<Rightarrow> nat) \<Rightarrow> 'r putBody \<Rightarrow> nat" where
  "pb_steps steps (Plain r) = steps r"
| "pb_steps steps (Bounded l) = lr_steps steps l"
| "pb_steps steps (Sized l) = lr_steps steps l"
| "pb_steps steps (SizedBounded l) = lr_steps (lr_steps steps) l"

context stream_reader
begin

lemmas limited = limitReader_stream
lemmas limited2 = stream_reader.limitReader_stream [OF limitReader_stream]

lemma putBody_stream:
  "stream_reader (putBody_Read rd) (pb_ok ok) (pb_rest rest) (pb_fin rest fin) (pb_steps steps)"
proof (unfold_locales, goal_cases)
  case (1 b m)
  then show ?case
    using returns stream_reader.returns [OF limited] stream_reader.returns [OF limited2]
    by (cases b) simp_all
next
  case (2 b m bs e b')
  then show ?case
    using bounded stream_reader.bounded [OF limited] stream_reader.bounded [OF limited2]
    by (cases b) auto
next
  case (3 b m bs b')
  then show ?case
    using more stream_reader.more [OF limited] stream_reader.more [OF limited2]
    by (cases b) auto
next
  case (4 b m bs e b')
  then show ?case
    using stop stream_reader.stop [OF limited] stream_reader.stop [OF limited2]
    by (cases b) auto
qed

end

section \<open>The outcome\<close>

datatype outcome = TooLarge | TooLong | TooShort | BodyFails err | Complete

text \<open>
  The outcome of a body that delivers \<open>d\<close> and ends with \<open>e\<close>, under a bound \<open>mx\<close> (0 for none) and a
  declared size \<open>sz\<close> (0 for none).
\<close>

definition put_outcome :: "int \<Rightarrow> int \<Rightarrow> bytes \<Rightarrow> err \<Rightarrow> outcome" where
  "put_outcome mx sz d e =
     (if 0 < mx \<and> mx < int (length d) \<and> (sz = 0 \<or> sz = mx) then TooLarge
      else if 0 < sz \<and> sz < int (length d) then TooLong
      else if 0 < sz \<and> int (length d) < sz \<and> errors_Is e EOF then TooShort
      else if e = EOF then Complete
      else BodyFails e)"

definition shortPut :: "bytes \<Rightarrow> int \<Rightarrow> err" where
  "shortPut d sz = shortBody ''storage.limitReader.Read'' (int (length d)) sz"

text \<open>What each outcome leaves in the two readers, and what the provider's reading ends with.\<close>

fun outcome_trips :: "int \<Rightarrow> int \<Rightarrow> bytes \<Rightarrow> outcome \<Rightarrow> err option \<times> err option \<times> err" where
  "outcome_trips mx sz d TooLarge = (Some (boundLong mx), None, boundLong mx)"
| "outcome_trips mx sz d TooLong = (None, Some (sizeLong sz), sizeLong sz)"
| "outcome_trips mx sz d TooShort = (None, Some (shortPut d sz), shortPut d sz)"
| "outcome_trips mx sz d (BodyFails e) = (None, None, e)"
| "outcome_trips mx sz d Complete = (None, None, EOF)"


lemmas wrap_spec_defs = newLimitReader_def lr_spec_defs tripErr_def shortPut_def put_outcome_def

lemma tripErr_drains:
  assumes "stream_reader rd ok rest fin steps"
    and "drains (limitReader_Read rd) l d e l'" and "lr_inv ok l"
  shows "lr_tripped l' = lr_trips rest fin l \<and>
    tripErr l' = (if lr_trips rest fin l then Some e else None) \<and>
    d = lr_rest rest l \<and> e = lr_fin rest fin l"
  using stream_reader.limitReader_tripped [OF assms]
    stream_reader.drains_content [OF stream_reader.limitReader_stream [OF assms(1)] assms(2,3)]
  by (auto simp: tripErr_def)

lemma wrapBody_outcome:
  assumes str: "stream_reader rd ok rest fin steps" and io: "io_reader rd" and ok: "ok body"
    and dr: "drains (putBody_Read rd) (wrapBody s body opts) d e b'"
    and mx: "st_maxObjectSize s \<le> maxInt64" and sz: "0 \<le> po_Size opts" "po_Size opts \<le> maxInt64"
    and le: "0 < st_maxObjectSize s \<longrightarrow> po_Size opts \<le> st_maxObjectSize s"
  shows "(boundedErr b', sizedErr b', e) =
      outcome_trips (st_maxObjectSize s) (po_Size opts) (rest body)
        (put_outcome (st_maxObjectSize s) (po_Size opts) (rest body) (fin body)) \<and>
    (put_outcome (st_maxObjectSize s) (po_Size opts) (rest body) (fin body) = Complete \<longrightarrow>
      d = rest body)"
proof (cases "0 < st_maxObjectSize s"; cases "0 < po_Size opts")
  assume pos: "0 < st_maxObjectSize s" "0 < po_Size opts"
  let ?l = "newLimitReader body (st_maxObjectSize s) False (boundLong (st_maxObjectSize s))"
  let ?L = "newLimitReader ?l (po_Size opts) True (sizeLong (po_Size opts))"
  from dr pos obtain L where b': "b' = SizedBounded L"
    and L: "drains (limitReader_Read (limitReader_Read rd)) ?L d e L"
    by (auto simp: wrapBody_def dest!: drains_embed [where C = SizedBounded, rotated])
  have inv: "lr_inv ok ?l" "lr_inv (lr_inv ok) ?L"
    using ok pos mx sz by (auto intro!: lr_inv_new)
  note outer = tripErr_drains [OF stream_reader.limitReader_stream [OF str] L inv(2)]
  have excl: "\<not> (lr_tripped L \<and> lr_tripped (lr_r L))"
    by (rule limitReader_nested_drains [OF L]) (simp_all add: newLimitReader_def long_not_EOF)
  show ?thesis
  proof (cases "lr_tripped L")
    case True
    with outer excl pos le show ?thesis
      by (auto simp: b' wrap_spec_defs long_not_EOF split: if_splits)
  next
    case False
    have "io_reader.lr_live ?L"
      using pos mx sz by (intro io_reader.newLimitReader_live [OF io_reader.limitReader_io [OF io]])
    with io_reader.limitReader_drains [OF io_reader.limitReader_io [OF io] L] False
    have "drains (limitReader_Read rd) ?l d e (lr_r L)" by (simp add: newLimitReader_def)
    from tripErr_drains [OF str this inv(1)] outer False pos le show ?thesis
      by (auto simp: b' wrap_spec_defs long_not_EOF split: if_splits)
  qed
next
  assume pos: "0 < st_maxObjectSize s" "\<not> 0 < po_Size opts"
  let ?l = "newLimitReader body (st_maxObjectSize s) False (boundLong (st_maxObjectSize s))"
  from dr pos obtain l where "b' = Bounded l" "drains (limitReader_Read rd) ?l d e l"
    by (auto simp: wrapBody_def dest!: drains_embed [where C = Bounded, rotated])
  with tripErr_drains [OF str this(2) lr_inv_new] ok pos mx sz show ?thesis
    by (auto simp: wrap_spec_defs split: if_splits)
next
  assume pos: "\<not> 0 < st_maxObjectSize s" "0 < po_Size opts"
  let ?l = "newLimitReader body (po_Size opts) True (sizeLong (po_Size opts))"
  from dr pos obtain l where "b' = Sized l" "drains (limitReader_Read rd) ?l d e l"
    by (auto simp: wrapBody_def dest!: drains_embed [where C = Sized, rotated])
  with tripErr_drains [OF str this(2) lr_inv_new] ok pos mx sz show ?thesis
    by (auto simp: wrap_spec_defs split: if_splits)
next
  assume pos: "\<not> 0 < st_maxObjectSize s" "\<not> 0 < po_Size opts"
  with dr obtain r where "b' = Plain r" "drains rd body d e r"
    by (auto simp: wrapBody_def dest!: drains_embed [where C = Plain, rotated])
  with stream_reader.drains_content [OF str this(2) ok] pos sz show ?thesis
    by (auto simp: wrap_spec_defs)
qed

end
