(* ===== verification/Store_Client.thy ===== *)
theory Store_Client
  imports Put_Spec
begin

text \<open>
  The Store over a provider that meets the contract of \<open>Client\<close> meets the same contract
  (\<open>store_over.store_conforms\<close>), with the idle reader around each Get body, under every behaviour of its
  timer; and what \<open>Put\<close> makes of the provider's result is the specified outcome, whatever the provider
  is (\<open>Put_wrapped\<close>).
\<close>

section \<open>What the provider's reading decides\<close>

text \<open>
  \<open>r\<close> is what the provider's Put returned, \<open>r'\<close> what the Store's Put returns, for a body of the
  outcome \<open>out\<close> and the declared size \<open>sz\<close>.
\<close>

definition wrapped_result :: "int \<Rightarrow> outcome \<Rightarrow> (err + Object) \<Rightarrow> (err + Object) \<Rightarrow> bool" where
  "wrapped_result sz out r r' \<longleftrightarrow>
     (case out of
        TooLarge \<Rightarrow> \<exists>e. r' = Inl e \<and> errors_Is e ErrTooLarge
      | TooLong \<Rightarrow> \<exists>e. r' = Inl e \<and> errors_Is e (sizeLong sz)
      | TooShort \<Rightarrow> \<exists>e. r' = Inl e \<and> errors_Is e ErrUnexpectedEOF
      | BodyFails x \<Rightarrow> r' = r
      | Complete \<Rightarrow> r' = r)"

definition put_accepts :: "Store \<Rightarrow> PutOptions \<Rightarrow> bool" where
  "put_accepts s opts \<longleftrightarrow> st_started s \<and> st_maxObjectSize s \<le> maxInt64 \<and>
     0 \<le> po_Size opts \<and> po_Size opts \<le> maxInt64 \<and>
     (0 < st_maxObjectSize s \<longrightarrow> po_Size opts \<le> st_maxObjectSize s)"

lemma errors_Is_trans: "errors_Is e f \<Longrightarrow> errors_Is f t \<Longrightarrow> errors_Is e t"
  by (induction e) (auto simp: list_ex_iff)

lemma readFailure_Is: "errors_Is (readFailure t p) t"
  by (simp add: readFailure_def dual_def split: option.split)

lemma Put_wrapped:
  assumes "stream_reader rd ok rest fin steps" "io_reader rd" "ok body" "put_accepts s opts"
    "keyError (cl_Capabilities cl c) k = None"
    and put: "cl_Put cl c x k (wrapBody s body opts) opts = Some (r, c', b')"
    and dr: "drains (putBody_Read rd) (wrapBody s body opts) d e b'"
  shows "\<exists>r'. Put cl s c x k body opts = Some (r', c', innerBody b') \<and>
    wrapped_result (po_Size opts)
      (put_outcome (st_maxObjectSize s) (po_Size opts) (rest body) (fin body)) r r'"
proof -
  let ?out = "put_outcome (st_maxObjectSize s) (po_Size opts) (rest body) (fin body)"
  from wrapBody_outcome [OF assms(1-3) dr] assms(4)
  have out: "(boundedErr b', sizedErr b', e) = outcome_trips (st_maxObjectSize s) (po_Size opts) (rest body) ?out"
    by (simp add: put_accepts_def)
  from assms(4,5) put have "Put cl s c x k body opts = Some (case boundedErr b' of
        Some t \<Rightarrow> (Inl (dual ErrTooLarge (readFailure t (errOf r))), c', innerBody b')
      | None \<Rightarrow> (case sizedErr b' of
          Some t \<Rightarrow> (Inl (readFailure t (errOf r)), c', innerBody b')
        | None \<Rightarrow> (r, c', innerBody b')))"
    by (auto simp: Put_def put_accepts_def)
  moreover have "errors_Is (readFailure (shortPut d sz) p) ErrUnexpectedEOF" for d sz p
    by (rule errors_Is_trans [OF readFailure_Is]) (simp add: shortPut_def shortBody_def)
  ultimately show ?thesis
    using out by (cases ?out) (auto simp: wrapped_result_def readFailure_Is dual_def)
qed

section \<open>The Store implements the contract it relies on\<close>

lemma wrapBody_ok:
  assumes "ok body" and "st_maxObjectSize s \<le> maxInt64" "po_Size opts \<le> maxInt64"
  shows "pb_ok ok (wrapBody s body opts)"
  using assms by (auto simp: wrapBody_def intro!: lr_inv_new)

text \<open>A body within the limits is what the provider reads.\<close>

lemma wrapBody_within:
  assumes "fin body = EOF" "fits opts (rest body)"
    and "0 < st_maxObjectSize s \<longrightarrow> int (length (rest body)) \<le> st_maxObjectSize s"
  shows "pb_rest rest (wrapBody s body opts) = rest body \<and> pb_fin rest fin (wrapBody s body opts) = EOF"
  using assms by (auto simp: wrapBody_def wrap_spec_defs fits_def)

text \<open>A page of the Store's listing is a page of the provider's, with the default limit filled in.\<close>

definition limited :: "Store \<Rightarrow> ListOptions \<Rightarrow> ListOptions" where
  "limited s lo = (if lo_Limit lo = 0 then lo\<lparr>lo_Limit := st_listPageSize s\<rparr> else lo)"

lemma limited_simps [simp]:
  "lo_Prefix (limited s lo) = lo_Prefix lo" "lo_Token (limited s lo) = lo_Token lo"
  "limited s (lo\<lparr>lo_Token := tok\<rparr>) = (limited s lo)\<lparr>lo_Token := tok\<rparr>"
  by (simp_all add: limited_def)

lemma List_page:
  "cl_List (store_client expires cl) (s, c) x lo = (Inr page, sc') \<longleftrightarrow>
     st_started s \<and> 0 \<le> lo_Limit lo \<and> (\<exists>c'. sc' = (s, c') \<and> cl_List cl c x (limited s lo) = (Inr page, c'))"
  by (auto simp: store_client_def List_op_def limited_def split: prod.splits)

lemma walk_store:
  "walk (store_client expires cl) x sc lo found \<Longrightarrow> walk cl x (snd sc) (limited (fst sc) lo) found"
proof (induction rule: walk.induct)
  case (walk_last sc lo page sc')
  then show ?case by (cases sc) (auto simp: List_page intro: walk.walk_last)
next
  case (walk_more sc lo page sc' objs)
  then show ?case by (cases sc) (auto simp: List_page intro: walk.walk_more)
qed

locale store_over = io_reader rd + storage_client cl "putBody_Read rd" gread wf up container objs room
  for rd :: "'r rd" and cl :: "('c, 'r putBody, 'g) Client" and gread :: "'g readrel"
    and wf :: "'c \<Rightarrow> bool" and up :: "'c \<Rightarrow> ctx \<Rightarrow> bool" and container :: "'c \<Rightarrow> bool"
    and objs :: "'c \<Rightarrow> string \<rightharpoonup> (bytes \<times> Object)"
    and room :: "'c \<Rightarrow> string \<Rightarrow> PutOptions \<Rightarrow> bytes \<Rightarrow> bool"
begin

text \<open>
  A Put that returns an object stored exactly the bytes of the caller's body, within the bound
  and of the declared size.
\<close>

lemma Put_ok:
  assumes wf: "wf c" and rng: "st_maxObjectSize s \<le> maxInt64" "int64 (po_Size opts)"
    and put: "Put cl s c x k body opts = Some (Inr obj, c', body')"
  shows "\<exists>d. drains rd body d EOF body' \<and> objs c' = (objs c)(k \<mapsto> (d, obj)) \<and>
     (0 < po_Size opts \<longrightarrow> int (length d) = po_Size opts) \<and>
     (0 < st_maxObjectSize s \<longrightarrow> int (length d) \<le> st_maxObjectSize s) \<and>
     obj_Key obj = k \<and> obj_Size obj = int (length d) \<and> obj_ContentType obj = storedType opts \<and>
     container c \<and> container c' \<and> wf c' \<and> st_started s \<and> keyError (cl_Capabilities cl c) k = None"
proof -
  from put obtain b' where
    cl: "cl_Put cl c x k (wrapBody s body opts) opts = Some (Inr obj, c', b')"
    and b': "boundedErr b' = None" "sizedErr b' = None" "body' = innerBody b'"
    and gate: "st_started s" "keyError (cl_Capabilities cl c) k = None"
    by (auto simp: Put_def bind_eq_Some_conv split: if_splits option.splits)
  from put_ok [OF wf rng(2) cl] obtain d where
    d: "drains (putBody_Read rd) (wrapBody s body opts) d EOF b'"
    and rest: "objs c' = (objs c)(k \<mapsto> (d, obj))" "obj_Key obj = k" "obj_Size obj = int (length d)"
      "obj_ContentType obj = storedType opts" "container c" "container c'" "wf c'" by blast
  from wrapBody_drains [OF d rng(1)] rng(2) b' have "drains rd body d EOF body'"
    "0 < st_maxObjectSize s \<longrightarrow> int (length d) \<le> st_maxObjectSize s"
    "0 < po_Size opts \<longrightarrow> int (length d) = po_Size opts" by (simp_all add: int64_def)
  with rest gate show ?thesis by blast
qed

text \<open>A Put that returns an error stored nothing and changed nothing.\<close>

lemma Put_err:
  assumes wf: "wf c" and rng: "st_maxObjectSize s \<le> maxInt64" "int64 (po_Size opts)"
    and put: "Put cl s c x k body opts = Some (Inl e, c', body')"
  shows "objs c' = objs c \<and> container c' = container c \<and> wf c'"
proof (cases "c' = c")
  case True
  with wf show ?thesis by simp
next
  case False
  with put obtain r b' where
    cl: "cl_Put cl c x k (wrapBody s body opts) opts = Some (r, c', b')"
    and r: "r = Inl e \<or> boundedErr b' \<noteq> None \<or> sizedErr b' \<noteq> None"
    by (auto simp: Put_def bind_eq_Some_conv split: if_splits option.splits)
  show ?thesis
  proof (cases r)
    case (Inl e')
    with put_err [OF wf rng(2)] cl show ?thesis by blast
  next
    case (Inr obj)
    with put_ok [OF wf rng(2)] cl obtain d where
      "drains (putBody_Read rd) (wrapBody s body opts) d EOF b'" by blast
    from wrapBody_drains [OF this rng(1)] rng(2) r Inr show ?thesis
      by (auto simp: int64_def split: if_splits)
  qed
qed

text \<open>A Put over a body that ends returns; and a body that the Store and the provider have room for is stored.\<close>

lemma Put_returns:
  assumes "wf c" "st_maxObjectSize s \<le> maxInt64" "int64 (po_Size opts)"
    and "stream_reader rd ok rest fin steps" "ok body"
  shows "Put cl s c x k body opts \<noteq> None"
proof -
  have "cl_Put cl c x k (wrapBody s body opts) opts \<noteq> None"
    using assms
    by (intro put_returns [OF _ _ stream_reader.putBody_stream [OF assms(4)]] wrapBody_ok) (simp_all add: int64_def)
  then show ?thesis by (auto simp: Put_def split: option.split)
qed

lemma Put_up:
  assumes wf: "wf c" and rng: "st_maxObjectSize s \<le> maxInt64" "int64 (po_Size opts)"
    and str: "stream_reader rd ok rest fin steps" and ok: "ok body"
    and up: "st_started s" "up c x" and key: "keyError (cl_Capabilities cl c) k = None"
    and body: "fin body = EOF" "fits opts (rest body)"
    and room: "0 < st_maxObjectSize s \<longrightarrow> int (length (rest body)) \<le> st_maxObjectSize s \<and> po_Size opts \<le> st_maxObjectSize s"
      "room c k opts (rest body)"
    and put: "Put cl s c x k body opts = Some (r, c', b)"
  shows "if container c then \<exists>obj. r = Inr obj else \<exists>e. r = Inl e \<and> errors_Is e ErrContainerNotFound"
proof -
  let ?w = "wrapBody s body opts"
  from room(1) wrapBody_within [where rest = rest and fin = fin, OF body]
  have w: "pb_rest rest ?w = rest body" "pb_fin rest fin ?w = EOF" by simp_all
  have refused: "\<not> po_Size opts < 0" "\<not> (st_maxObjectSize s > 0 \<and> po_Size opts > st_maxObjectSize s)"
    using body(2) room(1) by (auto simp: fits_def)
  with put up(1) key obtain r1 b' where
    cl: "cl_Put cl c x k ?w opts = Some (r1, c', b')"
    and r: "r = (case boundedErr b' of Some t \<Rightarrow> Inl (dual ErrTooLarge (readFailure t (errOf r1)))
      | None \<Rightarrow> (case sizedErr b' of Some t \<Rightarrow> Inl (readFailure t (errOf r1)) | None \<Rightarrow> r1))"
    by (auto simp: Put_def bind_eq_Some_conv split: option.splits)
  have "pb_ok ok ?w" using ok rng by (intro wrapBody_ok) (simp_all add: int64_def)
  note res = put_up [OF wf rng(2) stream_reader.putBody_stream [OF str] this up(2) key w(2) _ _ cl]
  show ?thesis
  proof (cases "container c")
    case True
    with res body(2) room(2) obtain obj where obj: "r1 = Inr obj" by (auto simp: w(1))
    with put_ok [OF wf rng(2)] cl obtain d where "drains (putBody_Read rd) ?w d EOF b'" by blast
    from wrapBody_drains [OF this rng(1)] rng(2) have "boundedErr b' = None" "sizedErr b' = None"
      by (auto simp: int64_def split: if_splits)
    with r obj True show ?thesis by simp
  next
    case False
    with res body(2) room(2) obtain e where "r1 = Inl e" "errors_Is e ErrContainerNotFound" by (auto simp: w(1))
    with r False show ?thesis
      by (auto simp: readFailure_def errOf_def split: option.splits)
  qed
qed

lemma Get_ok:
  assumes wf: "wf c" and get: "Get cl s c expires x k = (Inr blob, c')"
  shows "\<exists>d. objs c k = Some (d, blob_Object blob) \<and> streams (idle_reads gread) (blob_Body blob) d \<and>
    container c \<and> objs c' = objs c \<and> container c' \<and> wf c'"
proof -
  from get obtain b where cl: "cl_Get cl c x k = (Inr b, c')"
    and blob: "blob_Object blob = blob_Object b"
      "blob_Body blob = newIdleReader expires (blob_Body b) (st_readIdle s)"
    by (auto simp: Get_def split: if_splits sum.splits prod.splits)
  from get_ok [OF wf cl] blob streams_idle [of gread "blob_Body b"] show ?thesis by auto
qed

theorem store_conforms:
  "storage_client (store_client expires cl) rd (idle_reads gread)
     (\<lambda>(s, c). wf c \<and> st_maxObjectSize s \<le> maxInt64 \<and> 0 \<le> st_listPageSize s)
     (\<lambda>(s, c) x. st_started s \<and> up c x)
     (\<lambda>(s, c). container c) (\<lambda>(s, c). objs c)
     (\<lambda>(s, c) k opts d. room c k opts d \<and> (0 < st_maxObjectSize s \<longrightarrow>
        int (length d) \<le> st_maxObjectSize s \<and> po_Size opts \<le> st_maxObjectSize s))"
proof (unfold_locales, goal_cases)
  case (1 sc opts x k b obj sc' b')
  then show ?case using Put_ok by (cases sc) (fastforce simp: store_client_def)
next
  case (2 sc opts x k b e sc' b')
  then show ?case using Put_err by (cases sc) (fastforce simp: store_client_def)
next
  case (3 sc opts ok rest fin steps b x k)
  then show ?case using Put_returns by (cases sc) (fastforce simp: store_client_def)
next
  case (4 sc opts ok rest fin steps b x k r sc' b')
  obtain s c where sc: "sc = (s, c)" by (cases sc)
  with 4 obtain c' where put: "Put cl s c x k b opts = Some (r, c', b')" "wf c" "st_maxObjectSize s \<le> maxInt64"
    "st_started s" "up c x" "keyError (cl_Capabilities cl c) k = None" "room c k opts (rest b)"
    "0 < st_maxObjectSize s \<longrightarrow> int (length (rest b)) \<le> st_maxObjectSize s \<and> po_Size opts \<le> st_maxObjectSize s"
    by (auto simp: store_client_def Capabilities_op_def)
  from Put_up [OF put(2,3) 4(2,3,4) put(4-6) 4(7,8) put(8,7,1)] show ?case by (simp add: sc)
next
  case (5 sc x k blob sc')
  then show ?case using Get_ok by (cases sc) (fastforce simp: store_client_def Let_def split: prod.splits)
next
  case (7 sc x k g sc')
  obtain s c where sc: "sc = (s, c)" by (cases sc)
  obtain r c' where get: "cl_Get cl c x k = (r, c')" by fastforce
  with get_up [OF _ _ get] 7 sc show ?case
    by (auto simp: store_client_def Get_def split: sum.splits if_splits)
next
  case (14 sc x lo page sc')
  obtain s c where sc: "sc = (s, c)" by (cases sc)
  with 14 obtain c' where list: "cl_List cl c x (limited s lo) = (Inr page, c')" "sc' = (s, c')" "wf c"
    "st_maxObjectSize s \<le> maxInt64" "0 \<le> st_listPageSize s" by (auto simp: List_page)
  with list_ok [OF this(3,1)] show ?case by (auto simp: sc limited_def split: if_splits)
next
  case (15 sc x lo found)
  obtain s c where sc: "sc = (s, c)" by (cases sc)
  with 15 list_walk [of c x "limited s lo" found] walk_store [OF 15(2)] show ?case by simp
next
  case (17 sc x lo p sc')
  obtain s c where sc: "sc = (s, c)" by (cases sc)
  obtain r c' where list: "cl_List cl c x (limited s lo) = (r, c')" by fastforce
  with list_up [OF _ _ _ list] 17 sc show ?case
    by (auto simp: store_client_def List_op_def limited_def split: if_splits)
qed (auto simp: store_client_def Get_def Stat_def Delete_def List_op_def EnsureContainer_def Probe_def Let_def
      split: prod.splits if_splits sum.splits
      dest: get_err stat_ok stat_err stat_up delete_ok delete_err delete_up list_err ensure_ok ensure_err ensure_up
        probe_ok probe_err probe_up)

end

end
