(* ===== verification/Composition.thy ===== *)
theory Composition
  imports Fake Store_Client
begin

text \<open>
  The Store over the in-memory fake, as the repository's own tests compose them. Both locales of
  the client contract are interpreted on the code's definitions here: the fake provides what the
  Store relies on, and the Store over it provides the same contract again.
\<close>

interpretation store_fake: store_over bytes_Read
  "fake_client (\<lambda>n. Suc (extra n)) sha256 (putBody_Read bytes_Read)" "of_rd bytes_Read"
  fake_wf "\<lambda>f x. \<not> f_down f" f_hasContainer fake_objs "\<lambda>f k opts d. f_putErr f = None"
  for extra :: "nat \<Rightarrow> nat" and sha256 :: "bytes \<Rightarrow> bytes"
  by unfold_locales

abbreviation fake_store ::
  "bool \<Rightarrow> (nat \<Rightarrow> nat) \<Rightarrow> (bytes \<Rightarrow> bytes) \<Rightarrow> (Store \<times> Fake, bytes, bytes idleReader) Client" where
  "fake_store expires extra sha256 \<equiv>
     store_client expires (fake_client (\<lambda>n. Suc (extra n)) sha256 (putBody_Read bytes_Read))"

interpretation stored: storage_client "fake_store expires extra sha256" bytes_Read
  "idle_reads (of_rd bytes_Read)"
  "\<lambda>(s, f). fake_wf f \<and> st_maxObjectSize s \<le> maxInt64 \<and> 0 \<le> st_listPageSize s"
  "\<lambda>(s, f) x. st_started s \<and> \<not> f_down f" "\<lambda>(s, f). f_hasContainer f" "\<lambda>(s, f). fake_objs f"
  "\<lambda>(s, f) k opts d. f_putErr f = None \<and> (0 < st_maxObjectSize s \<longrightarrow>
     int (length d) \<le> st_maxObjectSize s \<and> po_Size opts \<le> st_maxObjectSize s)"
  for expires :: bool and extra :: "nat \<Rightarrow> nat" and sha256 :: "bytes \<Rightarrow> bytes"
  by (rule store_fake.store_conforms)

section \<open>A concrete pair\<close>

definition fake_up :: "Fake \<Rightarrow> bool" where
  "fake_up f \<longleftrightarrow> fake_wf f \<and> \<not> f_down f \<and> f_hasContainer f \<and> f_putErr f = None"

text \<open>A started Store with a bound of four bytes, and an empty fake, for the examples.\<close>

definition sample_store :: Store where
  "sample_store = \<lparr>st_container = ''c'', st_maxObjectSize = 4, st_listPageSize = 2,
     st_requestTimeout = second, st_readIdle = second, st_started = True, st_shut = False\<rparr>"

definition sample_fake :: Fake where
  "sample_fake = NewFake (\<lambda>n. \<lparr>instant = n, loc = UTC\<rparr>) []"

lemma sample_fake_up: "fake_up sample_fake" "fake_wf sample_fake"
  by (simp_all add: fake_up_def fake_wf_def sample_fake_def NewFake_def defaultPageSize_def)

lemma sample_key: "keyError (f_caps sample_fake) ''k'' = None"
  by code_simp

section \<open>Put over the fake\<close>

text \<open>What a Put of each outcome returns over a fake that is up, and what it stores.\<close>

definition put_result ::
  "string \<Rightarrow> int \<Rightarrow> bytes \<Rightarrow> outcome \<Rightarrow> Fake \<Rightarrow> (err + Object) \<Rightarrow> Fake \<Rightarrow> bool" where
  "put_result k sz d out f r f' \<longleftrightarrow>
     (case out of
        Complete \<Rightarrow> \<exists>obj. r = Inr obj \<and> obj_Key obj = k \<and> obj_Size obj = int (length d) \<and>
          fake_objs f' = (fake_objs f)(k \<mapsto> (d, obj))
      | TooLarge \<Rightarrow> \<exists>e. r = Inl e \<and> errors_Is e ErrTooLarge \<and> fake_objs f' = fake_objs f
      | TooLong \<Rightarrow> \<exists>e. r = Inl e \<and> errors_Is e (sizeLong sz) \<and> \<not> errors_Is e ErrTooLarge \<and>
          fake_objs f' = fake_objs f
      | TooShort \<Rightarrow> \<exists>e. r = Inl e \<and> errors_Is e ErrUnexpectedEOF \<and> \<not> errors_Is e ErrTooLarge \<and>
          fake_objs f' = fake_objs f
      | BodyFails x \<Rightarrow> \<exists>e. r = Inl e \<and> errors_Is e x \<and> fake_objs f' = fake_objs f)"

lemma fake_Put_up:
  assumes "fake_up f" and "readAll space rd b [] = Some (d, re, b')"
  shows "\<exists>r f'. fake_Put space sha256 rd f x k b opts = Some (r, f', b') \<and>
    (case re of
       Some e \<Rightarrow> r = Inl (Errorf ''storagetest.Fake.Put'' ''fake put: %w'' [] [e] []) \<and>
         fake_objs f' = fake_objs f
     | None \<Rightarrow> (po_Size opts \<le> 0 \<or> int (length d) = po_Size opts) \<longrightarrow>
         (\<exists>obj. r = Inr obj \<and> obj_Key obj = k \<and> obj_Size obj = int (length d) \<and>
            fake_objs f' = (fake_objs f)(k \<mapsto> (d, obj))))"
  using assms
  by (auto simp: fake_up_def fake_Put_def Let_def fake_objs_def update_conv' fun_eq_iff
      split: option.split)

lemma shortPut_Is [simp]:
  "errors_Is (shortPut d sz) ErrUnexpectedEOF" "\<not> errors_Is (shortPut d sz) ErrTooLarge"
  by (simp_all add: shortPut_def shortBody_def)

lemma Put_fake_readAll:
  assumes "fake_up f" "put_accepts s opts" "keyError (f_caps f) k = None"
    and "readAll space (putBody_Read rd) (wrapBody s body opts) [] =
      Some (d, if e = EOF then None else Some e, b')"
    and "(boundedErr b', sizedErr b', e) = outcome_trips (st_maxObjectSize s) (po_Size opts) d0 out"
    and "out = Complete \<longrightarrow> d = d0 \<and> (po_Size opts \<le> 0 \<or> int (length d) = po_Size opts)"
    and "out \<noteq> BodyFails EOF"
  shows "\<exists>r f' b. Put (fake_client space sha256 (putBody_Read rd)) s f x k body opts =
      Some (r, f', b) \<and> put_result k (po_Size opts) d0 out f r f'"
proof -
  from fake_Put_up [OF assms(1,4), of sha256 x k opts] obtain r f' where
    put: "fake_Put space sha256 (putBody_Read rd) f x k (wrapBody s body opts) opts =
      Some (r, f', b')"
    and r: "if e = EOF then (po_Size opts \<le> 0 \<or> int (length d) = po_Size opts) \<longrightarrow>
         (\<exists>obj. r = Inr obj \<and> obj_Key obj = k \<and> obj_Size obj = int (length d) \<and>
            fake_objs f' = (fake_objs f)(k \<mapsto> (d, obj)))
       else r = Inl (Errorf ''storagetest.Fake.Put'' ''fake put: %w'' [] [e] []) \<and>
         fake_objs f' = fake_objs f"
    by (cases "e = EOF") auto
  from assms(2,3) put have "Put (fake_client space sha256 (putBody_Read rd)) s f x k body opts =
    Some (case boundedErr b' of
        Some t \<Rightarrow> (Inl (dual ErrTooLarge (readFailure t (errOf r))), f', innerBody b')
      | None \<Rightarrow> (case sizedErr b' of
          Some t \<Rightarrow> (Inl (readFailure t (errOf r)), f', innerBody b')
        | None \<Rightarrow> (r, f', innerBody b')))"
    by (auto simp: Put_def fake_client_def put_accepts_def)
  with r assms(5-7) show ?thesis
    by (cases out) (auto simp: put_result_def readFailure_def errOf_def long_not_EOF shortPut_def
        shortBody_def boundLong_def sizeLong_def newError_def)
qed


lemma put_outcome_complete:
  "put_outcome mx sz d e = Complete \<Longrightarrow> 0 \<le> sz \<Longrightarrow> sz \<le> 0 \<or> int (length d) = sz"
  by (auto simp: put_outcome_def split: if_splits)

lemma put_outcome_not_EOF: "put_outcome mx sz d e \<noteq> BodyFails EOF"
  by (simp add: put_outcome_def)

text \<open>
  C1: total correctness of \<open>Store.Put\<close> over the fake. For a body of any kind that delivers a finite
  stream, however many bytes each Read returns, Put returns, and what it returns and stores is the
  specified outcome: a body past the size bound is \<open>ErrTooLarge\<close>, one past or short of the declared
  size is an error (\<open>io.ErrUnexpectedEOF\<close> when short), a body that breaks is its own error, each
  with nothing stored; and otherwise the object holds exactly the body's bytes.
\<close>

theorem Put_fake_total:
  assumes str: "stream_reader rd ok rest fin steps" and io: "io_reader rd" and ok: "ok body"
    and up: "fake_up f" and acc: "put_accepts s opts" and key: "keyError (f_caps f) k = None"
  shows "\<exists>r f' b. Put (fake_client (\<lambda>n. Suc (extra n)) hash (putBody_Read rd)) s f x k body opts =
      Some (r, f', b) \<and>
    put_result k (po_Size opts) (rest body)
      (put_outcome (st_maxObjectSize s) (po_Size opts) (rest body) (fin body)) f r f'"
proof -
  have str': "stream_reader (putBody_Read rd) (pb_ok ok) (pb_rest rest) (pb_fin rest fin) (pb_steps steps)"
    by (rule stream_reader.putBody_stream [OF str])
  let ?b = "wrapBody s body opts" and ?sp = "\<lambda>n. Suc (extra n)"
  have "pb_ok ok ?b"
    using acc ok by (auto simp: wrapBody_def put_accepts_def intro!: lr_inv_new)
  from stream_reader.readAll_stream [OF str' _ this, of ?sp "[]"] obtain d e b' where
    all: "readAll ?sp (putBody_Read rd) ?b [] = Some (d, e, b')" by auto
  from readAll_drains [OF _ this] obtain x where dr: "drains (putBody_Read rd) ?b d x b'"
    and e: "e = (if x = EOF then None else Some x)" by auto
  from acc have rng: "st_maxObjectSize s \<le> maxInt64" "0 \<le> po_Size opts" "po_Size opts \<le> maxInt64"
    "0 < st_maxObjectSize s \<longrightarrow> po_Size opts \<le> st_maxObjectSize s" by (simp_all add: put_accepts_def)
  note out = wrapBody_outcome [OF str io ok dr rng]
  from out put_outcome_complete [OF _ rng(2)] put_outcome_not_EOF
  show ?thesis by (intro Put_fake_readAll [OF up acc key all [unfolded e]]) auto
qed


theorem Put_fake_total_witness:
  "\<exists>r f' b. Put (fake_client (\<lambda>n. Suc 511) (\<lambda>_. []) (putBody_Read bytes_Read)) sample_store
      sample_fake background ''k'' ''hello'' \<lparr>po_ContentType = [], po_Size = 4\<rparr> = Some (r, f', b) \<and>
    put_result ''k'' 4 ''hello'' TooLarge sample_fake r f'"
  using Put_fake_total [OF bytes_rd.stream_reader_axioms bytes_io.io_reader_axioms TrueI
      sample_fake_up(1) _ sample_key, where extra = "\<lambda>_. 511" and hash = "\<lambda>_. []"
      and s = sample_store and x = background and body = "''hello''"
      and opts = "\<lparr>po_ContentType = [], po_Size = 4\<rparr>"]
  by (simp add: put_accepts_def sample_store_def put_outcome_def)


section \<open>Round trips\<close>

lemma Put_fake_stored:
  assumes wf: "fake_wf f" and rng: "st_maxObjectSize s \<le> maxInt64" "int64 (po_Size opts)"
    and put: "Put (fake_client (\<lambda>n. Suc (extra n)) hash (putBody_Read bytes_Read)) s f x k body opts =
      Some (Inr obj, f', b')"
  shows "fake_objs f' = (fake_objs f)(k \<mapsto> (body, obj)) \<and> \<not> f_down f' \<and> f_hasContainer f' \<and>
    fake_wf f' \<and> st_started s"
proof -
  from store_fake.Put_ok [OF wf rng put] obtain d where d: "drains bytes_Read body d EOF b'"
    "fake_objs f' = (fake_objs f)(k \<mapsto> (d, obj))" "fake_wf f'" "st_started s" by blast
  moreover from bytes_rd.drains_content [OF d(1)] have "d = body" by simp
  moreover from put have "\<not> f_down f' \<and> f_hasContainer f'"
    by (auto simp: Put_def fake_client_def fake_Put_def bind_eq_Some_conv Let_def
        split: if_splits option.splits)
  ultimately show ?thesis by simp
qed

text \<open>
  C6: after a Put that reported an object, Get of the key through the Store succeeds, reports that
  object, and its body delivers exactly the bytes that were put and then the end of the stream, for
  every sequence of reads during which the idle timer stays quiet, and there is such a sequence.
\<close>

theorem Put_Get_roundtrip:
  assumes "fake_wf f" and "st_maxObjectSize s \<le> maxInt64" and "int64 (po_Size opts)"
    and put: "Put (fake_client (\<lambda>n. Suc (extra n)) hash (putBody_Read bytes_Read)) s f x k body opts =
      Some (Inr obj, f', b')"
  shows "\<exists>blob. Get (fake_client (\<lambda>n. Suc (extra n)) hash (putBody_Read bytes_Read)) s f' False x' k =
      (Inr blob, f') \<and> blob_Object blob = obj \<and>
    (\<exists>g. drains (idleReader_Read quiet bytes_Read) (blob_Body blob) body EOF g) \<and>
    (\<forall>d e g. drains (idleReader_Read quiet bytes_Read) (blob_Body blob) d e g \<longrightarrow> d = body \<and> e = EOF)"
proof -
  note st = Put_fake_stored [OF assms]
  then obtain o' where o': "map_of (f_objects f') k = Some o'" "o_data o' = body" "o_meta o' = obj"
    by (auto simp: fake_objs_def fun_eq_iff split: if_splits dest!: spec [of _ k])
  note idle = bytes_rd.idleReader_stream
  let ?r = "newIdleReader False body (st_readIdle s)"
  have q: "ir_quiet ?r" "ir_body ?r = body" by (simp_all add: newIdleReader_def ir_quiet_def)
  from stream_reader.drains_exists [OF idle, of ?r] stream_reader.drains_content [OF idle, of ?r] q
  have "\<exists>g. drains (idleReader_Read quiet bytes_Read) ?r body EOF g"
    "\<forall>d e g. drains (idleReader_Read quiet bytes_Read) ?r d e g \<longrightarrow> d = body \<and> e = EOF" by auto
  with st o' show ?thesis by (simp add: Get_def fake_client_def fake_Get_def)
qed


lemma sample_Put:
  "\<exists>obj f' b'. Put (fake_client (\<lambda>n. Suc ((\<lambda>_. 1) n)) (\<lambda>d. d) (putBody_Read bytes_Read)) sample_store
     sample_fake background ''k'' ''abc'' \<lparr>po_ContentType = [], po_Size = 3\<rparr> = Some (Inr obj, f', b')"
proof -
  have "case Put (fake_client (\<lambda>n. Suc ((\<lambda>_. 1) n)) (\<lambda>d. d) (putBody_Read bytes_Read)) sample_store
     sample_fake background ''k'' ''abc'' \<lparr>po_ContentType = [], po_Size = 3\<rparr>
    of Some (Inr obj, f', b') \<Rightarrow> True | _ \<Rightarrow> False"
    by code_simp
  then show ?thesis by (simp split: option.splits prod.splits sum.splits)
qed

theorem Put_Get_roundtrip_witness:
  "\<exists>obj f' b' blob. Put (fake_client (\<lambda>n. Suc ((\<lambda>_. 1) n)) (\<lambda>d. d) (putBody_Read bytes_Read)) sample_store
     sample_fake background ''k'' ''abc'' \<lparr>po_ContentType = [], po_Size = 3\<rparr> = Some (Inr obj, f', b') \<and>
   Get (fake_client (\<lambda>n. Suc ((\<lambda>_. 1) n)) (\<lambda>d. d) (putBody_Read bytes_Read)) sample_store f' False
     background ''k'' = (Inr blob, f') \<and> blob_Object blob = obj \<and>
   (\<exists>g. drains (idleReader_Read quiet bytes_Read) (blob_Body blob) ''abc'' EOF g)"
proof -
  from sample_Put obtain obj f' b' where put: "Put (fake_client (\<lambda>n. Suc ((\<lambda>_. 1) n)) (\<lambda>d. d)
      (putBody_Read bytes_Read)) sample_store sample_fake background ''k'' ''abc''
      \<lparr>po_ContentType = [], po_Size = 3\<rparr> = Some (Inr obj, f', b')" by blast
  from Put_Get_roundtrip [OF sample_fake_up(2) _ _ put, of background]
  have "\<exists>blob. Get (fake_client (\<lambda>n. Suc ((\<lambda>_. 1) n)) (\<lambda>d. d) (putBody_Read bytes_Read)) sample_store f'
      False background ''k'' = (Inr blob, f') \<and> blob_Object blob = obj \<and>
    (\<exists>g. drains (idleReader_Read quiet bytes_Read) (blob_Body blob) ''abc'' EOF g)"
    by (simp add: sample_store_def int64_def) blast
  with put show ?thesis by blast
qed

section \<open>The contract\<close>

text \<open>
  C2: the Store is itself a conforming client, and keeps its own promises besides. Over any provider
  that meets the documented contract of \<open>Client\<close> for the bodies the Store hands it, the Store meets the
  same contract for the bodies it is handed, with the same stored objects, whatever the idle timer does
  during the reads of a Get body; it is up once started while the provider is, and has room for what the
  provider has room for and the bound allows. And whatever a provider's Put answers when it has read the
  body to its end, Put of the Store returns what the body decides: \<open>ErrTooLarge\<close> past the bound, an
  error for a body longer than the declared size, \<open>io.ErrUnexpectedEOF\<close> for one that is short of it, and
  the provider's own answer otherwise.
\<close>

theorem store_refines_client:
  assumes "io_reader rd" and "storage_client cl (putBody_Read rd) gread good up container objs room"
  shows "storage_client (store_client expires cl) rd (idle_reads gread)
      (\<lambda>(s, c). good c \<and> st_maxObjectSize s \<le> maxInt64 \<and> 0 \<le> st_listPageSize s)
      (\<lambda>(s, c) x. st_started s \<and> up c x) (\<lambda>(s, c). container c) (\<lambda>(s, c). objs c)
      (\<lambda>(s, c) k opts d. room c k opts d \<and> (0 < st_maxObjectSize s \<longrightarrow>
         int (length d) \<le> st_maxObjectSize s \<and> po_Size opts \<le> st_maxObjectSize s)) \<and>
    (stream_reader rd ok rest fin steps \<longrightarrow> ok body \<longrightarrow> put_accepts s opts \<longrightarrow>
     keyError (cl_Capabilities cl c) k = None \<longrightarrow>
     cl_Put cl c x k (wrapBody s body opts) opts = Some (r, c', b') \<longrightarrow>
     drains (putBody_Read rd) (wrapBody s body opts) d e b' \<longrightarrow>
     (\<exists>r'. Put cl s c x k body opts = Some (r', c', innerBody b') \<and>
        wrapped_result (po_Size opts)
          (put_outcome (st_maxObjectSize s) (po_Size opts) (rest body) (fin body)) r r'))"
  using assms by (intro conjI impI store_over.store_conforms store_over.intro Put_wrapped)

text \<open>
  Over the fake: the contract, and the Put of five bytes under a bound of four, which the fake reads to
  its end.
\<close>

lemma sample_long:
  "\<exists>r f' b' d e. cl_Put (fake_client (\<lambda>n. Suc 511) (\<lambda>d. d) (putBody_Read bytes_Read)) sample_fake background ''k''
       (wrapBody sample_store ''hello'' \<lparr>po_ContentType = [], po_Size = 0\<rparr>) \<lparr>po_ContentType = [], po_Size = 0\<rparr> =
       Some (r, f', b') \<and>
     drains (putBody_Read bytes_Read) (wrapBody sample_store ''hello'' \<lparr>po_ContentType = [], po_Size = 0\<rparr>) d e b'"
proof -
  let ?o = "\<lparr>po_ContentType = [], po_Size = 0\<rparr>" and ?sp = "\<lambda>n. Suc 511"
  let ?b = "wrapBody sample_store ''hello'' ?o"
  have "pb_ok (\<lambda>_. True) ?b"
    by (intro wrapBody_ok) (simp_all add: sample_store_def)
  from stream_reader.readAll_stream [OF stream_reader.putBody_stream [OF bytes_rd.stream_reader_axioms] _ this,
      of ?sp "[]"] obtain d e b' where all: "readAll ?sp (putBody_Read bytes_Read) ?b [] = Some (d, e, b')" by auto
  from readAll_drains [OF _ this] obtain x where "drains (putBody_Read bytes_Read) ?b d x b'" by auto
  with fake_Put_up [OF sample_fake_up(1) all, of "\<lambda>d. d" background "''k''" ?o] show ?thesis
    by (simp add: fake_client_def) blast
qed

theorem store_refines_client_witness:
  "storage_client (fake_store True (\<lambda>n. 511) (\<lambda>d. d)) bytes_Read (idle_reads (of_rd bytes_Read))
     (\<lambda>(s, f). fake_wf f \<and> st_maxObjectSize s \<le> maxInt64 \<and> 0 \<le> st_listPageSize s)
     (\<lambda>(s, f) x. st_started s \<and> \<not> f_down f) (\<lambda>(s, f). f_hasContainer f) (\<lambda>(s, f). fake_objs f)
     (\<lambda>(s, f) k opts d. f_putErr f = None \<and> (0 < st_maxObjectSize s \<longrightarrow>
        int (length d) \<le> st_maxObjectSize s \<and> po_Size opts \<le> st_maxObjectSize s)) \<and>
   (\<exists>e f' b. Put (fake_client (\<lambda>n. Suc 511) (\<lambda>d. d) (putBody_Read bytes_Read)) sample_store sample_fake background
       ''k'' ''hello'' \<lparr>po_ContentType = [], po_Size = 0\<rparr> = Some (Inl e, f', b) \<and> errors_Is e ErrTooLarge)"
proof -
  let ?o = "\<lparr>po_ContentType = [], po_Size = 0\<rparr>"
  let ?cl = "fake_client (\<lambda>n. Suc 511) (\<lambda>d. d) (putBody_Read bytes_Read)"
  from sample_long obtain r f' b' d e where put: "cl_Put ?cl sample_fake background ''k''
      (wrapBody sample_store ''hello'' ?o) ?o = Some (r, f', b')"
    and dr: "drains (putBody_Read bytes_Read) (wrapBody sample_store ''hello'' ?o) d e b'"
    by (elim exE conjE) (rule that)
  have fake: "storage_client ?cl (putBody_Read bytes_Read) (of_rd bytes_Read) fake_wf (\<lambda>f x. \<not> f_down f)
      f_hasContainer fake_objs (\<lambda>f k opts d. f_putErr f = None)"
    by (rule fake.storage_client_axioms)
  note both = store_refines_client [OF bytes_io.io_reader_axioms fake,
      where expires = True and ok = "\<lambda>_. True" and rest = "\<lambda>s. s" and fin = "\<lambda>_. EOF" and steps = length
        and s = sample_store and opts = ?o and body = "''hello''" and c = sample_fake and x = background
        and k = "''k''" and r = r and c' = f' and b' = b' and d = d and e = e]
  have acc: "put_accepts sample_store ?o" by (simp add: put_accepts_def sample_store_def)
  have key: "keyError (cl_Capabilities ?cl sample_fake) ''k'' = None" using sample_key by (simp add: fake_client_def)
  from both [THEN conjunct2, rule_format, OF bytes_rd.stream_reader_axioms TrueI acc key put dr]
  obtain r' where "Put ?cl sample_store sample_fake background ''k'' ''hello'' ?o = Some (r', f', innerBody b')"
    "wrapped_result 0 TooLarge r r'"
    by (auto simp: put_outcome_def sample_store_def)
  moreover from this(2) obtain e where "r' = Inl e" "errors_Is e ErrTooLarge" by (auto simp: wrapped_result_def)
  ultimately show ?thesis using both [THEN conjunct1] by blast
qed

end
