(* ===== verification/Suite.thy ===== *)
theory Suite
  imports Composition
begin

text \<open>
  \<open>storagetest/suite.go\<close>: the helpers of the conformance suite that carry its logic, over any value
  of \<open>Client\<close>. A test accumulates the problems it reports with \<open>t.Errorf\<close> and stops at the first
  \<open>t.Fatalf\<close>. The walk of a listing is proved to terminate over every client and to see, over the
  fake, each object once and in key order.
\<close>

section \<open>Test reports\<close>

datatype problem = Problem string "val list"

text \<open>What a helper does: the problems it reported, and the problem it stopped at or its value.\<close>

type_synonym 'a tested = "problem list \<times> (problem + 'a)"

definition maxPages :: nat where "maxPages = 100"

definition isEntityTag :: "string \<Rightarrow> bool" where
  "isEntityTag s0 =
     (let s = trimPrefix s0 ''W/'' in
      2 \<le> length s \<and> hd s = CHR 0x22 \<and> last s = CHR 0x22)"

definition wantNotFound :: "string \<Rightarrow> err option \<Rightarrow> problem list" where
  "wantNotFound what e =
     (if \<not> errors_Is_opt e ErrNotFound then [Problem ''%s = %v, want ErrNotFound'' [VStr what]]
      else if errors_Is_opt e ErrContainerNotFound then
        [Problem ''%s = %v, want it not to match ErrContainerNotFound'' [VStr what]]
      else if errors_Is_opt e ErrUnavailable then
        [Problem ''%s = %v, want it not to match ErrUnavailable'' [VStr what]]
      else [])"

text \<open>\<open>IsZero\<close> and \<open>Equal\<close> of \<open>time.Time\<close> compare instants.\<close>

definition wantObject ::
  "string \<Rightarrow> Object \<Rightarrow> Object \<Rightarrow> string \<Rightarrow> int \<Rightarrow> string \<Rightarrow> problem list" where
  "wantObject what got want key sz contentType =
     (if obj_Key got \<noteq> key
      then [Problem ''%s Key = %q, want %q'' [VStr what, VStr (obj_Key got), VStr key]] else []) @
     (if obj_Size got \<noteq> sz
      then [Problem ''%s Size = %d, want %d'' [VStr what, VInt (obj_Size got), VInt sz]] else []) @
     (if obj_ContentType got \<noteq> contentType
      then [Problem ''%s ContentType = %q, want %q''
        [VStr what, VStr (obj_ContentType got), VStr contentType]] else []) @
     (if obj_ETag got = [] then [Problem ''%s ETag is empty'' [VStr what]]
      else if \<not> isEntityTag (obj_ETag got) then
        [Problem ''%s ETag = %q, want a quoted entity tag'' [VStr what, VStr (obj_ETag got)]]
      else if obj_ETag got \<noteq> obj_ETag want then
        [Problem ''%s ETag = %q, want %q as Put reported''
          [VStr what, VStr (obj_ETag got), VStr (obj_ETag want)]]
      else []) @
     (if instant (obj_ModifiedAt got) = 0 then [Problem ''%s ModifiedAt is zero'' [VStr what]]
      else if loc (obj_ModifiedAt got) \<noteq> UTC then
        [Problem ''%s ModifiedAt = %v in zone %q, want it in time.UTC''
          [VStr what, VInt (instant (obj_ModifiedAt got))]]
      else if instant (obj_ModifiedAt got) \<noteq> instant (obj_ModifiedAt want) then
        [Problem ''%s ModifiedAt = %v, want %v as Put reported''
          [VStr what, VInt (instant (obj_ModifiedAt got)), VInt (instant (obj_ModifiedAt want))]]
      else [])"

section \<open>The walk of a listing\<close>

definition pageProblems :: "string \<Rightarrow> int \<Rightarrow> int \<Rightarrow> Page \<Rightarrow> problem list" where
  "pageProblems pre limit pages page =
     (if 0 < limit \<and> limit < int (length (pg_Objects page)) then
        [Problem ''List page %d holds %d objects, want at most the Limit %d''
          [VInt pages, VInt (int (length (pg_Objects page))), VInt limit]] else []) @
     concat (map (\<lambda>obj. if hasPrefix (obj_Key obj) pre then []
        else [Problem ''List(%q) returned key %q outside the prefix'' [VStr pre, VStr (obj_Key obj)]])
       (pg_Objects page))"

text \<open>
  The loop of \<open>listAll\<close>; the first argument is how many pages are left before the bound, which the
  code counts upwards.
\<close>

fun listLoop ::
  "nat \<Rightarrow> ('c, 'b, 'g) Client \<Rightarrow> 'c \<Rightarrow> ctx \<Rightarrow> string \<Rightarrow> int \<Rightarrow> string \<Rightarrow> Object list \<Rightarrow> problem list \<Rightarrow>
     (Object list \<times> nat) tested \<times> 'c" where
  "listLoop 0 cl c x pre limit token objects ps =
     ((ps, Inl (Problem ''List never returned an empty Next within %d pages'' [VInt (int maxPages)])), c)"
| "listLoop (Suc left) cl c x pre limit token objects ps =
     (let (r, c') = cl_List cl c x \<lparr>lo_Prefix = pre, lo_Token = token, lo_Limit = limit\<rparr>;
          pages = maxPages - left in
      case r of
        Inl e \<Rightarrow> ((ps, Inl (Problem ''List(page %d): %v'' [VInt (int pages)])), c')
      | Inr page \<Rightarrow>
        let ps' = ps @ pageProblems pre limit (int pages) page;
            objects' = objects @ pg_Objects page in
        if pg_Next page = [] then ((ps', Inr (objects', pages)), c')
        else listLoop left cl c' x pre limit (pg_Next page) objects' ps')"

definition listAll ::
  "('c, 'b, 'g) Client \<Rightarrow> 'c \<Rightarrow> ctx \<Rightarrow> string \<Rightarrow> int \<Rightarrow> (Object list \<times> nat) tested \<times> 'c" where
  "listAll cl c x pre limit = listLoop maxPages cl c x pre limit [] [] []"

section \<open>The walk over the fake\<close>

text \<open>What a listing leaves of the fake, and what the listing of the fake depends on.\<close>

definition listed :: "Fake \<Rightarrow> Fake \<Rightarrow> bool" where
  "listed f f' \<longleftrightarrow> (\<exists>lo. f' = f\<lparr>f_lastListOpts := lo\<rparr>)"

text \<open>How many objects a page of the walk holds at most.\<close>

definition walkPage :: "Fake \<Rightarrow> int \<Rightarrow> nat" where
  "walkPage f limit = nat (if limit \<le> 0 then f_pageSize f else limit)"

lemma listed_simps [simp]:
  "listed f f" "listed f (f\<lparr>f_lastListOpts := lo\<rparr>)"
  "listed (f\<lparr>f_lastListOpts := lo\<rparr>) f' = listed f f'"
  "fake_up (f\<lparr>f_lastListOpts := lo\<rparr>) = fake_up f"
  "keysAfter (f\<lparr>f_lastListOpts := lo\<rparr>) pre token = keysAfter f pre token"
  "walkPage (f\<lparr>f_lastListOpts := lo\<rparr>) limit = walkPage f limit"
  by (auto simp: listed_def fake_up_def keysAfter_def walkPage_def intro: exI [of _ "f_lastListOpts f"])

lemma metaAt_key:
  assumes "fake_wf f" "k \<in> set (keysAfter f pre token)"
  shows "obj_Key (metaAt (f_objects f) k) = k" "prefix pre k" "k \<noteq> []"
proof -
  from assms(2) show "prefix pre k" "k \<noteq> []" by (auto simp: set_keysAfter)
  from assms(2) obtain obj where "map_of (f_objects f) k = Some obj"
    by (auto simp: set_keysAfter dest: weak_map_of_SomeI)
  with assms(1) show "obj_Key (metaAt (f_objects f) k) = k"
    by (auto simp: map_of_metaAt fake_wf_def dest!: map_of_SomeD)
qed

lemma pageProblems_none:
  assumes "fake_wf f"
  shows "pageProblems pre limit pages
    \<lparr>pg_Objects = map (metaAt (f_objects f)) (take (walkPage f limit) (keysAfter f pre token)),
     pg_Next = nx\<rparr> = []"
proof -
  have "hasPrefix (obj_Key (metaAt (f_objects f) k)) pre"
    if "k \<in> set (take (walkPage f limit) (keysAfter f pre token))" for k
    using metaAt_key [OF assms in_set_takeD [OF that]] by (simp add: hasPrefix_def)
  then show ?thesis by (auto simp: pageProblems_def walkPage_def)
qed

lemma fake_List_page:
  assumes up: "fake_up f"
  shows "fake_List f x \<lparr>lo_Prefix = pre, lo_Token = token, lo_Limit = limit\<rparr> =
      (Inr \<lparr>pg_Objects = map (metaAt (f_objects f)) (take (walkPage f limit) (keysAfter f pre token)),
            pg_Next = if walkPage f limit < length (keysAfter f pre token)
              then keysAfter f pre token ! (walkPage f limit - 1) else []\<rparr>,
       f\<lparr>f_lastListOpts := \<lparr>lo_Prefix = pre, lo_Token = token, lo_Limit = limit\<rparr>\<rparr>)" "0 < walkPage f limit"
  using up
  by (simp_all add: fake_up_def fake_List_up Let_def pageLimit_def walkPage_def fake_wf_def)

lemma listLoop_fake:
  "fake_up f \<Longrightarrow> length (keysAfter f pre token) \<le> walkPage f limit * left \<Longrightarrow> 0 < left \<Longrightarrow>
    left \<le> maxPages \<Longrightarrow>
    \<exists>k f'. listLoop left (fake_client space hash rd) f x pre limit token objects ps =
      ((ps, Inr (objects @ map (metaAt (f_objects f)) (keysAfter f pre token), maxPages - left + k)), f') \<and>
      listed f f' \<and> length (keysAfter f pre token) \<le> walkPage f limit * k"
proof (induction left arbitrary: f token objects)
  case 0
  then show ?case by simp
next
  case (Suc left)
  let ?ks = "keysAfter f pre token" and ?n = "walkPage f limit"
  let ?f = "f\<lparr>f_lastListOpts := \<lparr>lo_Prefix = pre, lo_Token = token, lo_Limit = limit\<rparr>\<rparr>"
  note page = fake_List_page [OF Suc.prems(1)]
  have wf: "fake_wf f" using Suc.prems(1) by (simp add: fake_up_def)
  note np = pageProblems_none [OF wf]
  show ?case
  proof (cases "?n < length ?ks")
    case False
    have "maxPages - left = maxPages - Suc left + 1" using Suc.prems(4) by simp
    moreover have "pageProblems pre limit p \<lparr>pg_Objects = map (metaAt (f_objects f)) ?ks, pg_Next = nx\<rparr> = []"
      for p nx using np [of pre limit p token nx] False by simp
    ultimately show ?thesis using page False
      by (intro exI [of _ 1] exI [of _ ?f]) (simp add: fake_client_def Let_def)
  next
    case True
    let ?t = "?ks ! (?n - 1)"
    have t: "?t \<noteq> []" using True page(2) by (intro metaAt_key(3) [OF wf, of _ pre token]) simp
    have ks: "keysAfter f pre ?t = drop ?n ?ks"
      using keysAfter_next [OF wf, of "?n - 1" pre token] True page(2) by simp
    have left: "0 < left" using True Suc.prems(2) by (cases left) simp_all
    have "length (keysAfter ?f pre ?t) \<le> walkPage ?f limit * left" using Suc.prems(2) ks by simp
    from Suc.IH [OF _ this left, of "objects @ map (metaAt (f_objects f)) (take ?n ?ks)"] Suc.prems(1,4)
    obtain k f' where loop: "listLoop left (fake_client space hash rd) ?f x pre limit ?t
          (objects @ map (metaAt (f_objects f)) (take ?n ?ks)) ps =
        ((ps, Inr ((objects @ map (metaAt (f_objects f)) (take ?n ?ks)) @
          map (metaAt (f_objects f)) (drop ?n ?ks), maxPages - left + k)), f')"
      "listed f f'" "length (drop ?n ?ks) \<le> ?n * k" by (auto simp: ks [simplified])
    have all: "map (metaAt (f_objects f)) (take ?n ?ks) @ map (metaAt (f_objects f)) (drop ?n ?ks) =
        map (metaAt (f_objects f)) ?ks" by (metis append_take_drop_id map_append)
    have "maxPages - left + k = maxPages - Suc left + Suc k" using Suc.prems(4) by simp
    with loop all t True page np show ?thesis
      by (intro exI [of _ "Suc k"] exI [of _ f']) (simp add: fake_client_def Let_def)
  qed
qed

lemma less_string_Nil: "([] :: string) < k \<longleftrightarrow> k \<noteq> []"
  by (cases k) auto

lemma listAll_walk:
  assumes "fake_up f" and "length (keysAfter f pre []) \<le> walkPage f limit * maxPages"
  shows "\<exists>objects pages f'. listAll (fake_client space hash rd) f x pre limit = (([], Inr (objects, pages)), f') \<and>
    map obj_Key objects = sort (filter (\<lambda>k. prefix pre k \<and> k \<noteq> []) (map fst (f_objects f))) \<and>
    distinct (map obj_Key objects) \<and>
    (\<forall>obj \<in> set objects. \<exists>d. fake_objs f (obj_Key obj) = Some (d, obj)) \<and>
    length objects \<le> walkPage f limit * pages \<and> fake_objs f' = fake_objs f \<and> listed f f'"
proof -
  have wf: "fake_wf f" using assms(1) by (simp add: fake_up_def)
  let ?ks = "keysAfter f pre []"
  have "0 < maxPages" "maxPages \<le> maxPages" by (simp_all add: maxPages_def)
  from listLoop_fake [OF assms this] obtain k f' where
    w: "listAll (fake_client space hash rd) f x pre limit =
      (([], Inr (map (metaAt (f_objects f)) ?ks, k)), f')" "listed f f'" "length ?ks \<le> walkPage f limit * k"
    unfolding listAll_def by (metis append_Nil diff_self_eq_0 add_0)
  let ?os = "map (metaAt (f_objects f)) ?ks"
  have keys: "map obj_Key ?os = ?ks"
    using metaAt_key(1) [OF wf] by (simp add: map_idI)
  have "?ks = sort (filter (\<lambda>k. prefix pre k \<and> k \<noteq> []) (map fst (f_objects f)))"
    by (auto simp: keysAfter_def less_string_Nil intro!: arg_cong [where f = sort] filter_cong)
  with keys have "map obj_Key ?os = sort (filter (\<lambda>k. prefix pre k \<and> k \<noteq> []) (map fst (f_objects f)))"
    by (rule trans)
  moreover have "distinct (map obj_Key ?os)"
    unfolding keys by (rule distinct_keysAfter [OF wf])
  moreover have "\<forall>obj \<in> set ?os. \<exists>d. fake_objs f (obj_Key obj) = Some (d, obj)"
  proof
    fix obj
    assume "obj \<in> set ?os"
    then obtain k where k: "k \<in> set ?ks" "obj = metaAt (f_objects f) k" by auto
    then obtain o' where "map_of (f_objects f) k = Some o'"
      by (auto simp: set_keysAfter dest: weak_map_of_SomeI)
    with metaAt_key(1) [OF wf k(1)] show "\<exists>d. fake_objs f (obj_Key obj) = Some (d, obj)"
      by (simp add: k(2) fake_objs_def map_of_metaAt)
  qed
  moreover have "length ?os \<le> walkPage f limit * k" using w(3) by simp
  moreover have "fake_objs f' = fake_objs f" using w(2) by (auto simp: listed_def)
  ultimately show ?thesis using w(1,2) by blast
qed

text \<open>
  C16: the suite's walk of a listing over a fake that is up. When the keys under the prefix fit
  the page bound, the walk ends without reporting a problem, it returns the metadata of exactly
  the stored objects whose keys are not empty and start with the prefix, each once and in key order,
  the number of pages is no fewer than the limit requires, and nothing is stored or removed.
\<close>

theorem listAll_fake:
  assumes "fake_up f" and "length (keysAfter f pre []) \<le> walkPage f limit * maxPages"
  shows "\<exists>objects pages f'. listAll (fake_client space hash rd) f x pre limit = (([], Inr (objects, pages)), f') \<and>
    map obj_Key objects = sort (filter (\<lambda>k. prefix pre k \<and> k \<noteq> []) (map fst (f_objects f))) \<and>
    distinct (map obj_Key objects) \<and>
    (\<forall>obj \<in> set objects. \<exists>d. fake_objs f (obj_Key obj) = Some (d, obj)) \<and>
    length objects \<le> walkPage f limit * pages \<and> fake_objs f' = fake_objs f"
  using listAll_walk [OF assms] by blast

text \<open>A fake with three objects, two of them under the prefix \<open>a/\<close>.\<close>

definition three_objects :: Fake where
  "three_objects = sample_fake\<lparr>f_objects := map (\<lambda>k. (k, \<lparr>o_meta = zeroObject\<lparr>obj_Key := k\<rparr>, o_data = []\<rparr>))
     [''b'', ''a/2'', ''a/1'']\<rparr>"

theorem listAll_fake_witness:
  "\<exists>objects pages f'. listAll (fake_client (\<lambda>_. 1) (\<lambda>d. d) bytes_Read) three_objects background ''a/'' 1 =
     (([], Inr (objects, pages)), f') \<and> map obj_Key objects = [''a/1'', ''a/2''] \<and> 2 \<le> pages"
proof -
  have up: "fake_up three_objects"
    by (simp add: three_objects_def fake_up_def fake_wf_def sample_fake_def NewFake_def zeroObject_def
        defaultPageSize_def zeroTime_def)
  have ks: "keysAfter three_objects ''a/'' [] = [''a/1'', ''a/2'']"
    "sort (filter (\<lambda>k. prefix ''a/'' k \<and> k \<noteq> []) (map fst (f_objects three_objects))) = [''a/1'', ''a/2'']"
    by code_simp+
  have n: "walkPage three_objects 1 = 1" by (simp add: walkPage_def)
  have le: "length (keysAfter three_objects ''a/'' []) \<le> walkPage three_objects 1 * maxPages"
    by (simp add: ks(1) n maxPages_def)
  from listAll_fake [OF up le, of "\<lambda>_. 1" "\<lambda>d. d" bytes_Read background, unfolded ks n]
  obtain objects pages f' where w: "listAll (fake_client (\<lambda>_. 1) (\<lambda>d. d) bytes_Read) three_objects
      background ''a/'' 1 = (([], Inr (objects, pages)), f')"
    "map obj_Key objects = [''a/1'', ''a/2'']" "length objects \<le> 1 * pages"
    by (elim exE conjE) (rule that)
  from w(2) have "length objects = 2" by (metis length_map length_Cons list.size(3) Suc_1 One_nat_def)
  with w show ?thesis by auto
qed

end
