(* ===== verification/Suite_Cases.thy ===== *)
theory Suite_Cases
  imports Suite
begin

text \<open>
  \<open>storagetest/suite.go\<close>, the conformance suite itself: its helpers that call the client, its fifteen
  cases, the missing-container check and the runner, over any value of \<open>Client\<close>. A test is a function
  of the state of a \<open>testing.TB\<close>: the client, the problems reported with \<open>Errorf\<close>, and the keys whose
  deletion is registered with \<open>Cleanup\<close>.
\<close>

section \<open>A test\<close>

record 'c testing =
  tb_c :: 'c
  tb_problems :: "problem list"
  tb_cleanup :: "string list"

text \<open>A test that stops with \<open>Fatalf\<close> is \<open>Inl\<close>; one that hangs is \<open>None\<close>.\<close>

type_synonym ('c, 'a) test = "'c testing \<Rightarrow> ((problem + 'a) \<times> 'c testing) option"

definition t_return :: "'a \<Rightarrow> ('c, 'a) test" where
  "t_return a t = Some (Inr a, t)"

definition t_bind :: "('c, 'a) test \<Rightarrow> ('a \<Rightarrow> ('c, 'b) test) \<Rightarrow> ('c, 'b) test" where
  "t_bind m k t =
     (case m t of
        None \<Rightarrow> None
      | Some (r, t') \<Rightarrow> (case r of Inl p \<Rightarrow> Some (Inl p, t') | Inr a \<Rightarrow> k a t'))"

definition t_then :: "('c, unit) test \<Rightarrow> ('c, 'b) test \<Rightarrow> ('c, 'b) test" where
  "t_then m k = t_bind m (\<lambda>_. k)"

definition t_Errors :: "problem list \<Rightarrow> ('c, unit) test" where
  "t_Errors ps t = Some (Inr (), t\<lparr>tb_problems := tb_problems t @ ps\<rparr>)"

definition t_Errorf :: "problem \<Rightarrow> ('c, unit) test" where
  "t_Errorf p = t_Errors [p]"

definition t_Fatalf :: "problem \<Rightarrow> ('c, 'a) test" where
  "t_Fatalf p t = Some (Inl p, t\<lparr>tb_problems := tb_problems t @ [p]\<rparr>)"

definition t_when :: "bool \<Rightarrow> ('c, unit) test \<Rightarrow> ('c, unit) test" where
  "t_when b m = (if b then m else t_return ())"

text \<open>A call on the client.\<close>

definition t_call :: "('c \<Rightarrow> 'a \<times> 'c) \<Rightarrow> ('c, 'a) test" where
  "t_call f t = (let (r, c') = f (tb_c t) in Some (Inr r, t\<lparr>tb_c := c'\<rparr>))"

fun t_for :: "'a list \<Rightarrow> ('a \<Rightarrow> ('c, unit) test) \<Rightarrow> ('c, unit) test" where
  "t_for [] f = t_return ()"
| "t_for (x # xs) f = t_then (f x) (t_for xs f)"

section \<open>Bodies\<close>

text \<open>The readers the suite puts, behind the interface \<open>io.Reader\<close>.\<close>

datatype body = Bytes bytes | ReadOnly "bytes readOnly" | OneByte bytes | FailAfter "bytes failAfter"

definition wrapRead :: "('s \<Rightarrow> body) \<Rightarrow> (bytes \<times> err option \<times> 's) option \<Rightarrow> (bytes \<times> err option \<times> body) option" where
  "wrapRead mk r = map_option (\<lambda>(bs, e, s). (bs, e, mk s)) r"

fun body_Read :: "body rd" where
  "body_Read (Bytes d) m = wrapRead Bytes (bytes_Read d m)"
| "body_Read (ReadOnly r) m = wrapRead ReadOnly (readOnly_Read bytes_Read r m)"
| "body_Read (OneByte d) m = wrapRead OneByte (oneByte_Read bytes_Read d m)"
| "body_Read (FailAfter f) m = wrapRead FailAfter (failAfter_Read bytes_Read f m)"

section \<open>Helpers\<close>

text \<open>
  What the suite is given and what it takes from the standard library: the client, the test's
  context, how a Get body is read and closed, how \<open>io.ReadAll\<close> grows its buffer, the pseudo-random
  bytes of \<open>largeBody\<close>, and the clock when so many deletions remain.
\<close>

record ('c, 'g) suite =
  su_cl :: "('c, body, 'g) Client"
  su_ctx :: ctx
  su_grd :: "'g rd"
  su_close :: "'g \<Rightarrow> err option"
  su_space :: "nat \<Rightarrow> nat"
  su_large :: bytes
  su_clock :: "nat \<Rightarrow> time"

definition cleanupTimeout :: int where "cleanupTimeout = 30 * second"

definition largeBodySize :: nat where "largeBodySize = 3 * 2 ^ 20"

definition errBodyBroke :: err where
  "errBodyBroke = ErrVar ''storagetest.errBodyBroke'' ''storagetest: body source broke''"

definition largeBody :: "('c, 'g) suite \<Rightarrow> bytes" where
  "largeBody u = su_large u"

definition deleteOnCleanup :: "string \<Rightarrow> ('c, unit) test" where
  "deleteOnCleanup key t = Some (Inr (), t\<lparr>tb_cleanup := key # tb_cleanup t\<rparr>)"

text \<open>A Put on its own, which reports its error.\<close>

definition callPut :: "('c, 'g) suite \<Rightarrow> string \<Rightarrow> body \<Rightarrow> PutOptions \<Rightarrow> ('c, err + Object) test" where
  "callPut u key body opts t =
     (case cl_Put (su_cl u) (tb_c t) (su_ctx u) key body opts of
        None \<Rightarrow> None
      | Some (r, c', b') \<Rightarrow> Some (Inr r, t\<lparr>tb_c := c'\<rparr>))"

definition suite_put :: "('c, 'g) suite \<Rightarrow> string \<Rightarrow> body \<Rightarrow> PutOptions \<Rightarrow> ('c, Object) test" where
  "suite_put u key body opts =
     t_then (deleteOnCleanup key)
       (t_bind (callPut u key body opts) (\<lambda>r.
          case r of
            Inl e \<Rightarrow> t_Fatalf (Problem ''Put(%q): %v'' [VStr key])
          | Inr obj \<Rightarrow> t_return obj))"

definition suite_get :: "('c, 'g) suite \<Rightarrow> string \<Rightarrow> ('c, bytes \<times> Object) test" where
  "suite_get u key =
     t_bind (t_call (\<lambda>c. cl_Get (su_cl u) c (su_ctx u) key)) (\<lambda>r.
       case r of
         Inl e \<Rightarrow> t_Fatalf (Problem ''Get(%q): %v'' [VStr key])
       | Inr blob \<Rightarrow> (\<lambda>t.
         case readAll (su_space u) (su_grd u) (blob_Body blob) [] of
           None \<Rightarrow> None
         | Some (data, e, g) \<Rightarrow>
           (if e \<noteq> None then t_Fatalf (Problem ''read Get(%q) body: %v'' [VStr key])
            else if su_close u g \<noteq> None then t_Fatalf (Problem ''close Get(%q) body: %v'' [VStr key])
            else t_return (data, blob_Object blob)) t))"

definition suite_stat :: "('c, 'g) suite \<Rightarrow> string \<Rightarrow> ('c, Object) test" where
  "suite_stat u key =
     t_bind (t_call (\<lambda>c. cl_Stat (su_cl u) c (su_ctx u) key)) (\<lambda>r.
       case r of
         Inl e \<Rightarrow> t_Fatalf (Problem ''Stat(%q): %v'' [VStr key])
       | Inr obj \<Rightarrow> t_return obj)"

fun firstDiff :: "nat \<Rightarrow> bytes \<Rightarrow> bytes \<Rightarrow> nat option" where
  "firstDiff i (a # as) (b # bs) = (if a \<noteq> b then Some i else firstDiff (i + 1) as bs)"
| "firstDiff i _ _ = None"

definition firstDifference :: "bytes \<Rightarrow> bytes \<Rightarrow> string" where
  "firstDifference got want =
     (case firstDiff 0 got want of
        Some i \<Rightarrow> '' (first difference at byte '' @ showInt (int i) @ '')''
      | None \<Rightarrow>
        if length got \<noteq> length want
        then '' (equal through byte '' @ showInt (int (min (length got) (length want))) @ '')''
        else [])"

definition wantContent ::
  "('c, 'g) suite \<Rightarrow> string \<Rightarrow> Object \<Rightarrow> bytes \<Rightarrow> string \<Rightarrow> ('c, unit) test" where
  "wantContent u key put content contentType =
     (let sz = int (length content) in
      t_then (t_Errors (wantObject ''Put'' put put key sz contentType))
        (t_bind (suite_get u key) (\<lambda>(data, obj).
           t_then (t_when (data \<noteq> content)
               (t_Errorf (Problem ''Get(%q) returned %d bytes, want the %d bytes written%s''
                 [VStr key, VInt (int (length data)), VInt (int (length content)),
                  VStr (firstDifference data content)])))
             (t_then (t_Errors (wantObject ''Get'' obj put key sz contentType))
                (t_bind (suite_stat u key) (\<lambda>st.
                   t_Errors (wantObject ''Stat'' st put key sz contentType)))))))"

text \<open>The walk of a listing, as a test.\<close>

definition t_listAll :: "('c, 'g) suite \<Rightarrow> string \<Rightarrow> int \<Rightarrow> ('c, Object list \<times> nat) test" where
  "t_listAll u pre limit t =
     (let ((ps, r), c') = listAll (su_cl u) (tb_c t) (su_ctx u) pre limit;
          t' = t\<lparr>tb_c := c', tb_problems := tb_problems t @ ps\<rparr> in
      case r of Inl p \<Rightarrow> t_Fatalf p t' | Inr v \<Rightarrow> Some (Inr v, t'))"

text \<open>
  The loop of \<open>wantKeys\<close>; \<open>seen\<close> are the keys of the objects before. The second loop ranges over a
  map, in the order of the association list.
\<close>

fun wantKeysLoop :: "string \<Rightarrow> Object smap \<Rightarrow> string list \<Rightarrow> Object list \<Rightarrow> problem list" where
  "wantKeysLoop what want seen [] = []"
| "wantKeysLoop what want seen (obj # objs) =
     (if obj_Key obj \<in> set seen then
        [Problem ''%s returned key %q %d times''
          [VStr what, VStr (obj_Key obj), VInt (int (count_list seen (obj_Key obj)) + 1)]]
      else case map_of want (obj_Key obj) of
        None \<Rightarrow> [Problem ''%s returned key %q that was not written under the prefix''
          [VStr what, VStr (obj_Key obj)]]
      | Some expected \<Rightarrow>
        (if obj_Size obj \<noteq> obj_Size expected then
           [Problem ''%s reports Size %d for %q, want %d as Put reported''
             [VStr what, VInt (obj_Size obj), VStr (obj_Key obj), VInt (obj_Size expected)]] else []) @
        (if \<not> isEntityTag (obj_ETag obj) then
           [Problem ''%s reports ETag %q for %q, want a quoted entity tag''
             [VStr what, VStr (obj_ETag obj), VStr (obj_Key obj)]]
         else if obj_ETag obj \<noteq> obj_ETag expected then
           [Problem ''%s reports ETag %q for %q, want %q as Put reported''
             [VStr what, VStr (obj_ETag obj), VStr (obj_Key obj), VStr (obj_ETag expected)]]
         else []) @
        (if loc (obj_ModifiedAt obj) \<noteq> UTC then
           [Problem ''%s reports ModifiedAt %v for %q in zone %q, want it in time.UTC''
             [VStr what, VInt (instant (obj_ModifiedAt obj)), VStr (obj_Key obj)]] else [])) @
     wantKeysLoop what want (obj_Key obj # seen) objs"

definition wantKeys :: "string \<Rightarrow> Object list \<Rightarrow> Object smap \<Rightarrow> problem list" where
  "wantKeys what objects want =
     wantKeysLoop what want [] objects @
     concat (map (\<lambda>(key, obj). if key \<in> set (map obj_Key objects) then []
       else [Problem ''%s did not return key %q'' [VStr what, VStr key]]) want)"

definition wantAbsent :: "('c, 'g) suite \<Rightarrow> string \<Rightarrow> string \<Rightarrow> ('c, unit) test" where
  "wantAbsent u pre key =
     t_bind (t_call (\<lambda>c. cl_Stat (su_cl u) c (su_ctx u) key)) (\<lambda>r.
       t_then (t_Errors (wantNotFound ''Stat after a failed Put of a fresh key'' (errOf r)))
         (t_bind (t_listAll u pre 0) (\<lambda>(objects, pages).
            t_Errors (concat (map (\<lambda>obj. if obj_Key obj = key
              then [Problem ''List shows %q after a failed Put of a fresh key, want it absent'' [VStr key]]
              else []) objects)))))"

section \<open>The cases\<close>

abbreviation put_opts :: "string \<Rightarrow> int \<Rightarrow> PutOptions" where
  "put_opts ct n \<equiv> \<lparr>po_ContentType = ct, po_Size = n\<rparr>"

definition checkEnsureContainer :: "('c, 'g) suite \<Rightarrow> string \<Rightarrow> ('c, unit) test" where
  "checkEnsureContainer u pre =
     t_then (t_for [0, 1] (\<lambda>i.
         t_bind (t_call (\<lambda>c. cl_EnsureContainer (su_cl u) c (su_ctx u))) (\<lambda>e.
           t_when (e \<noteq> None) (t_Fatalf (Problem ''EnsureContainer call %d over an existing container: %v'' [VInt (i + 1)])))))
       (t_bind (t_call (\<lambda>c. cl_Probe (su_cl u) c (su_ctx u))) (\<lambda>e.
          t_when (e \<noteq> None) (t_Errorf (Problem ''Probe after EnsureContainer = %v, want nil'' []))))"

text \<open>The cases that put one body and check what is then stored share their shape.\<close>

definition putAndWant ::
  "('c, 'g) suite \<Rightarrow> string \<Rightarrow> body \<Rightarrow> PutOptions \<Rightarrow> bytes \<Rightarrow> string \<Rightarrow> ('c, unit) test" where
  "putAndWant u key body opts content contentType =
     t_bind (suite_put u key body opts) (\<lambda>obj. wantContent u key obj content contentType)"

definition checkRoundTrip :: "('c, 'g) suite \<Rightarrow> string \<Rightarrow> ('c, unit) test" where
  "checkRoundTrip u pre =
     (let content = ''hello, storage'' in
      putAndWant u (pre @ ''hello.txt'') (Bytes content) (put_opts ''text/plain'' (int (length content)))
        content ''text/plain'')"

definition checkLargeBody :: "('c, 'g) suite \<Rightarrow> string \<Rightarrow> ('c, unit) test" where
  "checkLargeBody u pre =
     (let content = largeBody u in
      putAndWant u (pre @ ''large.bin'') (Bytes content)
        (put_opts ''application/octet-stream'' (int (length content))) content ''application/octet-stream'')"

definition checkEmptyBody :: "('c, 'g) suite \<Rightarrow> string \<Rightarrow> ('c, unit) test" where
  "checkEmptyBody u pre =
     putAndWant u (pre @ ''empty'') (Bytes []) (put_opts ''text/plain'' 0) [] ''text/plain''"

definition secondContent :: bytes where
  "secondContent = [CHR 0x7B, CHR 0x22] @ ''second'' @ [CHR 0x22] @ '': true}''"

definition checkReplace :: "('c, 'g) suite \<Rightarrow> string \<Rightarrow> ('c, unit) test" where
  "checkReplace u pre =
     (let key = pre @ ''replaced'' in
      t_bind (suite_put u key (Bytes ''first'') (put_opts ''text/plain'' 0)) (\<lambda>first.
      t_bind (suite_put u key (Bytes secondContent) (put_opts ''application/json'' 0)) (\<lambda>second.
      t_then (t_when (obj_ETag second = obj_ETag first)
          (t_Errorf (Problem ''ETag %q unchanged after a replace with different content'' [VStr (obj_ETag second)])))
      (t_then (wantContent u key second secondContent ''application/json'')
      (t_bind (t_listAll u pre 0) (\<lambda>(objects, pages).
         t_Errors (wantKeys ''List after the replace'' objects [(key, second)])))))))"

definition checkMissingKey :: "('c, 'g) suite \<Rightarrow> string \<Rightarrow> ('c, unit) test" where
  "checkMissingKey u pre =
     (let key = pre @ ''missing'' in
      t_bind (t_call (\<lambda>c. cl_Get (su_cl u) c (su_ctx u) key)) (\<lambda>g.
      t_then (t_Errors (wantNotFound ''Get of a missing key'' (errOf g)))
      (t_bind (t_call (\<lambda>c. cl_Stat (su_cl u) c (su_ctx u) key)) (\<lambda>s.
         t_Errors (wantNotFound ''Stat of a missing key'' (errOf s))))))"

definition checkDelete :: "('c, 'g) suite \<Rightarrow> string \<Rightarrow> ('c, unit) test" where
  "checkDelete u pre =
     (let key = pre @ ''deleted'' in
      t_bind (suite_put u key (Bytes ''gone soon'') (put_opts [] 0)) (\<lambda>_.
      t_bind (t_call (\<lambda>c. cl_Delete (su_cl u) c (su_ctx u) key)) (\<lambda>e.
      t_then (t_when (e \<noteq> None) (t_Fatalf (Problem ''Delete(%q): %v'' [VStr key])))
      (t_bind (t_call (\<lambda>c. cl_Stat (su_cl u) c (su_ctx u) key)) (\<lambda>s.
      t_then (t_Errors (wantNotFound ''Stat after Delete'' (errOf s)))
      (t_bind (t_call (\<lambda>c. cl_Get (su_cl u) c (su_ctx u) key)) (\<lambda>g.
      t_then (t_Errors (wantNotFound ''Get after Delete'' (errOf g)))
      (t_bind (t_call (\<lambda>c. cl_Delete (su_cl u) c (su_ctx u) key)) (\<lambda>e2.
      t_then (t_when (e2 \<noteq> None) (t_Errorf (Problem ''second Delete(%q) = %v, want nil'' [VStr key])))
      (t_bind (t_call (\<lambda>c. cl_Delete (su_cl u) c (su_ctx u) (pre @ ''never-written''))) (\<lambda>e3.
         t_when (e3 \<noteq> None) (t_Errorf (Problem ''Delete of a never-written key = %v, want nil'' [])))))))))))))"

text \<open>The first loop of \<open>checkList\<close>: the objects it put, in a map.\<close>

fun putNames :: "('c, 'g) suite \<Rightarrow> string \<Rightarrow> string list \<Rightarrow> Object smap \<Rightarrow> ('c, Object smap) test" where
  "putNames u pre [] written = t_return written"
| "putNames u pre (name # names) written =
     t_bind (suite_put u (pre @ name) (Bytes (name @ '' content'')) (put_opts [] 0)) (\<lambda>obj.
       putNames u pre names (AList.update (pre @ name) obj written))"

definition listNames :: "string list" where
  "listNames = [''a'', ''b/1'', ''b/2'', ''b/3'', ''c'', ''d'', ''e'']"

definition siblingKey :: "string \<Rightarrow> string" where
  "siblingKey pre = trimSuffix pre ''/'' @ ''-sibling/other''"

definition underAt :: "Object smap \<Rightarrow> string \<Rightarrow> string \<times> Object" where
  "underAt written key = (key, case map_of written key of Some obj \<Rightarrow> obj | None \<Rightarrow> zeroObject)"

definition checkList :: "('c, 'g) suite \<Rightarrow> string \<Rightarrow> ('c, unit) test" where
  "checkList u pre =
     t_bind (putNames u pre listNames []) (\<lambda>written.
     t_bind (suite_put u (siblingKey pre) (Bytes ''other'') (put_opts [] 0)) (\<lambda>_.
     t_bind (t_listAll u pre 0) (\<lambda>(objects, _).
     t_then (t_Errors (wantKeys ''List with the default page size'' objects written))
     (t_bind (t_listAll u pre 2) (\<lambda>(objects2, pages).
     t_then (t_Errors (wantKeys ''List with Limit 2'' objects2 written))
     (t_then (t_when (pages < 4)
         (t_Errorf (Problem ''List with Limit 2 walked %d keys in %d pages, want at least 4''
           [VInt (int (length written)), VInt (int pages)])))
     (t_bind (t_listAll u (pre @ ''b/'') 0) (\<lambda>(objects3, _).
     t_then (t_Errors (wantKeys ''List of a nested prefix'' objects3
         (map (\<lambda>name. underAt written (pre @ name)) [''b/1'', ''b/2'', ''b/3''])))
     (t_bind (t_call (\<lambda>c. cl_List (su_cl u) c (su_ctx u)
         \<lparr>lo_Prefix = pre @ ''nothing-here/'', lo_Token = [], lo_Limit = 0\<rparr>)) (\<lambda>r.
       case r of
         Inl e \<Rightarrow> t_Fatalf (Problem ''List of an unmatched prefix: %v'' [])
       | Inr page \<Rightarrow> t_when (pg_Objects page \<noteq> [] \<or> pg_Next page \<noteq> [])
           (t_Errorf (Problem ''List of an unmatched prefix = %+v, want no objects and an empty Next'' []))))))))))))"

definition checkPutDeclaredSize :: "('c, 'g) suite \<Rightarrow> string \<Rightarrow> ('c, unit) test" where
  "checkPutDeclaredSize u pre =
     (let content = ''a body whose length the caller declared'' in
      putAndWant u (pre @ ''declared'') (Bytes content) (put_opts [] (int (length content)))
        content ''application/octet-stream'')"

definition checkPutUnknownSize :: "('c, 'g) suite \<Rightarrow> string \<Rightarrow> ('c, unit) test" where
  "checkPutUnknownSize u pre =
     (let content = ''a body whose length the caller did not declare'' in
      putAndWant u (pre @ ''unknown'') (Bytes content) (put_opts [] 0) content ''application/octet-stream'')"

definition checkPutNonSeekableBody :: "('c, 'g) suite \<Rightarrow> string \<Rightarrow> ('c, unit) test" where
  "checkPutNonSeekableBody u pre =
     (let content = take (largeBodySize div 2) (largeBody u) in
      putAndWant u (pre @ ''non-seekable'') (ReadOnly \<lparr>ro_r = content\<rparr>)
        (put_opts ''application/octet-stream'' 0) content ''application/octet-stream'')"

definition checkPutOneByteReads :: "('c, 'g) suite \<Rightarrow> string \<Rightarrow> ('c, unit) test" where
  "checkPutOneByteReads u pre =
     (let content = ''delivered one byte per Read'' in
      putAndWant u (pre @ ''one-byte-reads'') (OneByte content) (put_opts [] 0) content ''application/octet-stream'')"

section \<open>Failing Puts\<close>

record failedPut =
  fp_name :: string
  fp_body :: body
  fp_opts :: PutOptions

definition oldContent :: bytes where
  "oldContent = ''the object stored before the failed replace''"

definition checkFailedPut :: "('c, 'g) suite \<Rightarrow> string \<Rightarrow> int \<times> failedPut \<Rightarrow> ('c, unit) test" where
  "checkFailedPut u pre = (\<lambda>(i, fp).
     let fresh = pre @ ''fresh-'' @ showInt i; existing = pre @ ''existing-'' @ showInt i in
     t_then (deleteOnCleanup fresh)
     (t_bind (callPut u fresh (fp_body fp) (fp_opts fp)) (\<lambda>r.
     t_then (t_when (errOf r = None) (t_Errorf (Problem ''Put(%s) of a fresh key = nil, want an error'' [VStr (fp_name fp)])))
     (t_then (wantAbsent u pre fresh)
     (t_bind (suite_put u existing (Bytes oldContent) (put_opts ''text/plain'' (int (length oldContent)))) (\<lambda>before.
     t_bind (callPut u existing (fp_body fp) (fp_opts fp)) (\<lambda>r2.
     t_then (t_when (errOf r2 = None)
         (t_Errorf (Problem ''Put(%s) over an existing key = nil, want an error'' [VStr (fp_name fp)])))
     (wantContent u existing before oldContent ''text/plain''))))))))"

definition checkFailedPuts :: "('c, 'g) suite \<Rightarrow> string \<Rightarrow> failedPut list \<Rightarrow> ('c, unit) test" where
  "checkFailedPuts u pre puts = t_for (zip (map int [0..<length puts]) puts) (checkFailedPut u pre)"

definition checkPutBodyFailsMidway :: "('c, 'g) suite \<Rightarrow> string \<Rightarrow> ('c, unit) test" where
  "checkPutBodyFailsMidway u pre =
     (let broken = (\<lambda>n. FailAfter \<lparr>fa_r = take n (largeBody u), fa_err = errBodyBroke\<rparr>) in
      checkFailedPuts u pre
        [\<lparr>fp_name = ''body fails after 10 bytes'', fp_body = broken 10, fp_opts = put_opts ''application/json'' 0\<rparr>,
         \<lparr>fp_name = ''body fails after the large size'', fp_body = broken largeBodySize,
           fp_opts = put_opts ''application/json'' 0\<rparr>])"

definition smallContent :: bytes where
  "smallContent = ''a body of thirty-two bytes, here''"

definition checkPutSizeMismatch :: "('c, 'g) suite \<Rightarrow> string \<Rightarrow> ('c, unit) test" where
  "checkPutSizeMismatch u pre =
     (let n = int (length smallContent) in
      checkFailedPuts u pre
        [\<lparr>fp_name = ''Size shorter than the body'', fp_body = Bytes smallContent,
           fp_opts = put_opts ''application/json'' (n - 1)\<rparr>,
         \<lparr>fp_name = ''Size longer than the body'', fp_body = Bytes smallContent,
           fp_opts = put_opts ''application/json'' (n + 1)\<rparr>,
         \<lparr>fp_name = ''Size shorter than a large body'', fp_body = Bytes (largeBody u),
           fp_opts = put_opts ''application/json'' (int largeBodySize - 1)\<rparr>,
         \<lparr>fp_name = ''Size longer than a large body'', fp_body = Bytes (largeBody u),
           fp_opts = put_opts ''application/json'' (int largeBodySize + 1)\<rparr>])"

section \<open>Capabilities, the missing container, the runner\<close>

definition checkCapabilities :: "('c, 'g) suite \<Rightarrow> string \<Rightarrow> ('c, unit) test" where
  "checkCapabilities u pre t =
     (let caps = cl_Capabilities (su_cl u) (tb_c t) in
      t_then (t_when (cap_MaxKeyLength caps \<le> 0)
          (t_Errorf (Problem ''Capabilities().MaxKeyLength = %d, want positive'' [VInt (cap_MaxKeyLength caps)])))
        (case cap_ValidateKey caps of
           None \<Rightarrow> t_Fatalf (Problem ''Capabilities().ValidateKey is nil, want a function'' [])
         | Some validateKey \<Rightarrow>
           t_then (t_when (validateKey (pre @ ''ordinary-key.txt'') \<noteq> None)
               (t_Errorf (Problem ''ValidateKey of an ordinary key = %v, want nil'' [])))
           (t_then (t_when (validateKey [] = None)
               (t_Errorf (Problem ''ValidateKey of an empty key = nil, want an error'' [])))
           (t_when (cap_MaxKeyLength caps > 0 \<and>
                validateKey (replicate (nat (cap_MaxKeyLength caps + 1)) (CHR ''a'')) = None)
              (t_Errorf (Problem ''ValidateKey of a %d-character key = nil, want an error past MaxKeyLength %d''
                [VInt (cap_MaxKeyLength caps + 1), VInt (cap_MaxKeyLength caps)]))))) t)"

text \<open>One call of the missing-container check, by its name.\<close>

definition wantNoContainer :: "string \<Rightarrow> err option \<Rightarrow> problem list" where
  "wantNoContainer name e =
     (if \<not> errors_Is_opt e ErrContainerNotFound
      then [Problem ''%s without a container = %v, want ErrContainerNotFound'' [VStr name]] else []) @
     (if errors_Is_opt e ErrNotFound
      then [Problem ''%s without a container = %v, want it not to match ErrNotFound'' [VStr name]] else [])"

definition checkMissingContainer :: "('c, 'g) suite \<Rightarrow> string \<Rightarrow> ('c, unit) test" where
  "checkMissingContainer u pre =
     (let key = pre @ ''absent.txt'' in
      t_bind (t_call (\<lambda>c. cl_Probe (su_cl u) c (su_ctx u))) (\<lambda>e.
      t_then (t_Errors (wantNoContainer ''Probe'' e))
      (t_bind (callPut u key (Bytes ''x'') (put_opts [] 1)) (\<lambda>r.
      t_then (t_when (errOf r = None) (deleteOnCleanup key))
      (t_then (t_Errors (wantNoContainer ''Put'' (errOf r)))
      (t_bind (t_call (\<lambda>c. cl_Get (su_cl u) c (su_ctx u) key)) (\<lambda>g.
      t_then (t_Errors (wantNoContainer ''Get'' (errOf g)))
      (t_bind (t_call (\<lambda>c. cl_Stat (su_cl u) c (su_ctx u) key)) (\<lambda>s.
      t_then (t_Errors (wantNoContainer ''Stat'' (errOf s)))
      (t_bind (t_call (\<lambda>c. cl_Delete (su_cl u) c (su_ctx u) key)) (\<lambda>d.
      t_then (t_Errors (wantNoContainer ''Delete'' d))
      (t_bind (t_call (\<lambda>c. cl_List (su_cl u) c (su_ctx u) \<lparr>lo_Prefix = [], lo_Token = [], lo_Limit = 0\<rparr>)) (\<lambda>l.
         t_Errors (wantNoContainer ''List'' (errOf l)))))))))))))))"

definition suite_cases :: "('c, 'g) suite \<Rightarrow> (string \<times> (string \<Rightarrow> ('c, unit) test)) list" where
  "suite_cases u =
     [(''EnsureContainer'', checkEnsureContainer u), (''RoundTrip'', checkRoundTrip u),
      (''LargeBody'', checkLargeBody u), (''EmptyBody'', checkEmptyBody u), (''Replace'', checkReplace u),
      (''MissingKey'', checkMissingKey u), (''Delete'', checkDelete u), (''List'', checkList u),
      (''PutDeclaredSize'', checkPutDeclaredSize u), (''PutUnknownSize'', checkPutUnknownSize u),
      (''PutNonSeekableBody'', checkPutNonSeekableBody u), (''PutOneByteReads'', checkPutOneByteReads u),
      (''PutBodyFailsMidway'', checkPutBodyFailsMidway u), (''PutSizeMismatch'', checkPutSizeMismatch u),
      (''Capabilities'', checkCapabilities u)]"

text \<open>
  \<open>newPrefix\<close> is \<open>hex.EncodeToString\<close> of the eight bytes that \<open>rand.Read\<close> gives; its outcome is the
  argument.
\<close>

definition prefixOf :: "bytes \<Rightarrow> string" where
  "prefixOf random = ''storagetest/'' @ hexEncode random @ ''/''"

definition newPrefix :: "err + bytes \<Rightarrow> ('c, string) test" where
  "newPrefix random =
     (case random of
        Inl e \<Rightarrow> t_Fatalf (Problem ''random prefix: %v'' [])
      | Inr b \<Rightarrow> t_return (prefixOf b))"

text \<open>When a test ends, however it ends, the registered deletions run, the last first.\<close>

fun cleanup :: "('c, 'g) suite \<Rightarrow> string list \<Rightarrow> 'c \<Rightarrow> 'c" where
  "cleanup u [] c = c"
| "cleanup u (key # keys) c =
     cleanup u keys (snd (cl_Delete (su_cl u) c (withTimeout (su_clock u (length keys)) background cleanupTimeout) key))"

definition runTest :: "('c, 'g) suite \<Rightarrow> ('c, unit) test \<Rightarrow> 'c \<Rightarrow> (problem list \<times> 'c) option" where
  "runTest u m c =
     (case m \<lparr>tb_c = c, tb_problems = [], tb_cleanup = []\<rparr> of
        None \<Rightarrow> None
      | Some (r, t) \<Rightarrow> Some (tb_problems t, cleanup u (tb_cleanup t) (tb_c t)))"

text \<open>
  \<open>run\<close> ensures the container and checks one case under a fresh prefix. \<open>Run\<close> runs every case on a
  client of its own; the result of each is its problems and what is left of the client.
\<close>

definition runCase :: "('c, 'g) suite \<Rightarrow> (string \<Rightarrow> ('c, unit) test) \<Rightarrow> err + bytes \<Rightarrow> ('c, unit) test" where
  "runCase u check random =
     t_bind (t_call (\<lambda>c. cl_EnsureContainer (su_cl u) c (su_ctx u))) (\<lambda>e.
       if e \<noteq> None then t_Fatalf (Problem ''EnsureContainer: %v'' [])
       else t_bind (newPrefix random) check)"

definition Run ::
  "('c, 'g) suite \<Rightarrow> (nat \<Rightarrow> 'c) \<Rightarrow> (nat \<Rightarrow> err + bytes) \<Rightarrow> (string \<times> (problem list \<times> 'c) option) list" where
  "Run u newClient random =
     map (\<lambda>(i, name, check). (name, runTest u (runCase u check (random i)) (newClient i)))
       (zip [0..<length (suite_cases u)] (suite_cases u))"

definition RunMissingContainer :: "('c, 'g) suite \<Rightarrow> 'c \<Rightarrow> err + bytes \<Rightarrow> (problem list \<times> 'c) option" where
  "RunMissingContainer u c random = runTest u (t_bind (newPrefix random) (checkMissingContainer u)) c"

end
