(* ===== verification/Suite_Passes.thy ===== *)
theory Suite_Passes
  imports Suite_Cases
begin

text \<open>
  What a client has to do for the conformance suite to pass, as the locale \<open>suite_ready\<close>: each
  operation succeeds or fails as the contract says, on every call. The cases are proved to report
  nothing over any such client, and the in-memory fake is one, so the suite passes over the fake.
\<close>

section \<open>Bodies\<close>

fun body_content :: "body \<Rightarrow> bytes" where
  "body_content (Bytes d) = d"
| "body_content (ReadOnly r) = ro_r r"
| "body_content (OneByte d) = d"
| "body_content (FailAfter f) = fa_r f"

fun body_fin :: "body \<Rightarrow> err" where
  "body_fin (FailAfter f) = fa_err f"
| "body_fin _ = EOF"

lemmas body_read_defs [reader_defs] = wrapRead_def bytes_Read_def readOnly_Read_def oneByte_Read_def failAfter_Read_def

interpretation body_rd: stream_reader body_Read "\<lambda>_. True" body_content body_fin "\<lambda>b. length (body_content b)"
proof (unfold_locales, goal_cases)
  case (1 b m)
  then show ?case
    by (cases b) (auto simp: reader_defs Let_def)
next
  case (2 b m bs e b')
  then show ?case
    by (cases b) (auto simp: reader_defs Let_def
        split: if_splits)
next
  case (3 b m bs b')
  then show ?case
    by (cases b) (auto simp: reader_defs Let_def
        neq_Nil_conv split: if_splits)
next
  case (4 b m bs e b')
  then show ?case
    by (cases b) (auto simp: reader_defs Let_def
        split: if_splits)
qed

section \<open>Assertions that hold\<close>

definition not_found :: "err \<Rightarrow> bool" where
  "not_found e \<longleftrightarrow> errors_Is e ErrNotFound \<and> \<not> errors_Is e ErrContainerNotFound \<and> \<not> errors_Is e ErrUnavailable"

definition describes :: "string \<Rightarrow> bytes \<Rightarrow> string \<Rightarrow> Object \<Rightarrow> bool" where
  "describes key d contentType obj \<longleftrightarrow>
     obj_Key obj = key \<and> obj_Size obj = int (length d) \<and> obj_ContentType obj = contentType \<and>
     isEntityTag (obj_ETag obj) \<and> instant (obj_ModifiedAt obj) \<noteq> 0 \<and> loc (obj_ModifiedAt obj) = UTC"

lemma wantNotFound_none: "not_found e \<Longrightarrow> wantNotFound what (Some e) = []"
  by (simp add: wantNotFound_def not_found_def)

lemma isEntityTag_nonempty: "isEntityTag s \<Longrightarrow> s \<noteq> []"
  by (auto simp: isEntityTag_def trimPrefix_def)

lemma wantObject_none:
  "describes key d ct obj \<Longrightarrow> sz = int (length d) \<Longrightarrow> wantObject what obj obj key sz ct = []"
  by (auto simp: wantObject_def describes_def isEntityTag_nonempty)

lemma wantKeysLoop_none:
  "distinct (map obj_Key objs) \<Longrightarrow> set seen \<inter> set (map obj_Key objs) = {} \<Longrightarrow>
   (\<forall>obj \<in> set objs. map_of want (obj_Key obj) = Some obj \<and> isEntityTag (obj_ETag obj) \<and>
     loc (obj_ModifiedAt obj) = UTC) \<Longrightarrow>
   wantKeysLoop what want seen objs = []"
  by (induction objs arbitrary: seen) auto

lemma wantKeys_none:
  assumes "distinct (map obj_Key objs)"
    and "\<forall>obj \<in> set objs. map_of want (obj_Key obj) = Some obj \<and> isEntityTag (obj_ETag obj) \<and>
      loc (obj_ModifiedAt obj) = UTC"
    and "set (map fst want) \<subseteq> obj_Key ` set objs"
  shows "wantKeys what objs want = []"
  using assms wantKeysLoop_none [of objs "[]" want what] by (auto simp: wantKeys_def)

lemma t_simps [simp]:
  "t_return a t = Some (Inr a, t)"
  "t_Errors [] t = Some (Inr (), t)"
  "t_when False m = t_return ()"
  "t_when True m = m"
  "t_call f t = (let (r, c') = f (tb_c t) in Some (Inr r, t\<lparr>tb_c := c'\<rparr>))"
  "deleteOnCleanup key t = Some (Inr (), t\<lparr>tb_cleanup := key # tb_cleanup t\<rparr>)"
  by (simp_all add: t_return_def t_Errors_def t_when_def t_call_def deleteOnCleanup_def)

lemma t_bind_ok [simp]: "m t = Some (Inr a, t') \<Longrightarrow> t_bind m k t = k a t'"
  by (simp add: t_bind_def)

lemma t_then_ok [simp]: "m t = Some (Inr a, t') \<Longrightarrow> t_then m k t = k t'"
  by (simp add: t_then_def)

text \<open>
  The key that \<open>checkList\<close> writes beside the prefix does not start with it, although the comment on
  \<open>testCase\<close> asks that of every key a case writes.
\<close>

lemma sibling_outside: "suffix ''/'' pre \<Longrightarrow> \<not> prefix pre (siblingKey pre)"
  by (auto simp: suffix_def siblingKey_def trimSuffix_def)

text \<open>A loop whose turns keep an invariant and report nothing.\<close>

lemma t_for_run:
  assumes "I 0 t"
    and "\<And>i t. i < length xs \<Longrightarrow> I i t \<Longrightarrow>
      \<exists>t'. f (xs ! i) t = Some (Inr (), t') \<and> tb_problems t' = tb_problems t \<and> I (Suc i) t'"
  shows "\<exists>t'. t_for xs f t = Some (Inr (), t') \<and> tb_problems t' = tb_problems t \<and> I (length xs) t'"
  using assms
proof (induction xs arbitrary: I t)
  case (Cons x xs)
  from Cons.prems(2) [of 0, OF _ Cons.prems(1)] obtain t1 where
    t1: "f x t = Some (Inr (), t1)" "tb_problems t1 = tb_problems t" "I (Suc 0) t1" by auto
  have "\<exists>t'. t_for xs f t1 = Some (Inr (), t') \<and> tb_problems t' = tb_problems t1 \<and> I (Suc (length xs)) t'"
    by (rule Cons.IH [of "\<lambda>i. I (Suc i)", OF t1(3)]) (use Cons.prems(2) in force)
  with t1 show ?case by auto
qed simp

section \<open>A client that is ready\<close>

locale suite_ready =
  fixes u :: "('c, 'g) suite" and S :: "'c \<Rightarrow> bool" and objs :: "'c \<Rightarrow> string \<rightharpoonup> (bytes \<times> Object)"
    and tag :: "bytes \<Rightarrow> string"
  assumes put_stores: "S c \<Longrightarrow> body_fin b = EOF \<Longrightarrow>
      po_Size opts \<le> 0 \<or> int (length (body_content b)) = po_Size opts \<Longrightarrow>
      \<exists>obj c' b'. cl_Put (su_cl u) c (su_ctx u) k b opts = Some (Inr obj, c', b') \<and> S c' \<and>
        objs c' = (objs c)(k \<mapsto> (body_content b, obj)) \<and> describes k (body_content b) (storedType opts) obj \<and>
        obj_ETag obj = tag (body_content b)"
    and put_fails: "S c \<Longrightarrow>
      body_fin b \<noteq> EOF \<or> (0 < po_Size opts \<and> int (length (body_content b)) \<noteq> po_Size opts) \<Longrightarrow>
      \<exists>e c' b'. cl_Put (su_cl u) c (su_ctx u) k b opts = Some (Inl e, c', b') \<and> S c' \<and> objs c' = objs c"
    and get_found: "S c \<Longrightarrow> objs c k = Some (d, obj) \<Longrightarrow>
      \<exists>blob c' g. cl_Get (su_cl u) c (su_ctx u) k = (Inr blob, c') \<and> S c' \<and> objs c' = objs c \<and>
        blob_Object blob = obj \<and> readAll (su_space u) (su_grd u) (blob_Body blob) [] = Some (d, None, g) \<and>
        su_close u g = None"
    and get_missing: "S c \<Longrightarrow> objs c k = None \<Longrightarrow>
      \<exists>e c'. cl_Get (su_cl u) c (su_ctx u) k = (Inl e, c') \<and> S c' \<and> objs c' = objs c \<and> not_found e"
    and stat_found: "S c \<Longrightarrow> objs c k = Some (d, obj) \<Longrightarrow>
      \<exists>c'. cl_Stat (su_cl u) c (su_ctx u) k = (Inr obj, c') \<and> S c' \<and> objs c' = objs c"
    and stat_missing: "S c \<Longrightarrow> objs c k = None \<Longrightarrow>
      \<exists>e c'. cl_Stat (su_cl u) c (su_ctx u) k = (Inl e, c') \<and> S c' \<and> objs c' = objs c \<and> not_found e"
    and delete_any: "S c \<Longrightarrow>
      \<exists>c'. cl_Delete (su_cl u) c x k = (None, c') \<and> S c' \<and> objs c' = (objs c)(k := None)"
    and walk: "S c \<Longrightarrow> pre \<noteq> [] \<Longrightarrow> {k. prefix pre k \<and> objs c k \<noteq> None} \<subseteq> set ks \<Longrightarrow> length ks \<le> maxPages \<Longrightarrow>
      \<exists>objects pages c'. listAll (su_cl u) c (su_ctx u) pre limit = (([], Inr (objects, pages)), c') \<and>
        S c' \<and> objs c' = objs c \<and> distinct (map obj_Key objects) \<and>
        (\<forall>k d obj. prefix pre k \<longrightarrow> objs c k = Some (d, obj) \<longrightarrow> obj_Key obj = k \<and> obj \<in> set objects) \<and>
        (\<forall>obj \<in> set objects. prefix pre (obj_Key obj) \<and> (\<exists>d. objs c (obj_Key obj) = Some (d, obj))) \<and>
        (0 < limit \<longrightarrow> int (length objects) \<le> limit * int pages)"
    and list_none: "S c \<Longrightarrow> pre \<noteq> [] \<Longrightarrow> (\<forall>k. prefix pre k \<longrightarrow> objs c k = None) \<Longrightarrow>
      \<exists>c'. cl_List (su_cl u) c (su_ctx u) \<lparr>lo_Prefix = pre, lo_Token = [], lo_Limit = 0\<rparr> =
        (Inr \<lparr>pg_Objects = [], pg_Next = []\<rparr>, c') \<and> S c' \<and> objs c' = objs c"
    and list_keeps: "S c \<Longrightarrow> cl_List (su_cl u) c (su_ctx u) lo = (r, c') \<Longrightarrow> S c' \<and> objs c' = objs c"
    and ensure_any: "S c \<Longrightarrow>
      \<exists>c'. cl_EnsureContainer (su_cl u) c (su_ctx u) = (None, c') \<and> S c' \<and> objs c' = objs c"
    and probe_any: "S c \<Longrightarrow> \<exists>c'. cl_Probe (su_cl u) c (su_ctx u) = (None, c') \<and> S c' \<and> objs c' = objs c"
    and caps: "S c \<Longrightarrow> 0 < cap_MaxKeyLength (cl_Capabilities (su_cl u) c) \<and>
      (\<exists>v. cap_ValidateKey (cl_Capabilities (su_cl u) c) = Some v \<and> v [] \<noteq> None \<and>
        (\<forall>r. length r = 8 \<longrightarrow> v (prefixOf r @ ''ordinary-key.txt'') = None) \<and>
        (\<forall>n. cap_MaxKeyLength (cl_Capabilities (su_cl u) c) < int n \<longrightarrow> v (replicate n (CHR ''a'')) \<noteq> None))"
begin

text \<open>The helpers over a ready client: what they return, and that they report nothing.\<close>

lemma put_run:
  assumes "S (tb_c t)" "body_fin b = EOF" "po_Size opts \<le> 0 \<or> int (length (body_content b)) = po_Size opts"
  shows "\<exists>obj t'. suite_put u k b opts t = Some (Inr obj, t') \<and> tb_problems t' = tb_problems t \<and> S (tb_c t') \<and>
    objs (tb_c t') = (objs (tb_c t))(k \<mapsto> (body_content b, obj)) \<and>
    describes k (body_content b) (storedType opts) obj \<and> obj_ETag obj = tag (body_content b)"
proof -
  from put_stores [OF assms, of k] obtain obj c' b' where
    "cl_Put (su_cl u) (tb_c t) (su_ctx u) k b opts = Some (Inr obj, c', b')" "S c'"
    "objs c' = (objs (tb_c t))(k \<mapsto> (body_content b, obj))" "describes k (body_content b) (storedType opts) obj"
    "obj_ETag obj = tag (body_content b)" by (elim exE conjE) (rule that)
  then show ?thesis by (simp add: suite_put_def callPut_def t_bind_def)
qed

lemma get_run:
  assumes "S (tb_c t)" "objs (tb_c t) k = Some (d, obj)"
  shows "\<exists>t'. suite_get u k t = Some (Inr (d, obj), t') \<and> tb_problems t' = tb_problems t \<and> S (tb_c t') \<and>
    objs (tb_c t') = objs (tb_c t)"
proof -
  from get_found [OF assms] obtain blob c' g where
    "cl_Get (su_cl u) (tb_c t) (su_ctx u) k = (Inr blob, c')" "S c'" "objs c' = objs (tb_c t)"
    "blob_Object blob = obj" "readAll (su_space u) (su_grd u) (blob_Body blob) [] = Some (d, None, g)"
    "su_close u g = None" by (elim exE conjE) (rule that)
  then show ?thesis by (simp add: suite_get_def)
qed

lemma stat_run:
  assumes "S (tb_c t)" "objs (tb_c t) k = Some (d, obj)"
  shows "\<exists>t'. suite_stat u k t = Some (Inr obj, t') \<and> tb_problems t' = tb_problems t \<and> S (tb_c t') \<and>
    objs (tb_c t') = objs (tb_c t)"
  using stat_found [OF assms] by (auto simp: suite_stat_def)

lemma wantContent_run:
  assumes "S (tb_c t)" "objs (tb_c t) k = Some (d, obj)" "describes k d ct obj"
  shows "\<exists>t'. wantContent u k obj d ct t = Some (Inr (), t') \<and> tb_problems t' = tb_problems t \<and> S (tb_c t') \<and>
    objs (tb_c t') = objs (tb_c t)"
proof -
  note none = wantObject_none [OF assms(3) refl]
  from get_run [OF assms(1,2)] obtain t1 where t1: "suite_get u k t = Some (Inr (d, obj), t1)"
    "tb_problems t1 = tb_problems t" "S (tb_c t1)" "objs (tb_c t1) = objs (tb_c t)" by (elim exE conjE) (rule that)
  with assms(2) have "objs (tb_c t1) k = Some (d, obj)" by simp
  from stat_run [OF t1(3) this] obtain t2 where t2: "suite_stat u k t1 = Some (Inr obj, t2)"
    "tb_problems t2 = tb_problems t1" "S (tb_c t2)" "objs (tb_c t2) = objs (tb_c t1)" by (elim exE conjE) (rule that)
  with t1 none show ?thesis by (simp add: wantContent_def Let_def)
qed

lemma putAndWant_run:
  assumes "S (tb_c t)" "body_fin b = EOF" "po_Size opts \<le> 0 \<or> int (length (body_content b)) = po_Size opts"
    "content = body_content b" "ct = storedType opts"
  shows "\<exists>t'. putAndWant u k b opts content ct t = Some (Inr (), t') \<and> tb_problems t' = tb_problems t \<and> S (tb_c t')"
proof -
  from put_run [OF assms(1-3), of k] obtain obj t1 where t1: "suite_put u k b opts t = Some (Inr obj, t1)"
    "tb_problems t1 = tb_problems t" "S (tb_c t1)" "objs (tb_c t1) = (objs (tb_c t))(k \<mapsto> (body_content b, obj))"
    "describes k (body_content b) (storedType opts) obj" by (elim exE conjE) (rule that)
  then have "objs (tb_c t1) k = Some (body_content b, obj)" by simp
  from wantContent_run [OF t1(3) this t1(5)] t1 assms(4,5) show ?thesis by (auto simp: putAndWant_def)
qed

text \<open>A case passes when, under a prefix without keys, it returns and reports nothing.\<close>

definition passes :: "string \<Rightarrow> ('c, unit) test \<Rightarrow> bool" where
  "passes pre m \<longleftrightarrow> (\<forall>t. S (tb_c t) \<longrightarrow> (\<forall>k. prefix pre k \<longrightarrow> objs (tb_c t) k = None) \<longrightarrow>
     (\<exists>t'. m t = Some (Inr (), t') \<and> tb_problems t' = tb_problems t \<and> S (tb_c t')))"

lemma passes_I:
  assumes "\<And>t. S (tb_c t) \<Longrightarrow> (\<And>k. prefix pre k \<Longrightarrow> objs (tb_c t) k = None) \<Longrightarrow>
    \<exists>t'. m t = Some (Inr (), t') \<and> tb_problems t' = tb_problems t \<and> S (tb_c t')"
  shows "passes pre m"
  using assms by (simp add: passes_def)

lemma puts_pass:
  "passes pre (checkRoundTrip u pre)" "passes pre (checkLargeBody u pre)" "passes pre (checkEmptyBody u pre)"
  "passes pre (checkPutDeclaredSize u pre)" "passes pre (checkPutUnknownSize u pre)"
  "passes pre (checkPutNonSeekableBody u pre)" "passes pre (checkPutOneByteReads u pre)"
  unfolding checkRoundTrip_def checkLargeBody_def checkEmptyBody_def checkPutDeclaredSize_def
    checkPutUnknownSize_def checkPutNonSeekableBody_def checkPutOneByteReads_def Let_def
  by (rule passes_I, rule putAndWant_run; simp add: storedType_def defaultContentType_def)+

lemma ensure_passes: "passes pre (checkEnsureContainer u pre)"
proof (rule passes_I)
  fix t :: "'c testing"
  assume S: "S (tb_c t)"
  from ensure_any [OF S] obtain c1 where c1: "cl_EnsureContainer (su_cl u) (tb_c t) (su_ctx u) = (None, c1)" "S c1"
    by (elim exE conjE) (rule that)
  from ensure_any [OF c1(2)] obtain c2 where c2: "cl_EnsureContainer (su_cl u) c1 (su_ctx u) = (None, c2)" "S c2"
    by (elim exE conjE) (rule that)
  from probe_any [OF c2(2)] obtain c3 where "cl_Probe (su_cl u) c2 (su_ctx u) = (None, c3)" "S c3"
    by (elim exE conjE) (rule that)
  with c1 c2 show "\<exists>t'. checkEnsureContainer u pre t = Some (Inr (), t') \<and> tb_problems t' = tb_problems t \<and> S (tb_c t')"
    by (simp add: checkEnsureContainer_def)
qed

lemma missing_passes: "passes pre (checkMissingKey u pre)"
proof (rule passes_I)
  fix t :: "'c testing"
  assume S: "S (tb_c t)" and fresh: "\<And>k. prefix pre k \<Longrightarrow> objs (tb_c t) k = None"
  let ?k = "pre @ ''missing''"
  have none: "objs (tb_c t) ?k = None" by (rule fresh) simp
  from get_missing [OF S none] obtain e1 c1 where c1: "cl_Get (su_cl u) (tb_c t) (su_ctx u) ?k = (Inl e1, c1)"
    "S c1" "objs c1 = objs (tb_c t)" "not_found e1" by (elim exE conjE) (rule that)
  with none have "objs c1 ?k = None" by simp
  from stat_missing [OF c1(2) this] obtain e2 c2 where c2: "cl_Stat (su_cl u) c1 (su_ctx u) ?k = (Inl e2, c2)"
    "S c2" "not_found e2" by (elim exE conjE) (rule that)
  with c1 show "\<exists>t'. checkMissingKey u pre t = Some (Inr (), t') \<and> tb_problems t' = tb_problems t \<and> S (tb_c t')"
    by (simp add: checkMissingKey_def Let_def errOf_def wantNotFound_none)
qed

lemma delete_passes: "passes pre (checkDelete u pre)"
proof (rule passes_I)
  fix t :: "'c testing"
  assume S: "S (tb_c t)"
  let ?k = "pre @ ''deleted''"
  from put_run [OF S, of "Bytes ''gone soon''" "put_opts [] 0" ?k] obtain obj t1 where
    t1: "suite_put u ?k (Bytes ''gone soon'') (put_opts [] 0) t = Some (Inr obj, t1)"
      "tb_problems t1 = tb_problems t" "S (tb_c t1)" by auto
  from delete_any [OF t1(3), of "su_ctx u" ?k] obtain c2 where c2: "cl_Delete (su_cl u) (tb_c t1) (su_ctx u) ?k = (None, c2)"
    "S c2" "objs c2 ?k = None" by auto
  from stat_missing [OF c2(2,3)] obtain e3 c3 where c3: "cl_Stat (su_cl u) c2 (su_ctx u) ?k = (Inl e3, c3)"
    "S c3" "objs c3 = objs c2" "not_found e3" by (elim exE conjE) (rule that)
  with c2(3) have "objs c3 ?k = None" by simp
  from get_missing [OF c3(2) this] obtain e4 c4 where c4: "cl_Get (su_cl u) c3 (su_ctx u) ?k = (Inl e4, c4)"
    "S c4" "not_found e4" by (elim exE conjE) (rule that)
  from delete_any [OF c4(2), of "su_ctx u" ?k] obtain c5 where c5: "cl_Delete (su_cl u) c4 (su_ctx u) ?k = (None, c5)" "S c5"
    by (elim exE conjE) (rule that)
  from delete_any [OF c5(2), of "su_ctx u" "pre @ ''never-written''"] obtain c6 where
    c6: "cl_Delete (su_cl u) c5 (su_ctx u) (pre @ ''never-written'') = (None, c6)" "S c6"
    by (elim exE conjE) (rule that)
  from t1 c2 c3 c4 c5 c6
  show "\<exists>t'. checkDelete u pre t = Some (Inr (), t') \<and> tb_problems t' = tb_problems t \<and> S (tb_c t')"
    by (simp add: checkDelete_def Let_def errOf_def wantNotFound_none)
qed

text \<open>The walk of the keys under the prefix, as a test.\<close>

lemma walk_run:
  assumes "S (tb_c t)" "pre \<noteq> []" "{k. prefix pre k \<and> objs (tb_c t) k \<noteq> None} \<subseteq> set ks" "length ks \<le> maxPages"
  obtains objects pages t' where "t_listAll u pre limit t = Some (Inr (objects, pages), t')"
    "tb_problems t' = tb_problems t" "S (tb_c t')" "objs (tb_c t') = objs (tb_c t)" "distinct (map obj_Key objects)"
    "\<And>k d obj. prefix pre k \<Longrightarrow> objs (tb_c t) k = Some (d, obj) \<Longrightarrow> obj_Key obj = k \<and> obj \<in> set objects"
    "\<And>obj. obj \<in> set objects \<Longrightarrow> prefix pre (obj_Key obj) \<and> (\<exists>d. objs (tb_c t) (obj_Key obj) = Some (d, obj))"
    "0 < limit \<Longrightarrow> int (length objects) \<le> limit * int pages"
proof -
  from walk [OF assms, of limit] obtain objects pages c' where
    w: "listAll (su_cl u) (tb_c t) (su_ctx u) pre limit = (([], Inr (objects, pages)), c')"
      "S c'" "objs c' = objs (tb_c t)" "distinct (map obj_Key objects)"
      "\<forall>k d obj. prefix pre k \<longrightarrow> objs (tb_c t) k = Some (d, obj) \<longrightarrow> obj_Key obj = k \<and> obj \<in> set objects"
      "\<forall>obj \<in> set objects. prefix pre (obj_Key obj) \<and> (\<exists>d. objs (tb_c t) (obj_Key obj) = Some (d, obj))"
      "0 < limit \<longrightarrow> int (length objects) \<le> limit * int pages"
    by (elim exE conjE) (rule that)
  show thesis
    by (rule that [of objects pages "t\<lparr>tb_c := c'\<rparr>"]) (use w in \<open>simp_all add: t_listAll_def\<close>)
qed

text \<open>
  The objects under a prefix are those of \<open>want\<close>: then the walk returns them, and \<open>wantKeys\<close> has
  nothing to report.
\<close>

definition holds_under :: "'c \<Rightarrow> string \<Rightarrow> Object smap \<Rightarrow> bool" where
  "holds_under c pre want \<longleftrightarrow>
     (\<forall>k obj. prefix pre k \<longrightarrow> (\<exists>d. objs c k = Some (d, obj)) \<longleftrightarrow> map_of want k = Some obj) \<and>
     (\<forall>(k, obj) \<in> set want. prefix pre k \<and> isEntityTag (obj_ETag obj) \<and> loc (obj_ModifiedAt obj) = UTC)"

lemma listed_run:
  assumes S: "S (tb_c t)" and pre: "pre \<noteq> []" and want: "holds_under (tb_c t) pre want" "distinct (map fst want)"
    and len: "length want \<le> maxPages"
  shows "\<exists>objects pages t'. t_listAll u pre limit t = Some (Inr (objects, pages), t') \<and>
    tb_problems t' = tb_problems t \<and> S (tb_c t') \<and> objs (tb_c t') = objs (tb_c t) \<and>
    (\<forall>what. wantKeys what objects want = []) \<and> (0 < limit \<longrightarrow> int (length want) \<le> limit * int pages)"
proof -
  have at: "(\<exists>d. objs (tb_c t) k = Some (d, obj)) \<longleftrightarrow> map_of want k = Some obj" if "prefix pre k" for k obj
    using want(1) that by (simp add: holds_under_def)
  have keys: "{k. prefix pre k \<and> objs (tb_c t) k \<noteq> None} \<subseteq> set (map fst want)"
  proof
    fix k
    assume "k \<in> {k. prefix pre k \<and> objs (tb_c t) k \<noteq> None}"
    with at [of k] obtain obj where "map_of want k = Some obj" by auto
    then show "k \<in> set (map fst want)" by (force dest: map_of_SomeD)
  qed
  have len': "length (map fst want) \<le> maxPages" using len by simp
  show ?thesis
  proof (rule walk_run [OF S pre keys len', of limit])
    fix objects pages t'
    assume w: "t_listAll u pre limit t = Some (Inr (objects, pages), t')"
      "tb_problems t' = tb_problems t" "S (tb_c t')" "objs (tb_c t') = objs (tb_c t)" "distinct (map obj_Key objects)"
      "\<And>k d obj. prefix pre k \<Longrightarrow> objs (tb_c t) k = Some (d, obj) \<Longrightarrow> obj_Key obj = k \<and> obj \<in> set objects"
      "\<And>obj. obj \<in> set objects \<Longrightarrow> prefix pre (obj_Key obj) \<and> (\<exists>d. objs (tb_c t) (obj_Key obj) = Some (d, obj))"
      "0 < limit \<Longrightarrow> int (length objects) \<le> limit * int pages"
    have each: "map_of want (obj_Key obj) = Some obj" if "obj \<in> set objects" for obj
      using w(7) [OF that] at [of "obj_Key obj" obj] by blast
    have all: "set (map fst want) \<subseteq> obj_Key ` set objects"
    proof
      fix k
      assume "k \<in> set (map fst want)"
      then obtain obj where "map_of want k = Some obj" "prefix pre k"
        using want(1) by (auto simp: holds_under_def dest: weak_map_of_SomeI) (force dest: weak_map_of_SomeI)
      with at [of k obj] w(6) [of k] show "k \<in> obj_Key ` set objects" by force
    qed
    have "wantKeys what objects want = []" for what
      by (rule wantKeys_none [OF w(5) _ all])
        (use each want(1) in \<open>force simp: holds_under_def dest: map_of_SomeD\<close>)
    moreover have "length want \<le> length objects"
      using all want(2) w(5) by (metis (no_types) card_mono distinct_card finite_set length_map list.set_map)
    ultimately show ?thesis using w by (intro exI [of _ objects] exI [of _ pages] exI [of _ t']) auto
  qed
qed

lemma replace_passes:
  assumes pre: "pre \<noteq> []" and tags: "tag ''first'' \<noteq> tag secondContent"
  shows "passes pre (checkReplace u pre)"
proof (rule passes_I)
  fix t :: "'c testing"
  assume S: "S (tb_c t)" and fresh: "\<And>k. prefix pre k \<Longrightarrow> objs (tb_c t) k = None"
  let ?k = "pre @ ''replaced''"
  from put_run [OF S, of "Bytes ''first''" "put_opts ''text/plain'' 0" ?k] obtain o1 t1 where
    t1: "suite_put u ?k (Bytes ''first'') (put_opts ''text/plain'' 0) t = Some (Inr o1, t1)"
      "tb_problems t1 = tb_problems t" "S (tb_c t1)" "objs (tb_c t1) = (objs (tb_c t))(?k \<mapsto> (''first'', o1))"
      "obj_ETag o1 = tag ''first''" by auto
  from put_run [OF t1(3), of "Bytes secondContent" "put_opts ''application/json'' 0" ?k] obtain o2 t2 where
    t2: "suite_put u ?k (Bytes secondContent) (put_opts ''application/json'' 0) t1 = Some (Inr o2, t2)"
      "tb_problems t2 = tb_problems t1" "S (tb_c t2)" "objs (tb_c t2) = (objs (tb_c t))(?k \<mapsto> (secondContent, o2))"
      "describes ?k secondContent ''application/json'' o2" "obj_ETag o2 = tag secondContent"
    by (auto simp: t1(4) storedType_def)
  then have at: "objs (tb_c t2) ?k = Some (secondContent, o2)" by simp
  from wantContent_run [OF t2(3) at t2(5)] obtain t3 where
    t3: "wantContent u ?k o2 secondContent ''application/json'' t2 = Some (Inr (), t3)"
      "tb_problems t3 = tb_problems t2" "S (tb_c t3)" "objs (tb_c t3) = objs (tb_c t2)" by (elim exE conjE) (rule that)
  have "holds_under (tb_c t3) pre [(?k, o2)]"
    using t2(4,5) t3(4) fresh by (auto simp: holds_under_def describes_def)
  from listed_run [OF t3(3) pre this, of 0] obtain objects pages t4 where
    t4: "t_listAll u pre 0 t3 = Some (Inr (objects, pages), t4)" "tb_problems t4 = tb_problems t3" "S (tb_c t4)"
      "\<forall>what. wantKeys what objects [(?k, o2)] = []" by (auto simp: maxPages_def)
  with t1 t2 t3 t4 tags
  show "\<exists>t'. checkReplace u pre t = Some (Inr (), t') \<and> tb_problems t' = tb_problems t \<and> S (tb_c t')"
    by (simp add: checkReplace_def Let_def)
qed

text \<open>What a Put adds to the objects under a prefix, or does not.\<close>

lemma holds_put:
  assumes "holds_under c pre want" "objs c' = (objs c)(k \<mapsto> (d, obj))" "prefix pre k" "describes k d ct obj"
  shows "holds_under c' pre (AList.update k obj want)"
proof -
  have "\<forall>(k', o') \<in> set (AList.update k obj want). prefix pre k' \<and> isEntityTag (obj_ETag o') \<and> loc (obj_ModifiedAt o') = UTC"
    using assms set_update_subset [of k obj want] by (auto simp: holds_under_def describes_def)
  with assms(1-3) show ?thesis by (auto simp: holds_under_def map_of_update_conv)
qed

lemma holds_put_elsewhere:
  assumes "holds_under c pre want" "objs c' = (objs c)(k \<mapsto> (d, obj))" "\<not> prefix pre k"
  shows "holds_under c' pre want"
  using assms by (auto simp: holds_under_def)

lemma putNames_run:
  assumes "S (tb_c t)" "holds_under (tb_c t) pre want" "distinct (map fst want)"
  shows "\<exists>want' t'. putNames u pre names want t = Some (Inr want', t') \<and> tb_problems t' = tb_problems t \<and>
    S (tb_c t') \<and> holds_under (tb_c t') pre want' \<and> distinct (map fst want') \<and>
    fst ` set want' = fst ` set want \<union> (\<lambda>n. pre @ n) ` set names"
  using assms
proof (induction names arbitrary: t want)
  case Nil
  then show ?case by simp
next
  case (Cons name names)
  let ?k = "pre @ name" and ?b = "Bytes (name @ '' content'')"
  from put_run [OF Cons.prems(1), of ?b "put_opts [] 0" ?k] obtain obj t1 where
    t1: "suite_put u ?k ?b (put_opts [] 0) t = Some (Inr obj, t1)" "tb_problems t1 = tb_problems t" "S (tb_c t1)"
      "objs (tb_c t1) = (objs (tb_c t))(?k \<mapsto> (name @ '' content'', obj))"
      "describes ?k (name @ '' content'') (storedType (put_opts [] 0)) obj" by auto
  have "holds_under (tb_c t1) pre (AList.update ?k obj want)"
    by (rule holds_put [OF Cons.prems(2) t1(4) _ t1(5)]) simp
  from Cons.IH [OF t1(3) this distinct_keys_update [OF Cons.prems(3)]] t1 show ?case
    by (auto simp: dom_update)
qed

text \<open>Of the seven keys, those under the nested prefix, and under a prefix none of them has.\<close>

lemma named:
  assumes keys: "fst ` set want = (\<lambda>n. pre @ n) ` set listNames" and at: "map_of want k = Some obj"
    and k: "prefix (pre @ s) k"
  obtains n where "k = pre @ n" "n \<in> set listNames" "prefix s n"
proof -
  from at have "k \<in> fst ` set want" by (force dest: map_of_SomeD)
  then obtain n where "k = pre @ n" "n \<in> set listNames" unfolding keys by (elim imageE)
  with k that show thesis by simp
qed

lemma holds_nested:
  assumes h: "holds_under c pre want" and keys: "fst ` set want = (\<lambda>n. pre @ n) ` set listNames"
  shows "holds_under c (pre @ ''b/'') (map (\<lambda>name. underAt want (pre @ name)) [''b/1'', ''b/2'', ''b/3''])"
proof -
  have some: "\<exists>obj. map_of want (pre @ n) = Some obj" if "n \<in> set listNames" for n
  proof -
    have "pre @ n \<in> fst ` set want" using keys that by auto
    then show ?thesis by (metis map_of_eq_None_iff not_None_eq)
  qed
  obtain o1 o2 o3 where o: "map_of want (pre @ ''b/1'') = Some o1" "map_of want (pre @ ''b/2'') = Some o2"
    "map_of want (pre @ ''b/3'') = Some o3"
    using some [of "''b/1''"] some [of "''b/2''"] some [of "''b/3''"] by (auto simp: listNames_def)
  have k: "k = pre @ ''b/1'' \<or> k = pre @ ''b/2'' \<or> k = pre @ ''b/3''"
    if "prefix (pre @ ''b/'') k" "map_of want k = Some obj" for k obj
    by (rule named [OF keys that(2,1)]) (auto simp: listNames_def)
  have tags: "isEntityTag (obj_ETag obj) \<and> loc (obj_ModifiedAt obj) = UTC" if "map_of want k = Some obj" for k obj
    using h map_of_SomeD [OF that] by (auto simp: holds_under_def)
  have at: "(\<exists>d. objs c k = Some (d, obj)) \<longleftrightarrow> map_of want k = Some obj" if "prefix (pre @ ''b/'') k" for k obj
  proof -
    from that have "prefix pre k" by (rule append_prefixD)
    with h show ?thesis unfolding holds_under_def by blast
  qed
  let ?nested = "[(pre @ ''b/1'', o1), (pre @ ''b/2'', o2), (pre @ ''b/3'', o3)]"
  have nested: "map (\<lambda>name. underAt want (pre @ name)) [''b/1'', ''b/2'', ''b/3''] = ?nested"
    by (simp add: underAt_def o)
  have same: "map_of want k = Some obj \<longleftrightarrow> map_of ?nested k = Some obj" if "prefix (pre @ ''b/'') k" for k obj
  proof
    assume w: "map_of want k = Some obj"
    from k [OF that w] show "map_of ?nested k = Some obj"
      by (elim disjE) (use w o in \<open>simp_all\<close>)
  next
    assume "map_of ?nested k = Some obj"
    then have "(k, obj) \<in> set ?nested" by (rule map_of_SomeD)
    then show "map_of want k = Some obj" using o by (simp, elim disjE) simp_all
  qed
  show ?thesis unfolding holds_under_def nested
  proof (intro conjI allI impI)
    fix k obj
    assume "prefix (pre @ ''b/'') k"
    then show "(\<exists>d. objs c k = Some (d, obj)) \<longleftrightarrow> map_of ?nested k = Some obj"
      using at same by simp
  qed (simp add: o [THEN tags])
qed

lemma holds_none:
  assumes h: "holds_under c pre want" and keys: "fst ` set want = (\<lambda>n. pre @ n) ` set listNames"
    and k: "prefix (pre @ ''nothing-here/'') k"
  shows "objs c k = None"
proof (rule ccontr)
  assume "objs c k \<noteq> None"
  then obtain d obj where "objs c k = Some (d, obj)" by auto
  moreover from k have "prefix pre k" by (rule append_prefixD)
  ultimately have "map_of want k = Some obj" using h unfolding holds_under_def by blast
  from keys this k show False by (rule named) (auto simp: listNames_def)
qed

lemma list_passes:
  assumes pre: "suffix ''/'' pre"
  shows "passes pre (checkList u pre)"
proof (rule passes_I)
  fix t :: "'c testing"
  assume S: "S (tb_c t)" and fresh: "\<And>k. prefix pre k \<Longrightarrow> objs (tb_c t) k = None"
  have ne: "pre \<noteq> []" "pre @ s \<noteq> []" for s using pre by auto
  have "holds_under (tb_c t) pre []" using fresh by (simp add: holds_under_def)
  from putNames_run [OF S this, of listNames] obtain want t1 where
    t1: "putNames u pre listNames [] t = Some (Inr want, t1)" "tb_problems t1 = tb_problems t" "S (tb_c t1)"
      "holds_under (tb_c t1) pre want" "distinct (map fst want)" "fst ` set want = (\<lambda>n. pre @ n) ` set listNames"
    by auto
  have len: "length want = 7"
  proof -
    have "length want = card ((\<lambda>n. pre @ n) ` set listNames)"
      using t1(5,6) by (metis distinct_card length_map list.set_map)
    also have "\<dots> = 7" by (simp add: card_image inj_on_def listNames_def)
    finally show ?thesis .
  qed
  from put_run [OF t1(3), of "Bytes ''other''" "put_opts [] 0" "siblingKey pre"] obtain sib t2 where
    t2: "suite_put u (siblingKey pre) (Bytes ''other'') (put_opts [] 0) t1 = Some (Inr sib, t2)"
      "tb_problems t2 = tb_problems t1" "S (tb_c t2)"
      "objs (tb_c t2) = (objs (tb_c t1))(siblingKey pre \<mapsto> (''other'', sib))" by auto
  have h2: "holds_under (tb_c t2) pre want"
    by (rule holds_put_elsewhere [OF t1(4) t2(4) sibling_outside [OF pre]])
  have max: "length want \<le> maxPages" by (simp add: len maxPages_def)
  from listed_run [OF t2(3) ne(1) h2 t1(5) max, of 0] obtain o3 p3 t3 where
    t3: "t_listAll u pre 0 t2 = Some (Inr (o3, p3), t3)" "tb_problems t3 = tb_problems t2" "S (tb_c t3)"
      "objs (tb_c t3) = objs (tb_c t2)" "\<forall>what. wantKeys what o3 want = []" by auto
  have h3: "holds_under (tb_c t3) pre want" using h2 t3(4) by (simp add: holds_under_def)
  from listed_run [OF t3(3) ne(1) h3 t1(5) max, of 2] obtain o4 p4 t4 where
    t4: "t_listAll u pre 2 t3 = Some (Inr (o4, p4), t4)" "tb_problems t4 = tb_problems t3" "S (tb_c t4)"
      "objs (tb_c t4) = objs (tb_c t3)" "\<forall>what. wantKeys what o4 want = []" "int (length want) \<le> 2 * int p4" by auto
  have pages: "\<not> p4 < 4" using t4(6) len by simp
  have h4: "holds_under (tb_c t4) pre want" using h3 t4(4) by (simp add: holds_under_def)
  let ?nested = "map (\<lambda>name. underAt want (pre @ name)) [''b/1'', ''b/2'', ''b/3'']"
  have nested: "holds_under (tb_c t4) (pre @ ''b/'') ?nested"
    by (rule holds_nested [OF h4 t1(6)])
  have "distinct (map fst ?nested)" "length ?nested \<le> maxPages" by (simp_all add: underAt_def maxPages_def)
  from listed_run [OF t4(3) ne(2) nested this, of 0] obtain o5 p5 t5 where
    t5: "t_listAll u (pre @ ''b/'') 0 t4 = Some (Inr (o5, p5), t5)" "tb_problems t5 = tb_problems t4" "S (tb_c t5)"
      "objs (tb_c t5) = objs (tb_c t4)" "\<forall>what. wantKeys what o5 ?nested = []" by (elim exE conjE) (rule that)
  have none: "\<forall>k. prefix (pre @ ''nothing-here/'') k \<longrightarrow> objs (tb_c t5) k = None"
    using holds_none [OF h4 t1(6)] t5(4) by simp
  from list_none [OF t5(3) ne(2) none] obtain c6 where
    "cl_List (su_cl u) (tb_c t5) (su_ctx u) \<lparr>lo_Prefix = pre @ ''nothing-here/'', lo_Token = [], lo_Limit = 0\<rparr> =
      (Inr \<lparr>pg_Objects = [], pg_Next = []\<rparr>, c6)" "S c6" by (elim exE conjE) (rule that)
  with t1 t2 t3 t4 t5 pages
  show "\<exists>t'. checkList u pre t = Some (Inr (), t') \<and> tb_problems t' = tb_problems t \<and> S (tb_c t')"
    by (simp add: checkList_def)
qed

text \<open>A Put that has to fail: nothing is stored at a fresh key, and an existing object is kept.\<close>

definition must_fail :: "failedPut \<Rightarrow> bool" where
  "must_fail fp \<longleftrightarrow> body_fin (fp_body fp) \<noteq> EOF \<or>
     (0 < po_Size (fp_opts fp) \<and> int (length (body_content (fp_body fp))) \<noteq> po_Size (fp_opts fp))"

lemma callPut_fails:
  assumes "S (tb_c t)" "must_fail fp"
  shows "\<exists>e t'. callPut u k (fp_body fp) (fp_opts fp) t = Some (Inr (Inl e), t') \<and> tb_problems t' = tb_problems t \<and>
    S (tb_c t') \<and> objs (tb_c t') = objs (tb_c t)"
proof -
  from put_fails [OF assms(1) assms(2) [unfolded must_fail_def], of k] obtain e c' b' where
    "cl_Put (su_cl u) (tb_c t) (su_ctx u) k (fp_body fp) (fp_opts fp) = Some (Inl e, c', b')" "S c'"
    "objs c' = objs (tb_c t)" by (elim exE conjE) (rule that)
  then show ?thesis by (simp add: callPut_def)
qed

lemma wantAbsent_run:
  assumes "S (tb_c t)" "pre \<noteq> []" and none: "objs (tb_c t) k = None"
    and keys: "{k. prefix pre k \<and> objs (tb_c t) k \<noteq> None} \<subseteq> set ks" "length ks \<le> maxPages"
  shows "\<exists>t'. wantAbsent u pre k t = Some (Inr (), t') \<and> tb_problems t' = tb_problems t \<and> S (tb_c t') \<and>
    objs (tb_c t') = objs (tb_c t)"
proof -
  from stat_missing [OF assms(1) none] obtain e c1 where c1: "cl_Stat (su_cl u) (tb_c t) (su_ctx u) k = (Inl e, c1)"
    "S c1" "objs c1 = objs (tb_c t)" "not_found e" by (elim exE conjE) (rule that)
  let ?t = "t\<lparr>tb_c := c1\<rparr>"
  have "S (tb_c ?t)" "{k. prefix pre k \<and> objs (tb_c ?t) k \<noteq> None} \<subseteq> set ks" using c1 keys(1) by simp_all
  then show ?thesis
  proof (rule walk_run [OF _ assms(2) _ keys(2), of _ 0])
    fix objects pages t'
    assume w: "t_listAll u pre 0 ?t = Some (Inr (objects, pages), t')" "tb_problems t' = tb_problems ?t"
      "S (tb_c t')" "objs (tb_c t') = objs (tb_c ?t)"
      "\<And>obj. obj \<in> set objects \<Longrightarrow> prefix pre (obj_Key obj) \<and> (\<exists>d. objs (tb_c ?t) (obj_Key obj) = Some (d, obj))"
    have "obj_Key obj \<noteq> k" if "obj \<in> set objects" for obj
      using w(5) [OF that] none c1(3) by auto
    then have quiet: "concat (map (\<lambda>obj. if obj_Key obj = k
        then [Problem ''List shows %q after a failed Put of a fresh key, want it absent'' [VStr k]]
        else []) objects) = []" by simp
    have "t_Errors (concat (map (\<lambda>obj. if obj_Key obj = k
        then [Problem ''List shows %q after a failed Put of a fresh key, want it absent'' [VStr k]]
        else []) objects)) t' = Some (Inr (), t')" unfolding quiet by simp
    with c1 w(1-4) show ?thesis by (simp add: wantAbsent_def errOf_def wantNotFound_none)
  qed
qed

text \<open>Before the \<open>i\<close>-th failing Put, the keys under the prefix are those of the Puts before it.\<close>

definition replaced :: "string \<Rightarrow> nat \<Rightarrow> 'c testing \<Rightarrow> bool" where
  "replaced pre i t \<longleftrightarrow> S (tb_c t) \<and> {k. prefix pre k \<and> objs (tb_c t) k \<noteq> None} \<subseteq>
     set (map (\<lambda>j. pre @ ''existing-'' @ showInt (int j)) [0..<i])"

lemma checkFailedPut_run:
  assumes inv: "replaced pre i t" and pre: "pre \<noteq> []" and i: "i \<le> maxPages" and fails: "must_fail fp"
  shows "\<exists>t'. checkFailedPut u pre (int i, fp) t = Some (Inr (), t') \<and> tb_problems t' = tb_problems t \<and>
    replaced pre (Suc i) t'"
proof -
  let ?fresh = "pre @ ''fresh-'' @ showInt (int i)" and ?existing = "pre @ ''existing-'' @ showInt (int i)"
  let ?ks = "map (\<lambda>j. pre @ ''existing-'' @ showInt (int j)) [0..<i]"
  let ?t = "t\<lparr>tb_cleanup := ?fresh # tb_cleanup t\<rparr>"
  have S: "S (tb_c ?t)" and keys: "{k. prefix pre k \<and> objs (tb_c t) k \<noteq> None} \<subseteq> set ?ks"
    using inv by (simp_all add: replaced_def)
  have len: "length ?ks \<le> maxPages" using i by simp
  have none: "objs (tb_c t) ?fresh = None"
  proof (rule ccontr)
    assume "objs (tb_c t) ?fresh \<noteq> None"
    then have "?fresh \<in> {k. prefix pre k \<and> objs (tb_c t) k \<noteq> None}" by simp
    with keys have "?fresh \<in> set ?ks" by (rule subsetD)
    then show False by auto
  qed
  from callPut_fails [OF S fails, of ?fresh] obtain e1 t1 where
    t1: "callPut u ?fresh (fp_body fp) (fp_opts fp) ?t = Some (Inr (Inl e1), t1)" "tb_problems t1 = tb_problems t"
      "S (tb_c t1)" "objs (tb_c t1) = objs (tb_c t)" by auto
  from wantAbsent_run [OF t1(3) pre _ _ len, of ?fresh] none keys t1(4) obtain t2 where
    t2: "wantAbsent u pre ?fresh t1 = Some (Inr (), t2)" "tb_problems t2 = tb_problems t1" "S (tb_c t2)"
      "objs (tb_c t2) = objs (tb_c t1)" by auto
  from put_run [OF t2(3), of "Bytes oldContent" "put_opts ''text/plain'' (int (length oldContent))" ?existing]
  obtain before t3 where
    t3: "suite_put u ?existing (Bytes oldContent) (put_opts ''text/plain'' (int (length oldContent))) t2 =
        Some (Inr before, t3)" "tb_problems t3 = tb_problems t2" "S (tb_c t3)"
      "objs (tb_c t3) = (objs (tb_c t2))(?existing \<mapsto> (oldContent, before))"
      "describes ?existing oldContent ''text/plain'' before" by (auto simp: storedType_def)
  from callPut_fails [OF t3(3) fails, of ?existing] obtain e4 t4 where
    t4: "callPut u ?existing (fp_body fp) (fp_opts fp) t3 = Some (Inr (Inl e4), t4)" "tb_problems t4 = tb_problems t3"
      "S (tb_c t4)" "objs (tb_c t4) = objs (tb_c t3)" by (elim exE conjE) (rule that)
  have "objs (tb_c t4) ?existing = Some (oldContent, before)" using t3(4) t4(4) by simp
  from wantContent_run [OF t4(3) this t3(5)] obtain t5 where
    t5: "wantContent u ?existing before oldContent ''text/plain'' t4 = Some (Inr (), t5)"
      "tb_problems t5 = tb_problems t4" "S (tb_c t5)" "objs (tb_c t5) = objs (tb_c t4)" by (elim exE conjE) (rule that)
  have "objs (tb_c t5) = (objs (tb_c t))(?existing \<mapsto> (oldContent, before))"
    using t1(4) t2(4) t3(4) t4(4) t5(4) by simp
  with keys have "replaced pre (Suc i) t5" using t5(3) by (auto simp: replaced_def)
  with t1 t2 t3 t4 t5 show ?thesis by (simp add: checkFailedPut_def Let_def errOf_def)
qed

lemma failedPuts_pass:
  assumes pre: "pre \<noteq> []" and fails: "\<forall>fp \<in> set puts. must_fail fp" and len: "length puts \<le> maxPages"
  shows "passes pre (checkFailedPuts u pre puts)"
proof (rule passes_I)
  fix t :: "'c testing"
  assume S: "S (tb_c t)" and fresh: "\<And>k. prefix pre k \<Longrightarrow> objs (tb_c t) k = None"
  have "replaced pre 0 t" using S fresh by (simp add: replaced_def)
  from t_for_run [where I = "replaced pre" and xs = "zip (map int [0..<length puts]) puts"
      and f = "checkFailedPut u pre", OF this] obtain t' where
    "t_for (zip (map int [0..<length puts]) puts) (checkFailedPut u pre) t = Some (Inr (), t')"
    "tb_problems t' = tb_problems t" "replaced pre (length (zip (map int [0..<length puts]) puts)) t'"
    using checkFailedPut_run [OF _ pre] fails len by force
  then show "\<exists>t'. checkFailedPuts u pre puts t = Some (Inr (), t') \<and> tb_problems t' = tb_problems t \<and> S (tb_c t')"
    by (simp add: checkFailedPuts_def replaced_def)
qed

lemma midway_passes: "pre \<noteq> [] \<Longrightarrow> passes pre (checkPutBodyFailsMidway u pre)"
  unfolding checkPutBodyFailsMidway_def Let_def
  by (rule failedPuts_pass) (simp_all add: must_fail_def maxPages_def errBodyBroke_def EOF_def)

lemma mismatch_passes:
  "pre \<noteq> [] \<Longrightarrow> length (su_large u) = largeBodySize \<Longrightarrow> passes pre (checkPutSizeMismatch u pre)"
  unfolding checkPutSizeMismatch_def Let_def
  by (rule failedPuts_pass) (simp_all add: must_fail_def maxPages_def largeBody_def smallContent_def largeBodySize_def)

lemma capabilities_pass:
  assumes r: "length r = 8"
  shows "passes (prefixOf r) (checkCapabilities u (prefixOf r))"
proof (rule passes_I)
  fix t :: "'c testing"
  assume "S (tb_c t)"
  let ?max = "cap_MaxKeyLength (cl_Capabilities (su_cl u) (tb_c t))"
  from caps [OF \<open>S (tb_c t)\<close>] obtain v where v: "cap_ValidateKey (cl_Capabilities (su_cl u) (tb_c t)) = Some v"
    "v [] \<noteq> None" "0 < ?max" "\<forall>n. ?max < int n \<longrightarrow> v (replicate n (CHR ''a'')) \<noteq> None"
    "\<forall>r. length r = 8 \<longrightarrow> v (prefixOf r @ ''ordinary-key.txt'') = None" by (elim exE conjE) (rule that)
  from v(3,4) have "v (replicate (nat (?max + 1)) (CHR ''a'')) \<noteq> None" by simp
  with v(1-3) v(5) r \<open>S (tb_c t)\<close> show "\<exists>t'. checkCapabilities u (prefixOf r) t = Some (Inr (), t') \<and> tb_problems t' = tb_problems t \<and> S (tb_c t')"
    by (auto simp: checkCapabilities_def Let_def)
qed

text \<open>Every case, under the prefix it is run with.\<close>

lemma prefixOf_ends: "prefixOf r \<noteq> []" "suffix ''/'' (prefixOf r)"
  by (simp_all add: prefixOf_def suffix_def)

lemma cases_pass:
  assumes "(name, check) \<in> set (suite_cases u)" "length r = 8" "tag ''first'' \<noteq> tag secondContent"
    "length (su_large u) = largeBodySize"
  shows "passes (prefixOf r) (check (prefixOf r))"
  using assms
  by (auto simp: suite_cases_def puts_pass ensure_passes missing_passes delete_passes replace_passes list_passes
      midway_passes mismatch_passes capabilities_pass prefixOf_ends)

end

section \<open>The fake is ready\<close>

text \<open>A fake as \<open>NewFake\<close> makes it, over a clock that never shows the zero time.\<close>

definition suite_fake :: "Fake \<Rightarrow> bool" where
  "suite_fake f \<longleftrightarrow> fake_up f \<and> (\<forall>n. instant (f_now f n) \<noteq> 0) \<and>
     f_caps f = \<lparr>cap_MaxKeyLength = DefaultMaxKeyLength, cap_ValidateKey = Some fake_validateKey\<rparr>"

definition fake_suite ::
  "(nat \<Rightarrow> nat) \<Rightarrow> (bytes \<Rightarrow> bytes) \<Rightarrow> ctx \<Rightarrow> bytes \<Rightarrow> (nat \<Rightarrow> time) \<Rightarrow> (Fake, bytes) suite" where
  "fake_suite space sha256 x large clock =
     \<lparr>su_cl = fake_client space sha256 body_Read, su_ctx = x, su_grd = bytes_Read, su_close = (\<lambda>_. None),
      su_space = space, su_large = large, su_clock = clock\<rparr>"

definition fake_tag :: "(bytes \<Rightarrow> bytes) \<Rightarrow> bytes \<Rightarrow> string" where
  "fake_tag sha256 d = CHR 0x22 # hexEncode (sha256 d) @ [CHR 0x22]"

lemma isEntityTag_quoted: "isEntityTag (CHR 0x22 # s @ [CHR 0x22])"
  by (simp add: isEntityTag_def trimPrefix_def hasPrefix_def)

lemma suite_fake_records [simp]:
  "suite_fake (f\<lparr>f_lastListOpts := lo\<rparr>) = suite_fake f"
  by (simp add: suite_fake_def)

lemma suite_fake_Put:
  assumes f: "suite_fake f" and space: "\<And>n. 0 < space n" and all: "readAll space rd b [] = Some (d, None, b')"
    and sz: "po_Size opts \<le> 0 \<or> int (length d) = po_Size opts"
  shows "\<exists>obj f'. fake_Put space sha256 rd f x k b opts = Some (Inr obj, f', b') \<and> suite_fake f' \<and>
    fake_objs f' = (fake_objs f)(k \<mapsto> (d, obj)) \<and> describes k d (storedType opts) obj \<and> obj_ETag obj = fake_tag sha256 d"
proof -
  let ?obj = "\<lparr>obj_Key = k, obj_Size = int (length d), obj_ContentType = storedType opts,
    obj_ETag = fake_tag sha256 d, obj_ModifiedAt = toUTC (f_now f (wrap64 (f_puts f + 1)))\<rparr>"
  let ?f' = "f\<lparr>f_puts := wrap64 (f_puts f + 1), f_lastPutOpts := opts, f_lastPutConsumed := int (length d),
    f_objects := AList.update k \<lparr>o_meta = ?obj, o_data = d\<rparr> (f_objects f)\<rparr>"
  have up: "fake_wf f" "\<not> f_down f" "f_hasContainer f" "f_putErr f = None"
    using f by (simp_all add: suite_fake_def fake_up_def)
  have put: "fake_Put space sha256 rd f x k b opts = Some (Inr ?obj, ?f', b')"
    using up sz all by (auto simp: fake_Put_def Let_def storedType_def fake_tag_def)
  from fake_Put_ok [OF space up(1) put] obtain d' where d': "drains rd b d' EOF b'"
    "fake_objs ?f' = (fake_objs f)(k \<mapsto> (d', ?obj))" "fake_wf ?f'" by (elim exE conjE) (rule that)
  have "fake_objs ?f' k = Some (d, ?obj)" by (simp add: fake_objs_def update_conv')
  with d'(2) have objs: "fake_objs ?f' = (fake_objs f)(k \<mapsto> (d, ?obj))" by simp
  have "suite_fake ?f'" using f d'(3) by (simp add: suite_fake_def fake_up_def)
  moreover have "describes k d (storedType opts) ?obj"
    using f by (simp add: describes_def suite_fake_def fake_tag_def isEntityTag_quoted)
  ultimately show ?thesis using put objs by auto
qed

lemma suite_fake_Put_fails:
  assumes f: "suite_fake f" and all: "readAll space rd b [] = Some (d, e, b')"
    and bad: "e \<noteq> None \<or> (0 < po_Size opts \<and> int (length d) \<noteq> po_Size opts)"
  shows "\<exists>e f'. fake_Put space sha256 rd f x k b opts = Some (Inl e, f', b') \<and> suite_fake f' \<and> fake_objs f' = fake_objs f"
  using assms by (cases e) (auto simp: fake_Put_def Let_def suite_fake_def fake_up_def)

lemma suite_fake_wf: "suite_fake f \<Longrightarrow> fake_wf f"
  by (simp add: suite_fake_def fake_up_def)

lemma fake_objs_dom: "fake_objs f k \<noteq> None \<longleftrightarrow> k \<in> set (map fst (f_objects f))"
  by (simp add: fake_objs_def map_of_eq_None_iff)

lemma keysAfter_objs: "set (keysAfter f pre []) = {k. prefix pre k \<and> k \<noteq> [] \<and> fake_objs f k \<noteq> None}"
  unfolding fake_objs_dom set_keysAfter less_string_Nil by blast

lemma suite_fake_walk:
  assumes f: "suite_fake f" and pre: "pre \<noteq> []"
    and keys: "{k. prefix pre k \<and> fake_objs f k \<noteq> None} \<subseteq> set ks" "length ks \<le> maxPages"
  shows "\<exists>objects pages f'. listAll (fake_client space sha256 rd) f x pre limit = (([], Inr (objects, pages)), f') \<and>
    suite_fake f' \<and> fake_objs f' = fake_objs f \<and> distinct (map obj_Key objects) \<and>
    (\<forall>k d obj. prefix pre k \<longrightarrow> fake_objs f k = Some (d, obj) \<longrightarrow> obj_Key obj = k \<and> obj \<in> set objects) \<and>
    (\<forall>obj \<in> set objects. prefix pre (obj_Key obj) \<and> (\<exists>d. fake_objs f (obj_Key obj) = Some (d, obj))) \<and>
    (0 < limit \<longrightarrow> int (length objects) \<le> limit * int pages)"
proof -
  have wf: "fake_wf f" and up: "fake_up f" using f by (simp_all add: suite_fake_def fake_up_def)
  have "set (keysAfter f pre []) \<subseteq> set ks"
    using keys(1) unfolding keysAfter_objs by blast
  then have "card (set (keysAfter f pre [])) \<le> card (set ks)" by (simp add: card_mono)
  then have "length (keysAfter f pre []) \<le> length ks"
    using distinct_card [OF distinct_keysAfter [OF wf]] card_length [of ks] by simp
  also have "\<dots> \<le> walkPage f limit * maxPages"
    using keys(2) fake_List_page(2) [OF up, of limit] by (cases "walkPage f limit") simp_all
  finally have "length (keysAfter f pre []) \<le> walkPage f limit * maxPages" .
  from listAll_walk [OF up this, of space sha256 rd x] obtain objects pages f' where
    w: "listAll (fake_client space sha256 rd) f x pre limit = (([], Inr (objects, pages)), f')"
      "map obj_Key objects = sort (filter (\<lambda>k. prefix pre k \<and> k \<noteq> []) (map fst (f_objects f)))"
      "distinct (map obj_Key objects)" "\<forall>obj \<in> set objects. \<exists>d. fake_objs f (obj_Key obj) = Some (d, obj)"
      "length objects \<le> walkPage f limit * pages" "fake_objs f' = fake_objs f" "listed f f'"
    by (elim exE conjE) (rule that)
  have "set (map obj_Key objects) = {k \<in> set (map fst (f_objects f)). prefix pre k \<and> k \<noteq> []}"
    unfolding w(2) by simp
  then have set: "obj_Key ` set objects = {k. prefix pre k \<and> k \<noteq> [] \<and> fake_objs f k \<noteq> None}"
    unfolding fake_objs_dom set_map by blast
  have "obj_Key obj = k \<and> obj \<in> set objects" if k: "prefix pre k" "fake_objs f k = Some (d, obj)" for k d obj
  proof -
    have "k \<noteq> []" using k(1) pre by auto
    with k have "k \<in> obj_Key ` set objects" unfolding set by simp
    then obtain obj' where obj': "obj' \<in> set objects" "obj_Key obj' = k" by auto
    with w(4) obtain d' where "fake_objs f k = Some (d', obj')" by blast
    with k(2) obj' show ?thesis by simp
  qed
  moreover have "prefix pre (obj_Key obj)" if "obj \<in> set objects" for obj using set that by blast
  moreover have "int (length objects) \<le> limit * int pages" if "0 < limit"
  proof -
    have "length objects \<le> nat limit * pages" using w(5) that by (simp add: walkPage_def)
    then have "int (length objects) \<le> int (nat limit * pages)" by (simp only: of_nat_le_iff)
    also have "\<dots> = limit * int pages" using that by simp
    finally show ?thesis .
  qed
  moreover have "suite_fake f'" using w(7) f by (auto simp: listed_def)
  ultimately show ?thesis using w(1,3,4,6)
    by (intro exI [of _ objects] exI [of _ pages] exI [of _ f']) simp
qed

lemma suite_fake_List_none:
  assumes f: "suite_fake f" and pre: "pre \<noteq> []" and none: "\<forall>k. prefix pre k \<longrightarrow> fake_objs f k = None"
  shows "\<exists>f'. fake_List f x \<lparr>lo_Prefix = pre, lo_Token = [], lo_Limit = 0\<rparr> =
    (Inr \<lparr>pg_Objects = [], pg_Next = []\<rparr>, f') \<and> suite_fake f' \<and> fake_objs f' = fake_objs f"
proof -
  have "set (keysAfter f pre []) = {}"
    unfolding keysAfter_objs using none by simp
  then have ks: "keysAfter f pre [] = []" by simp
  have up: "fake_up f" using f by (simp add: suite_fake_def)
  let ?lo = "\<lparr>lo_Prefix = pre, lo_Token = [], lo_Limit = 0\<rparr>"
  have "fake_List f x ?lo = (Inr \<lparr>pg_Objects = [], pg_Next = []\<rparr>, f\<lparr>f_lastListOpts := ?lo\<rparr>)"
    by (simp add: fake_List_page(1) [OF up] ks)
  with f show ?thesis by (intro exI [of _ "f\<lparr>f_lastListOpts := ?lo\<rparr>"]) simp
qed

lemma fake_validateKey_checks:
  "fake_validateKey [] \<noteq> None"
  "length r = 8 \<Longrightarrow> fake_validateKey (prefixOf r @ ''ordinary-key.txt'') = None"
  "DefaultMaxKeyLength < int n \<Longrightarrow> fake_validateKey (replicate n (CHR ''a'')) \<noteq> None"
proof -
  assume "length r = 8"
  then have "runeCountInString (prefixOf r @ ''ordinary-key.txt'') \<le> 45"
    using runeCount_le_length [of "prefixOf r @ ''ordinary-key.txt''"]
    by (simp add: prefixOf_def hexEncode_def length_concat Let_def comp_def sum_list_triv)
  then show "fake_validateKey (prefixOf r @ ''ordinary-key.txt'') = None"
    by (simp add: fake_validateKey_def DefaultMaxKeyLength_def prefixOf_def)
next
  assume n: "DefaultMaxKeyLength < int n"
  have "map snd (runesFrom 0 (byteVals (replicate n (CHR ''a'')))) = byteVals (replicate n (CHR ''a''))"
    by (rule runesFrom_ascii) (simp add: byteVals_def)
  then have "length (runesFrom 0 (byteVals (replicate n (CHR ''a'')))) = n"
    by (metis length_map length_replicate byteVals_def)
  with n show "fake_validateKey (replicate n (CHR ''a'')) \<noteq> None"
    by (simp add: fake_validateKey_def runeCountInString_def runes_def)
qed (simp add: fake_validateKey_def)

interpretation fs: suite_ready "fake_suite (\<lambda>n. Suc (extra n)) sha256 x large clock" suite_fake fake_objs "fake_tag sha256"
  for extra :: "nat \<Rightarrow> nat" and sha256 :: "bytes \<Rightarrow> bytes" and x :: ctx and large :: bytes and clock :: "nat \<Rightarrow> time"
proof (unfold_locales, goal_cases)
  case (1 c b opts k)
  from body_rd.readAll_stream [of "\<lambda>n. Suc (extra n)" b "[]"] 1(2) obtain b' where
    "readAll (\<lambda>n. Suc (extra n)) body_Read b [] = Some (body_content b, None, b')" by auto
  from suite_fake_Put [OF 1(1) _ this 1(3), of sha256 x k] show ?case
    by (simp add: fake_suite_def fake_client_def) blast
next
  case (2 c b opts k)
  from body_rd.readAll_stream [of "\<lambda>n. Suc (extra n)" b "[]"] obtain b' where
    "readAll (\<lambda>n. Suc (extra n)) body_Read b [] =
      Some (body_content b, if body_fin b = EOF then None else Some (body_fin b), b')" by auto
  from suite_fake_Put_fails [OF 2(1) this, of opts sha256 x k] 2(2) show ?case
    by (auto simp: fake_suite_def fake_client_def)
next
  case (3 c k d obj)
  from bytes_rd.readAll_stream [of "\<lambda>n. Suc (extra n)" d "[]"] obtain g where
    "readAll (\<lambda>n. Suc (extra n)) bytes_Read d [] = Some (d, None, g)" by auto
  with 3 show ?case
    by (auto simp: fake_suite_def fake_client_def fake_Get_def suite_fake_def fake_up_def fake_objs_def)
next
  case (8 c pre ks limit)
  then show ?case using suite_fake_walk [of c pre ks] by (simp add: fake_suite_def)
next
  case (13 c)
  then show ?case using fake_validateKey_checks
    by (simp add: fake_suite_def fake_client_def suite_fake_def DefaultMaxKeyLength_def)
next
  case (9 c pre)
  then show ?case using suite_fake_List_none [of c pre x] by (simp add: fake_suite_def fake_client_def)
qed (auto simp: fake_suite_def fake_defs suite_fake_def fake_up_def fake_objs_delete fake_wf_delete fake_wf_ensure not_found_def
    fake_objs_def [of _ k for k] Let_def split: prod.splits if_splits)

end
