(* ===== verification/Suite_Tidy.thy ===== *)
theory Suite_Tidy
  imports Suite_Passes
begin

text \<open>
  The conformance suite leaves nothing behind. A test is tidy when every key it changes is registered
  for deletion or is removed again, and every key it registers is one of its own. Tidiness composes
  like the tests do, so each case is tidy by the rules of its parts; with the runner's deletions a
  case over a ready client restores the stored objects.
\<close>

text \<open>The keys of a run: those under its prefix and the sibling of the prefix.\<close>

definition owned :: "string \<Rightarrow> string \<Rightarrow> bool" where
  "owned pre k \<longleftrightarrow> prefix pre k \<or> k = siblingKey pre"

lemma owned_intros [intro, simp]: "owned pre (pre @ s)" "owned pre (siblingKey pre)"
  by (simp_all add: owned_def)

context suite_ready
begin

definition kept :: "string \<Rightarrow> 'c testing \<Rightarrow> 'c testing \<Rightarrow> bool" where
  "kept pre t t' \<longleftrightarrow> S (tb_c t') \<and> set (tb_cleanup t) \<subseteq> set (tb_cleanup t') \<and>
     (\<forall>k \<in> set (tb_cleanup t') - set (tb_cleanup t). owned pre k) \<and>
     (\<forall>k. k \<notin> set (tb_cleanup t') \<longrightarrow>
       objs (tb_c t') k = objs (tb_c t) k \<or> objs (tb_c t') k = None \<and> owned pre k)"

lemma kept_same:
  "S (tb_c t') \<Longrightarrow> objs (tb_c t') = objs (tb_c t) \<Longrightarrow> tb_cleanup t' = tb_cleanup t \<Longrightarrow> kept pre t t'"
  by (simp add: kept_def)

lemma kept_trans:
  assumes k1: "kept pre t t'" and k2: "kept pre t' t''"
  shows "kept pre t t''"
  unfolding kept_def
proof (intro conjI ballI allI impI)
  show "S (tb_c t'')" "set (tb_cleanup t) \<subseteq> set (tb_cleanup t'')" using k1 k2 by (auto simp: kept_def)
  show "owned pre k" if "k \<in> set (tb_cleanup t'') - set (tb_cleanup t)" for k
    using k1 k2 that by (cases "k \<in> set (tb_cleanup t')") (auto simp: kept_def)
  show "objs (tb_c t'') k = objs (tb_c t) k \<or> objs (tb_c t'') k = None \<and> owned pre k"
    if k: "k \<notin> set (tb_cleanup t'')" for k
  proof -
    have "k \<notin> set (tb_cleanup t')" using k2 k by (auto simp: kept_def)
    then have "objs (tb_c t') k = objs (tb_c t) k \<or> objs (tb_c t') k = None \<and> owned pre k"
      using k1 by (simp add: kept_def)
    moreover have "objs (tb_c t'') k = objs (tb_c t') k \<or> objs (tb_c t'') k = None \<and> owned pre k"
      using k2 k by (simp add: kept_def)
    ultimately show ?thesis by metis
  qed
qed

text \<open>A test that is started with the keys \<open>K\<close> registered.\<close>

definition tidy :: "string \<Rightarrow> string set \<Rightarrow> ('c, 'a) test \<Rightarrow> bool" where
  "tidy pre K m \<longleftrightarrow> (\<forall>t r t'. S (tb_c t) \<longrightarrow> K \<subseteq> set (tb_cleanup t) \<longrightarrow> m t = Some (r, t') \<longrightarrow> kept pre t t')"

lemma tidyI:
  "(\<And>t r t'. S (tb_c t) \<Longrightarrow> K \<subseteq> set (tb_cleanup t) \<Longrightarrow> m t = Some (r, t') \<Longrightarrow> kept pre t t') \<Longrightarrow> tidy pre K m"
  by (simp add: tidy_def)

lemma tidyD: "tidy pre K m \<Longrightarrow> S (tb_c t) \<Longrightarrow> K \<subseteq> set (tb_cleanup t) \<Longrightarrow> m t = Some (r, t') \<Longrightarrow> kept pre t t'"
  by (simp add: tidy_def)

lemma tidy_report:
  "tidy pre K (t_return a)" "tidy pre K (t_Errors ps)" "tidy pre K (t_Errorf p)" "tidy pre K (t_Fatalf p)"
  by (auto intro!: tidyI kept_same simp: t_Errors_def t_Errorf_def t_Fatalf_def)

lemma tidy_bind:
  assumes "tidy pre K m" "\<And>a. tidy pre K (f a)"
  shows "tidy pre K (t_bind m f)"
proof (rule tidyI)
  fix t r t'
  assume t: "S (tb_c t)" "K \<subseteq> set (tb_cleanup t)" "t_bind m f t = Some (r, t')"
  from t(3) obtain q t1 where m: "m t = Some (q, t1)" by (auto simp: t_bind_def split: option.splits)
  with assms(1) t(1,2) have k1: "kept pre t t1" by (blast intro: tidyD)
  then have t1: "S (tb_c t1)" "K \<subseteq> set (tb_cleanup t1)" using t(2) by (auto simp: kept_def)
  show "kept pre t t'"
  proof (cases q)
    case (Inl p)
    with m t(3) k1 show ?thesis by (simp add: t_bind_def)
  next
    case (Inr a)
    with m t(3) have "f a t1 = Some (r, t')" by simp
    then have "kept pre t1 t'" by (rule tidyD [OF assms(2) t1])
    with k1 show ?thesis by (rule kept_trans)
  qed
qed

lemma tidy_control:
  "tidy pre K m \<Longrightarrow> tidy pre K m' \<Longrightarrow> tidy pre K (t_then m m')"
  "tidy pre K m \<Longrightarrow> tidy pre K (t_when b m)"
  "(\<And>a. tidy pre K (g a)) \<Longrightarrow> tidy pre K (t_for xs g)"
  "(\<And>a b. tidy pre K (h a b)) \<Longrightarrow> tidy pre K (case p of (a, b) \<Rightarrow> h a b)"
  "(\<And>e. tidy pre K (l e)) \<Longrightarrow> (\<And>v. tidy pre K (f v)) \<Longrightarrow> tidy pre K (case r of Inl e \<Rightarrow> l e | Inr v \<Rightarrow> f v)"
  "tidy pre K v1 \<Longrightarrow> tidy pre K v2 \<Longrightarrow> tidy pre K (if b then v1 else v2)"
proof -
  show seq: "tidy pre K (t_then m m')" if "tidy pre K m" "tidy pre K m'" for m m'
    using that by (simp add: t_then_def tidy_bind)
  show "tidy pre K (t_for xs g)" if "\<And>a. tidy pre K (g a)"
    using that by (induction xs) (simp_all add: tidy_report seq)
qed (auto simp: t_when_def tidy_report split: sum.split prod.split)

text \<open>The calls that store nothing, and the deletion of a key of the run.\<close>

lemma tidy_calls:
  "tidy pre K (t_call (\<lambda>c. cl_Get (su_cl u) c (su_ctx u) k))"
  "tidy pre K (t_call (\<lambda>c. cl_Stat (su_cl u) c (su_ctx u) k))"
  "tidy pre K (t_call (\<lambda>c. cl_List (su_cl u) c (su_ctx u) lo))"
  "tidy pre K (t_call (\<lambda>c. cl_EnsureContainer (su_cl u) c (su_ctx u)))"
  "tidy pre K (t_call (\<lambda>c. cl_Probe (su_cl u) c (su_ctx u)))"
  "owned pre k \<Longrightarrow> tidy pre K (t_call (\<lambda>c. cl_Delete (su_cl u) c (su_ctx u) k))"
proof -
  have get: "\<exists>r c'. cl_Get (su_cl u) c (su_ctx u) k = (r, c') \<and> S c' \<and> objs c' = objs c" if "S c" for c
    using get_found [OF that, of k] get_missing [OF that, of k] by (cases "objs c k") fastforce+
  have stat: "\<exists>r c'. cl_Stat (su_cl u) c (su_ctx u) k = (r, c') \<and> S c' \<and> objs c' = objs c" if "S c" for c
    using stat_found [OF that, of k] stat_missing [OF that, of k] by (cases "objs c k") fastforce+
  show "tidy pre K (t_call (\<lambda>c. cl_Get (su_cl u) c (su_ctx u) k))"
    by (rule tidyI, rule kept_same) (use get in \<open>fastforce simp: split: prod.splits\<close>)+
  show "tidy pre K (t_call (\<lambda>c. cl_Stat (su_cl u) c (su_ctx u) k))"
    by (rule tidyI, rule kept_same) (use stat in \<open>fastforce simp: split: prod.splits\<close>)+
  show "tidy pre K (t_call (\<lambda>c. cl_List (su_cl u) c (su_ctx u) lo))"
    by (rule tidyI, rule kept_same) (auto dest: list_keeps split: prod.splits)
  show "tidy pre K (t_call (\<lambda>c. cl_EnsureContainer (su_cl u) c (su_ctx u)))"
    by (rule tidyI, rule kept_same) (use ensure_any in \<open>fastforce split: prod.splits\<close>)+
  show "tidy pre K (t_call (\<lambda>c. cl_Probe (su_cl u) c (su_ctx u)))"
    by (rule tidyI, rule kept_same) (use probe_any in \<open>fastforce split: prod.splits\<close>)+
  show "tidy pre K (t_call (\<lambda>c. cl_Delete (su_cl u) c (su_ctx u) k))" if own: "owned pre k"
  proof (rule tidyI)
    fix t r t'
    assume t: "S (tb_c t)" "t_call (\<lambda>c. cl_Delete (su_cl u) c (su_ctx u) k) t = Some (r, t')"
    from delete_any [OF t(1), of "su_ctx u" k] obtain c' where
      "cl_Delete (su_cl u) (tb_c t) (su_ctx u) k = (None, c')" "S c'" "objs c' = (objs (tb_c t))(k := None)"
      by (elim exE conjE) (rule that)
    with t(2) own show "kept pre t t'" by (auto simp: kept_def split: if_splits)
  qed
qed

lemma listLoop_keeps:
  "S c \<Longrightarrow> listLoop left (su_cl u) c (su_ctx u) pre limit token objects ps = (r, c') \<Longrightarrow> S c' \<and> objs c' = objs c"
proof (induction left arbitrary: c token objects ps)
  case (Suc left)
  obtain q c1 where l: "cl_List (su_cl u) c (su_ctx u) \<lparr>lo_Prefix = pre, lo_Token = token, lo_Limit = limit\<rparr> = (q, c1)"
    by fastforce
  from list_keeps [OF Suc.prems(1) l] have c1: "S c1" "objs c1 = objs c" by simp_all
  with Suc.IH [OF c1(1)] Suc.prems(2) l show ?case
    by (auto simp: Let_def split: sum.splits if_splits)
qed simp

lemma tidy_listAll: "tidy pre K (t_listAll u p limit)"
  by (rule tidyI, rule kept_same)
    (auto simp: t_listAll_def t_Fatalf_def Let_def listAll_def dest: listLoop_keeps split: prod.splits sum.splits)

text \<open>A Put changes the key it is given only, whether it succeeds or fails.\<close>

lemma put_any:
  assumes "S c"
  shows "\<exists>r c' b'. cl_Put (su_cl u) c (su_ctx u) k b opts = Some (r, c', b') \<and> S c' \<and>
    (\<forall>k'. k' \<noteq> k \<longrightarrow> objs c' k' = objs c k')"
proof (cases "body_fin b = EOF \<and> (po_Size opts \<le> 0 \<or> int (length (body_content b)) = po_Size opts)")
  case True
  with put_stores [OF assms, of b opts k] obtain obj c' b' where
    "cl_Put (su_cl u) c (su_ctx u) k b opts = Some (Inr obj, c', b')" "S c'"
    "objs c' = (objs c)(k \<mapsto> (body_content b, obj))" by auto
  then show ?thesis by simp
next
  case False
  then have "body_fin b \<noteq> EOF \<or> (0 < po_Size opts \<and> int (length (body_content b)) \<noteq> po_Size opts)" by auto
  from put_fails [OF assms this, of k] show ?thesis by fastforce
qed

lemma tidy_callPut:
  assumes "k \<in> K"
  shows "tidy pre K (callPut u k b opts)"
proof (rule tidyI)
  fix t r t'
  assume t: "S (tb_c t)" "K \<subseteq> set (tb_cleanup t)" "callPut u k b opts t = Some (r, t')"
  from put_any [OF t(1), of k b opts] obtain q c' b' where
    c': "cl_Put (su_cl u) (tb_c t) (su_ctx u) k b opts = Some (q, c', b')" "S c'"
      "\<forall>k'. k' \<noteq> k \<longrightarrow> objs c' k' = objs (tb_c t) k'" by (elim exE conjE) (rule that)
  then have t': "t' = t\<lparr>tb_c := c'\<rparr>" using t(3) by (simp add: callPut_def)
  have "k \<in> set (tb_cleanup t)" using assms t(2) by blast
  then show "kept pre t t'" unfolding kept_def t' using c'(2,3) by auto
qed

lemma tidy_registered:
  assumes "owned pre k" "tidy pre (insert k K) m"
  shows "tidy pre K (t_then (deleteOnCleanup k) m)"
proof (rule tidyI)
  fix t r t'
  assume t: "S (tb_c t)" "K \<subseteq> set (tb_cleanup t)" "t_then (deleteOnCleanup k) m t = Some (r, t')"
  let ?t = "t\<lparr>tb_cleanup := k # tb_cleanup t\<rparr>"
  have "kept pre ?t t'" by (rule tidyD [OF assms(2)]) (use t in auto)
  moreover have "kept pre t ?t" using t(1) assms(1) by (auto simp: kept_def)
  ultimately show "kept pre t t'" by (blast intro: kept_trans)
qed

lemma t_bind_put:
  "t_bind (suite_put u k b opts) f =
     t_then (deleteOnCleanup k) (t_bind (callPut u k b opts) (\<lambda>r. case r of
       Inl e \<Rightarrow> t_Fatalf (Problem ''Put(%q): %v'' [VStr k]) | Inr obj \<Rightarrow> f obj))"
  by (rule ext) (auto simp: suite_put_def t_then_def t_bind_def t_Fatalf_def split: option.split sum.split)

lemma tidy_put:
  assumes "owned pre k" "\<And>obj. tidy pre (insert k K) (f obj)"
  shows "tidy pre K (t_bind (suite_put u k b opts) f)"
  unfolding t_bind_put
  by (rule tidy_registered [OF assms(1)]) (intro tidy_bind tidy_callPut tidy_control tidy_report assms(2) insertI1)

lemma tidy_reads: "tidy pre K (suite_get u k)" "tidy pre K (suite_stat u k)"
proof -
  have read: "tidy pre K (\<lambda>t. case readAll (su_space u) (su_grd u) g [] of None \<Rightarrow> None | Some (data, e, g') \<Rightarrow>
      m data e g' t)" if "\<And>data e g'. tidy pre K (m data e g')"
    for g m
    by (cases "readAll (su_space u) (su_grd u) g []") (use that in \<open>auto simp: tidy_def\<close>)
  show "tidy pre K (suite_get u k)" unfolding suite_get_def
    by (intro tidy_bind tidy_calls tidy_control tidy_report read)
  show "tidy pre K (suite_stat u k)" unfolding suite_stat_def
    by (intro tidy_bind tidy_calls tidy_control tidy_report)
qed

lemma tidy_wantContent: "tidy pre K (wantContent u k obj content ct)"
  unfolding wantContent_def Let_def by (intro tidy_bind tidy_reads tidy_control tidy_report)

lemma tidy_wantAbsent: "tidy pre K (wantAbsent u p k)"
  unfolding wantAbsent_def by (intro tidy_bind tidy_calls tidy_listAll tidy_control tidy_report)

lemmas tidy_intros = tidy_put tidy_bind tidy_calls tidy_control tidy_report tidy_listAll tidy_reads
  tidy_wantContent tidy_wantAbsent owned_intros

lemma tidy_putAndWant: "owned pre k \<Longrightarrow> tidy pre K (putAndWant u k b opts content ct)"
  unfolding putAndWant_def by (intro tidy_intros)

lemma tidy_putNames: "tidy pre K (putNames u pre names written)"
  by (induction names arbitrary: written K) (auto intro: tidy_intros)

lemma tidy_failedPuts: "tidy pre K (checkFailedPuts u pre puts)"
proof -
  have one: "tidy pre K (checkFailedPut u pre q)" for q
  proof (cases q)
    case (Pair i fp)
    show ?thesis unfolding Pair checkFailedPut_def Let_def prod.case
      by (intro tidy_registered tidy_put tidy_bind tidy_callPut insertI1 tidy_control tidy_report
          tidy_wantContent tidy_wantAbsent owned_intros)
  qed
  show ?thesis unfolding checkFailedPuts_def by (intro tidy_control one)
qed

lemma tidy_capabilities: "tidy pre K (checkCapabilities u pre)"
proof (rule tidyI)
  fix t r t'
  assume t: "S (tb_c t)" "K \<subseteq> set (tb_cleanup t)" "checkCapabilities u pre t = Some (r, t')"
  show "kept pre t t'"
    by (rule tidyD [where m = "t_then a b" for a b, OF _ t(1,2) t(3) [unfolded checkCapabilities_def Let_def]])
      (auto intro!: tidy_intros split: option.split)
qed

lemma cases_tidy:
  assumes "(name, check) \<in> set (suite_cases u)"
  shows "tidy pre K (check pre)"
proof -
  have "tidy pre K (checkEnsureContainer u pre)" "tidy pre K (checkMissingKey u pre)" "tidy pre K (checkDelete u pre)"
    unfolding checkEnsureContainer_def checkMissingKey_def checkDelete_def Let_def by (intro tidy_intros)+
  moreover have "tidy pre K (checkReplace u pre)" "tidy pre K (checkList u pre)"
    unfolding checkReplace_def checkList_def Let_def by (intro tidy_putNames tidy_intros)+
  moreover have "tidy pre K (checkRoundTrip u pre)" "tidy pre K (checkLargeBody u pre)"
    "tidy pre K (checkEmptyBody u pre)" "tidy pre K (checkPutDeclaredSize u pre)"
    "tidy pre K (checkPutUnknownSize u pre)" "tidy pre K (checkPutNonSeekableBody u pre)"
    "tidy pre K (checkPutOneByteReads u pre)"
    unfolding checkRoundTrip_def checkLargeBody_def checkEmptyBody_def checkPutDeclaredSize_def
      checkPutUnknownSize_def checkPutNonSeekableBody_def checkPutOneByteReads_def Let_def
    by (intro tidy_putAndWant owned_intros)+
  moreover have "tidy pre K (checkPutBodyFailsMidway u pre)" "tidy pre K (checkPutSizeMismatch u pre)"
    unfolding checkPutBodyFailsMidway_def checkPutSizeMismatch_def Let_def by (rule tidy_failedPuts)+
  ultimately show ?thesis using assms tidy_capabilities by (auto simp: suite_cases_def)
qed

text \<open>The deletions the runner makes at the end.\<close>

lemma cleanup_run: "S c \<Longrightarrow> S (cleanup u ks c) \<and> objs (cleanup u ks c) = (\<lambda>k. if k \<in> set ks then None else objs c k)"
proof (induction ks arbitrary: c)
  case (Cons k ks)
  from delete_any [OF Cons.prems, of "withTimeout (su_clock u (length ks)) background cleanupTimeout" k]
  obtain c' where "cl_Delete (su_cl u) c (withTimeout (su_clock u (length ks)) background cleanupTimeout) k = (None, c')"
    "S c'" "objs c' = (objs c)(k := None)" by (elim exE conjE) (rule that)
  with Cons.IH [of c'] show ?case by (auto simp: fun_eq_iff)
qed simp

text \<open>A case on a ready client without keys of its run: it reports nothing, and the objects are as before.\<close>

lemma runCase_run:
  assumes check: "(name, check) \<in> set (suite_cases u)" and r: "length r = 8"
    and tags: "tag ''first'' \<noteq> tag secondContent" and large: "length (su_large u) = largeBodySize"
    and S: "S c" and fresh: "\<And>k. owned (prefixOf r) k \<Longrightarrow> objs c k = None"
  shows "\<exists>c'. runTest u (runCase u check (Inr r)) c = Some ([], c') \<and> S c' \<and> objs c' = objs c"
proof -
  from ensure_any [OF S] obtain c1 where c1: "cl_EnsureContainer (su_cl u) c (su_ctx u) = (None, c1)" "S c1"
    "objs c1 = objs c" by (elim exE conjE) (rule that)
  let ?t = "\<lparr>tb_c = c1, tb_problems = [], tb_cleanup = []\<rparr>"
  have "\<exists>t'. check (prefixOf r) ?t = Some (Inr (), t') \<and> tb_problems t' = tb_problems ?t \<and> S (tb_c t')"
    using cases_pass [OF check r tags large, unfolded passes_def, rule_format, of ?t] c1 fresh by (simp add: owned_def)
  then obtain t' where t': "check (prefixOf r) ?t = Some (Inr (), t')" "tb_problems t' = []" "S (tb_c t')" by auto
  have kept: "kept (prefixOf r) ?t t'"
    by (rule tidyD [OF cases_tidy [OF check, of _ "{}"] _ _ t'(1)]) (use c1(2) in simp_all)
  have "objs (cleanup u (tb_cleanup t') (tb_c t')) k = objs c k" for k
    using cleanup_run [OF t'(3), of "tb_cleanup t'"] kept c1(3) fresh [of k] by (auto simp: kept_def)
  moreover have "runTest u (runCase u check (Inr r)) c = Some ([], cleanup u (tb_cleanup t') (tb_c t'))"
    using c1(1) t'(1,2) by (simp add: runTest_def runCase_def newPrefix_def)
  ultimately show ?thesis using cleanup_run [OF t'(3)] by auto
qed

end

section \<open>The suite over the fake\<close>

text \<open>
  C13: the conformance suite passes over the fake and leaves no trace. For fakes that are up, over a
  clock that does not show the zero time, that hold no key of the run, every one of the fifteen cases
  returns and reports no problem, and afterwards each fake holds the objects it held before, whatever
  else it stores; the hash is only asked to tell apart the two bodies of the Replace case.
\<close>

theorem Run_fake:
  assumes "\<And>i. suite_fake (newClient i)" and "\<And>i. length (random i) = 8"
    and "\<And>i k. owned (prefixOf (random i)) k \<Longrightarrow> fake_objs (newClient i) k = None"
    and "hash ''first'' \<noteq> hash secondContent" and "length large = largeBodySize"
    and "u = fake_suite (\<lambda>n. Suc (extra n)) hash x large clock"
  shows "\<exists>fs. Run u newClient (\<lambda>i. Inr (random i)) =
      map (\<lambda>i. (fst (suite_cases u ! i), Some ([], fs i))) [0..<15] \<and>
    (\<forall>i. fake_objs (fs i) = fake_objs (newClient i))"
proof -
  have len: "length (suite_cases u) = 15" by (simp add: suite_cases_def)
  have tags: "fake_tag hash ''first'' \<noteq> fake_tag hash secondContent"
    using assms(4) hexEncode_inj by (auto simp: fake_tag_def)
  have large: "length (su_large u) = largeBodySize" using assms(5,6) by (simp add: fake_suite_def)
  have one: "\<exists>c'. runTest u (runCase u (snd (suite_cases u ! i)) (Inr (random i))) (newClient i) = Some ([], c') \<and>
      fake_objs c' = fake_objs (newClient i)" if "i < 15" for i
  proof -
    have check: "(fst (suite_cases u ! i), snd (suite_cases u ! i)) \<in> set (suite_cases u)"
      using that len by simp
    from fs.runCase_run [OF check [unfolded assms(6)] assms(2) tags large [unfolded assms(6)] assms(1,3)]
    show ?thesis unfolding assms(6) by blast
  qed
  define fs where "fs i = (if i < 15 then SOME c'.
      runTest u (runCase u (snd (suite_cases u ! i)) (Inr (random i))) (newClient i) = Some ([], c') \<and>
      fake_objs c' = fake_objs (newClient i) else newClient i)" for i
  have fs: "(i < 15 \<longrightarrow> runTest u (runCase u (snd (suite_cases u ! i)) (Inr (random i))) (newClient i) =
      Some ([], fs i)) \<and> fake_objs (fs i) = fake_objs (newClient i)" for i
    using someI_ex [OF one [of i]] by (simp add: fs_def)
  have "Run u newClient (\<lambda>i. Inr (random i)) =
      map (\<lambda>i. (fst (suite_cases u ! i), Some ([], fs i))) [0..<15]"
    by (rule nth_equalityI) (use fs len in \<open>simp_all add: Run_def case_prod_beta\<close>)
  with fs show ?thesis by blast
qed

definition suite_newFake :: Fake where
  "suite_newFake = NewFake (\<lambda>_. \<lparr>instant = 1, loc = UTC\<rparr>) []"

theorem Run_fake_witness:
  "\<exists>fs. Run (fake_suite (\<lambda>n. Suc 0) (\<lambda>d. d) background (replicate largeBodySize (CHR ''x'')) (\<lambda>_. zeroTime))
      (\<lambda>_. suite_newFake) (\<lambda>_. Inr ''prefix01'') =
    map (\<lambda>i. (fst (suite_cases (fake_suite (\<lambda>n. Suc 0) (\<lambda>d. d) background
      (replicate largeBodySize (CHR ''x'')) (\<lambda>_. zeroTime)) ! i), Some ([], fs i))) [0..<15]"
proof -
  have up: "suite_fake suite_newFake" "fake_objs suite_newFake k = None" for k
    by (simp_all add: suite_newFake_def suite_fake_def fake_up_def fake_wf_def NewFake_def fake_objs_def
        defaultPageSize_def)
  have len: "length ''prefix01'' = 8" by simp
  have differ: "(\<lambda>d. d) ''first'' \<noteq> (\<lambda>d. d) secondContent" by (simp add: secondContent_def)
  from Run_fake [where newClient = "\<lambda>_. suite_newFake" and random = "\<lambda>_. ''prefix01''" and extra = "\<lambda>_. 0",
      OF up(1) len up(2) differ length_replicate refl]
  show ?thesis by blast
qed

text \<open>
  C14: the missing-container check passes over every fake that is up and has no container: it reports
  no problem, creates no container and stores nothing.
\<close>

theorem RunMissingContainer_fake:
  assumes "\<not> f_down f" and "\<not> f_hasContainer f"
    and "u = fake_suite (\<lambda>n. Suc (extra n)) hash x large clock"
  shows "\<exists>f'. RunMissingContainer u f (Inr random) = Some ([], f') \<and> \<not> f_hasContainer f' \<and> f_objects f' = f_objects f"
proof -
  obtain b' where all: "readAll (\<lambda>n. Suc (extra n)) body_Read (Bytes ''x'') [] = Some (''x'', None, b')"
    using body_rd.readAll_stream [of "\<lambda>n. Suc (extra n)" "Bytes ''x''" "[]"] by auto
  let ?key = "prefixOf random @ ''absent.txt''" and ?opts = "put_opts [] 1"
  obtain f1 where f1: "cl_Probe (su_cl u) f (su_ctx u) = (Some noContainer, f1)"
    "\<not> f_down f1" "\<not> f_hasContainer f1" "f_objects f1 = f_objects f"
    using assms by (simp add: fake_suite_def fake_defs Let_def case_prod_beta)
  let ?f2 = "f1\<lparr>f_puts := wrap64 (f_puts f1 + 1), f_lastPutOpts := ?opts, f_lastPutConsumed := 1\<rparr>"
  have put: "cl_Put (su_cl u) f1 (su_ctx u) ?key (Bytes ''x'') ?opts = Some (Inl noContainer, ?f2, b')"
    using assms(3) f1(2,3) all by (simp add: fake_suite_def fake_client_def fake_Put_def Let_def)
  have rest: "cl_Get (su_cl u) ?f2 (su_ctx u) ?key = (Inl noContainer, ?f2)"
    "cl_Stat (su_cl u) ?f2 (su_ctx u) ?key = (Inl noContainer, ?f2)"
    "cl_Delete (su_cl u) ?f2 (su_ctx u) ?key = (Some noContainer, ?f2)"
    "cl_List (su_cl u) ?f2 (su_ctx u) lo = (Inl noContainer, ?f2)" for lo
    using assms(3) f1(2,3)
    by (simp_all add: fake_suite_def fake_defs)
  have quiet: "wantNoContainer name (Some noContainer) = []" for name by (simp add: wantNoContainer_def)
  from f1 put rest show ?thesis
    by (simp add: RunMissingContainer_def runTest_def newPrefix_def checkMissingContainer_def callPut_def errOf_def
        Let_def quiet)
qed

theorem RunMissingContainer_fake_witness:
  "\<exists>f'. RunMissingContainer (fake_suite (\<lambda>n. Suc ((\<lambda>_. 0) n)) (\<lambda>d. d) background [] (\<lambda>_. zeroTime))
     (NewFake (\<lambda>_. zeroTime) [WithoutContainer]) (Inr ''prefix01'') = Some ([], f')"
  using RunMissingContainer_fake [of "NewFake (\<lambda>_. zeroTime) [WithoutContainer]", OF _ _ refl,
      where random = "''prefix01''" and extra = "\<lambda>_. 0"]
  by (simp add: NewFake_def WithoutContainer_def) blast

end
