(* ===== verification/Lifecycle.thy ===== *)
theory Lifecycle
  imports Store
begin

text \<open>
  Start, Shutdown and the gated operations of one Store, called from any number of goroutines. Each
  goroutine is at a program point, and a step is one access to what goroutines share: taking or
  releasing \<open>mu\<close>, the body of a critical section of \<open>mu\<close>, a load of \<open>started\<close>, a call that the client
  receives, the client's answer, or a return. Between any two steps every other goroutine can run; in
  particular between a check and the call it guards, and between the end of Start's critical section and
  its return. What the client and the caller's context answer is open, and an answer may never come.

  An operation stands for every method that loads \<open>started\<close> first; \<open>Ready\<close> returns false where the others
  return \<open>ErrNotReady\<close>. What it does between its check and its return is its own function in \<open>Store\<close>.

  The body of a critical section is one step: \<open>shut\<close> is only accessed under \<open>mu\<close>, and no section accesses
  \<open>started\<close> more than once.
\<close>

section \<open>States and steps\<close>

text \<open>Where \<open>isShut\<close> is called from.\<close>

datatype site = Entry | Recheck | Failure err

datatype pc =
    Idle
  | IsShutLock site           \<comment> \<open>in \<open>isShut\<close>, before \<open>mu.Lock\<close>\<close>
  | IsShutRead site           \<comment> \<open>holding \<open>mu\<close>, before it reads \<open>shut\<close>\<close>
  | IsShutUnlock site bool    \<comment> \<open>holding \<open>mu\<close>, before \<open>mu.Unlock\<close>\<close>
  | IsShutDone site bool      \<comment> \<open>\<open>isShut\<close> has returned\<close>
  | InEnsure                  \<comment> \<open>in \<open>client.EnsureContainer\<close>\<close>
  | InProbe                   \<comment> \<open>in \<open>client.Probe\<close>\<close>
  | CommitLock
  | CommitBody
  | CommitUnlock "err option"
  | StartReturn "err option"
  | ShutLock
  | ShutBody
  | ShutUnlock bool           \<comment> \<open>with \<open>already\<close>\<close>
  | ShutDecide bool
  | InClose                   \<comment> \<open>in \<open>closer.Close\<close>\<close>
  | ShutReturn "err option"
  | OpEntry                   \<comment> \<open>an object operation, Probe or Ready, before it loads \<open>started\<close>\<close>
  | OpPassed                  \<comment> \<open>it has loaded true\<close>
  | InOp                      \<comment> \<open>in the client\<close>
  | OpReturn "err option"
  | Returned "err option"

record life =
  l_store :: Store
  l_mu :: "nat option"
  l_closes :: nat
  l_pc :: "nat \<Rightarrow> pc"

text \<open>
  What a step shows, and which goroutine makes it. \<open>Committed\<close> is Start's critical section when it sets
  \<open>started\<close>.
\<close>

datatype event =
    Silent nat
  | EnsureCall nat
  | EnsureAnswer nat "err option"
  | ProbeCall nat
  | ProbeAnswer nat "err option"
  | CtxErr nat "err option"
  | Committed nat
  | StartRet nat "err option"
  | CloseCall nat
  | CloseAnswer nat "err option"
  | ShutdownRet nat "err option"
  | OpCall nat
  | OpAnswer nat
  | OpRet nat "err option"

fun who :: "event \<Rightarrow> nat" where
  "who (Silent t) = t"
| "who (EnsureCall t) = t"
| "who (EnsureAnswer t e) = t"
| "who (ProbeCall t) = t"
| "who (ProbeAnswer t e) = t"
| "who (CtxErr t e) = t"
| "who (Committed t) = t"
| "who (StartRet t r) = t"
| "who (CloseCall t) = t"
| "who (CloseAnswer t e) = t"
| "who (ShutdownRet t r) = t"
| "who (OpCall t) = t"
| "who (OpAnswer t) = t"
| "who (OpRet t r) = t"

abbreviation at :: "life \<Rightarrow> nat \<Rightarrow> pc \<Rightarrow> life" where
  "at w t p \<equiv> w\<lparr>l_pc := (l_pc w)(t := p)\<rparr>"

abbreviation shut :: "life \<Rightarrow> bool" where "shut w \<equiv> st_shut (l_store w)"
abbreviation started :: "life \<Rightarrow> bool" where "started w \<equiv> st_started (l_store w)"

definition shutStore :: "life \<Rightarrow> life" where
  "shutStore w = w\<lparr>l_store := (l_store w)\<lparr>st_shut := True, st_started := False\<rparr>\<rparr>"

definition startStore :: "life \<Rightarrow> life" where
  "startStore w = w\<lparr>l_store := (l_store w)\<lparr>st_started := True\<rparr>\<rparr>"

text \<open>
  The four places that lock \<open>mu\<close> and the program point that then holds it, and the four that unlock it
  and the point after.
\<close>

fun locked :: "pc \<Rightarrow> pc option" where
  "locked (IsShutLock s) = Some (IsShutRead s)"
| "locked CommitLock = Some CommitBody"
| "locked ShutLock = Some ShutBody"
| "locked _ = None"

fun unlocked :: "pc \<Rightarrow> pc option" where
  "unlocked (IsShutUnlock s b) = Some (IsShutDone s b)"
| "unlocked (CommitUnlock r) = Some (StartReturn r)"
| "unlocked (ShutUnlock a) = Some (ShutDecide a)"
| "unlocked _ = None"

text \<open>\<open>closer\<close> says whether the client implements \<open>io.Closer\<close>.\<close>

inductive lstep :: "bool \<Rightarrow> life \<Rightarrow> event \<Rightarrow> life \<Rightarrow> bool" for closer where
  lock: "locked (l_pc w t) = Some p \<Longrightarrow> l_mu w = None \<Longrightarrow>
    lstep closer w (Silent t) (at (w\<lparr>l_mu := Some t\<rparr>) t p)"
| unlock: "unlocked (l_pc w t) = Some p \<Longrightarrow> lstep closer w (Silent t) (at (w\<lparr>l_mu := None\<rparr>) t p)"
| read_shut: "l_pc w t = IsShutRead s \<Longrightarrow> lstep closer w (Silent t) (at w t (IsShutUnlock s (shut w)))"
| call_start: "l_pc w t = Idle \<Longrightarrow> lstep closer w (Silent t) (at w t (IsShutLock Entry))"
| entry_shut: "l_pc w t = IsShutDone Entry True \<Longrightarrow> lstep closer w (Silent t) (at w t (StartReturn (Some ErrNotReady)))"
| entry_ok: "l_pc w t = IsShutDone Entry False \<Longrightarrow> lstep closer w (EnsureCall t) (at w t InEnsure)"
| ensure_ok: "l_pc w t = InEnsure \<Longrightarrow> lstep closer w (EnsureAnswer t None) (at w t (IsShutLock Recheck))"
| ensure_err: "l_pc w t = InEnsure \<Longrightarrow> lstep closer w (EnsureAnswer t (Some e)) (at w t (IsShutLock (Failure e)))"
| recheck_shut: "l_pc w t = IsShutDone Recheck True \<Longrightarrow> lstep closer w (Silent t) (at w t (StartReturn (Some ErrNotReady)))"
| recheck_ok: "l_pc w t = IsShutDone Recheck False \<Longrightarrow> lstep closer w (ProbeCall t) (at w t InProbe)"
| probe_ok: "l_pc w t = InProbe \<Longrightarrow> lstep closer w (ProbeAnswer t None) (at w t CommitLock)"
| probe_err: "l_pc w t = InProbe \<Longrightarrow> lstep closer w (ProbeAnswer t (Some e)) (at w t (IsShutLock (Failure e)))"
| failed_shut: "l_pc w t = IsShutDone (Failure e) True \<Longrightarrow> lstep closer w (Silent t) (at w t (StartReturn (Some (startFailure True ctxErr e))))"
| failed: "l_pc w t = IsShutDone (Failure e) False \<Longrightarrow>
    lstep closer w (CtxErr t ctxErr) (at w t (StartReturn (Some (startFailure False ctxErr e))))"
| commit_shut: "l_pc w t = CommitBody \<Longrightarrow> shut w \<Longrightarrow> lstep closer w (Silent t) (at w t (CommitUnlock (Some ErrNotReady)))"
| commit_ok: "l_pc w t = CommitBody \<Longrightarrow> \<not> shut w \<Longrightarrow> lstep closer w (Committed t) (at (startStore w) t (CommitUnlock None))"
| start_return: "l_pc w t = StartReturn r \<Longrightarrow> lstep closer w (StartRet t r) (at w t (Returned r))"
| call_shutdown: "l_pc w t = Idle \<Longrightarrow> lstep closer w (Silent t) (at w t ShutLock)"
| shut_body: "l_pc w t = ShutBody \<Longrightarrow> lstep closer w (Silent t) (at (shutStore w) t (ShutUnlock (shut w)))"
| shut_none: "l_pc w t = ShutDecide a \<Longrightarrow> a \<or> \<not> closer \<Longrightarrow> lstep closer w (Silent t) (at w t (ShutReturn None))"
| shut_close: "l_pc w t = ShutDecide False \<Longrightarrow> closer \<Longrightarrow>
    lstep closer w (CloseCall t) (at (w\<lparr>l_closes := Suc (l_closes w)\<rparr>) t InClose)"
| close_done: "l_pc w t = InClose \<Longrightarrow> lstep closer w (CloseAnswer t e) (at w t (ShutReturn e))"
| shut_return: "l_pc w t = ShutReturn r \<Longrightarrow> lstep closer w (ShutdownRet t r) (at w t (Returned r))"
| call_op: "l_pc w t = Idle \<Longrightarrow> lstep closer w (Silent t) (at w t OpEntry)"
| op_refused: "l_pc w t = OpEntry \<Longrightarrow> \<not> started w \<Longrightarrow> lstep closer w (Silent t) (at w t (OpReturn (Some ErrNotReady)))"
| op_passed: "l_pc w t = OpEntry \<Longrightarrow> started w \<Longrightarrow> lstep closer w (Silent t) (at w t OpPassed)"
| op_bad: "l_pc w t = OpPassed \<Longrightarrow> lstep closer w (Silent t) (at w t (OpReturn (Some e)))"
| op_call: "l_pc w t = OpPassed \<Longrightarrow> lstep closer w (OpCall t) (at w t InOp)"
| op_done: "l_pc w t = InOp \<Longrightarrow> lstep closer w (OpAnswer t) (at w t (OpReturn r))"
| op_return: "l_pc w t = OpReturn r \<Longrightarrow> lstep closer w (OpRet t r) (at w t (Returned r))"

inductive lrun :: "bool \<Rightarrow> life \<Rightarrow> event list \<Rightarrow> life \<Rightarrow> bool" for closer where
  lrun_nil: "lrun closer w [] w"
| lrun_cons: "lstep closer w ev w' \<Longrightarrow> lrun closer w' evs w'' \<Longrightarrow> lrun closer w (ev # evs) w''"

inductive_simps lrun_Nil_iff [simp]: "lrun closer w [] w'"

definition fresh :: "Store \<Rightarrow> life" where
  "fresh s = \<lparr>l_store = s\<lparr>st_started := False, st_shut := False\<rparr>, l_mu = None, l_closes = 0, l_pc = (\<lambda>_. Idle)\<rparr>"

lemma startFailure_shut [simp]: "startFailure True ctxErr e = ErrNotReady"
  by (simp add: startFailure_def)

lemma shutStore_simps [simp]:
  "l_pc (shutStore w) = l_pc w" "l_closes (shutStore w) = l_closes w" "l_mu (shutStore w) = l_mu w"
  "shut (shutStore w)" "\<not> started (shutStore w)"
  "l_pc (startStore w) = l_pc w" "l_closes (startStore w) = l_closes w" "l_mu (startStore w) = l_mu w"
  "shut (startStore w) = shut w" "started (startStore w)"
  by (simp_all add: shutStore_def startStore_def)

text \<open>The program points at which a goroutine holds \<open>mu\<close>.\<close>

fun holds :: "pc \<Rightarrow> bool" where
  "holds (IsShutRead s) = True"
| "holds (IsShutUnlock s b) = True"
| "holds CommitBody = True"
| "holds (CommitUnlock r) = True"
| "holds ShutBody = True"
| "holds (ShutUnlock a) = True"
| "holds _ = False"

lemma locked_cases:
  assumes "locked q = Some p"
  obtains s where "q = IsShutLock s" "p = IsShutRead s" | "q = CommitLock" "p = CommitBody" | "q = ShutLock" "p = ShutBody"
  using assms by (cases q) auto

lemma unlocked_cases:
  assumes "unlocked q = Some p"
  obtains s b where "q = IsShutUnlock s b" "p = IsShutDone s b" | r where "q = CommitUnlock r" "p = StartReturn r"
    | a where "q = ShutUnlock a" "p = ShutDecide a"
  using assms by (cases q) auto

text \<open>A step changes the program point of the goroutine that makes it only.\<close>

lemma lstep_others: "lstep closer w ev w' \<Longrightarrow> u \<noteq> who ev \<Longrightarrow> l_pc w' u = l_pc w u"
  by (induction rule: lstep.induct) simp_all

section \<open>Mutual exclusion\<close>

definition mutex :: "life \<Rightarrow> bool" where
  "mutex w \<longleftrightarrow> (\<forall>t. holds (l_pc w t) \<longleftrightarrow> l_mu w = Some t)"

lemma mutex_fresh: "mutex (fresh s)"
  by (simp add: mutex_def fresh_def)

lemma mutex_keeps [simp]: "mutex (shutStore w) = mutex w" "mutex (startStore w) = mutex w"
  "mutex (w\<lparr>l_closes := n\<rparr>) = mutex w"
  by (simp_all add: mutex_def)

lemma mutex_at: "mutex w \<Longrightarrow> holds (l_pc w t) = holds p \<Longrightarrow> mutex (at w t p)"
  by (auto simp: mutex_def)

lemma lstep_mutex: "lstep closer w ev w' \<Longrightarrow> mutex w \<Longrightarrow> mutex w'"
proof (induction rule: lstep.induct)
  case (lock w t p)
  then show ?case by (auto simp: mutex_def elim!: locked_cases)
next
  case (unlock w t p)
  then have "holds (l_pc w t)" "\<not> holds p" by (auto elim!: unlocked_cases)
  with unlock show ?case by (auto simp: mutex_def)
next
  case (commit_ok w t)
  then show ?case by (intro mutex_at) simp_all
next
  case (shut_body w t)
  then show ?case by (intro mutex_at) simp_all
next
  case (shut_close w t)
  then show ?case by (intro mutex_at) simp_all
qed (auto intro!: mutex_at)

lemma lrun_mutex: "lrun closer w evs w' \<Longrightarrow> mutex w \<Longrightarrow> mutex w'"
  by (induction rule: lrun.induct) (auto intro: lstep_mutex)

section \<open>Closing\<close>

text \<open>A Shutdown that found the store not shut and has not called Close yet.\<close>

fun due :: "pc \<Rightarrow> bool" where
  "due (ShutUnlock a) = (\<not> a)"
| "due (ShutDecide a) = (\<not> a)"
| "due _ = False"

definition closing :: "(nat \<Rightarrow> pc) \<Rightarrow> bool" where
  "closing f \<longleftrightarrow> (\<exists>t. due (f t))"

definition life_inv :: "life \<Rightarrow> bool" where
  "life_inv w \<longleftrightarrow> (shut w \<longrightarrow> \<not> started w) \<and>
     (\<forall>t. due (l_pc w t) \<longrightarrow> shut w \<and> l_closes w = 0) \<and>
     (\<forall>t u. due (l_pc w t) \<longrightarrow> due (l_pc w u) \<longrightarrow> t = u) \<and>
     (if shut w then l_closes w \<le> 1 else l_closes w = 0)"

lemma life_inv_fresh: "life_inv (fresh s)"
  by (simp add: life_inv_def fresh_def)

lemma life_inv_mu [simp]: "life_inv (w\<lparr>l_mu := m\<rparr>) = life_inv w"
  by (simp add: life_inv_def)

lemma life_inv_at: "life_inv w \<Longrightarrow> (due p \<Longrightarrow> due (l_pc w t)) \<Longrightarrow> life_inv (at w t p)"
  by (cases "due p") (auto simp: life_inv_def)

lemma lstep_inv: "lstep closer w ev w' \<Longrightarrow> life_inv w \<Longrightarrow> life_inv w'"
proof (induction rule: lstep.induct)
  case (unlock w t p)
  then show ?case by (elim unlocked_cases) (intro life_inv_at; simp)+
next
  case (lock w t p)
  then show ?case by (elim locked_cases) (intro life_inv_at; simp)+
next
  case (commit_ok w t)
  then show ?case by (simp add: life_inv_def)
next
  case (shut_body w t)
  then show ?case by (cases "shut w") (auto simp: life_inv_def)
next
  case (shut_close w t)
  then have "due (l_pc w t)" by simp
  with shut_close(3) have w: "shut w" "l_closes w = 0" "\<not> started w" and one: "\<And>u. due (l_pc w u) \<Longrightarrow> u = t"
    unfolding life_inv_def by blast+
  have none: "\<not> due (((l_pc w)(t := InClose)) u)" for u using one [of u] by (cases "u = t") auto
  show ?case unfolding life_inv_def by (simp add: w none del: fun_upd_apply)
next
  case (read_shut w t s)
  then show ?case by (intro life_inv_at) simp_all
next
  case (failed_shut w t e)
  then show ?case by (intro life_inv_at) simp_all
next
  case (failed w t e ctxErr)
  then show ?case by (intro life_inv_at) simp_all
qed (erule life_inv_at, simp)+

lemma lrun_inv: "lrun closer w evs w' \<Longrightarrow> life_inv w \<Longrightarrow> life_inv w'"
  by (induction rule: lrun.induct) (auto intro: lstep_inv)

text \<open>The number of Close calls a run makes is what the state counts.\<close>

definition is_close :: "event \<Rightarrow> bool" where
  "is_close ev = (case ev of CloseCall _ \<Rightarrow> True | _ \<Rightarrow> False)"

lemma lstep_closes:
  "lstep closer w ev w' \<Longrightarrow> l_closes w' = l_closes w + (if is_close ev then 1 else 0)"
  by (induction rule: lstep.induct) (simp_all add: is_close_def)

lemma lrun_closes: "lrun closer w evs w' \<Longrightarrow> l_closes w' = l_closes w + length (filter is_close evs)"
  by (induction rule: lrun.induct) (auto dest: lstep_closes)

text \<open>A Close that was decided on is made or still to be made.\<close>

lemma lstep_due: "lstep closer w ev w' \<Longrightarrow> closer \<Longrightarrow> due (l_pc w (who ev)) \<Longrightarrow> due (l_pc w' (who ev)) \<or> 0 < l_closes w'"
proof (induction rule: lstep.induct)
  case (unlock w t p)
  then show ?case by (elim unlocked_cases) simp_all
next
  case (lock w t p)
  then show ?case by (elim locked_cases) simp_all
qed simp_all

lemma lstep_shuts: "lstep closer w ev w' \<Longrightarrow> \<not> shut w \<Longrightarrow> shut w' \<Longrightarrow> due (l_pc w' (who ev))"
  by (induction rule: lstep.induct) simp_all

lemma lstep_close_due:
  assumes step: "lstep closer w ev w'" "closer" and pre: "shut w \<longrightarrow> 0 < l_closes w \<or> closing (l_pc w)"
  shows "shut w' \<longrightarrow> 0 < l_closes w' \<or> closing (l_pc w')"
proof
  assume "shut w'"
  show "0 < l_closes w' \<or> closing (l_pc w')"
  proof (cases "shut w")
    case False
    with lstep_shuts [OF step(1)] \<open>shut w'\<close> show ?thesis by (auto simp: closing_def)
  next
    case True
    with pre consider "0 < l_closes w" | u where "due (l_pc w u)" by (auto simp: closing_def)
    then show ?thesis
    proof cases
      case 1
      with lstep_closes [OF step(1)] show ?thesis by simp
    next
      case 2
      with lstep_due [OF step] lstep_others [OF step(1), of u] show ?thesis unfolding closing_def by metis
    qed
  qed
qed

lemma lrun_close_due:
  "lrun closer w evs w' \<Longrightarrow> closer \<Longrightarrow>
     (shut w \<longrightarrow> 0 < l_closes w \<or> closing (l_pc w)) \<Longrightarrow>
     (shut w' \<longrightarrow> 0 < l_closes w' \<or> closing (l_pc w'))"
proof (induction rule: lrun.induct)
  case (lrun_cons w ev w' evs w'')
  from lrun_cons.IH [OF lrun_cons(4) lstep_close_due [OF lrun_cons(1,4,5)]] show ?case .
qed

section \<open>After a Shutdown\<close>

lemma lstep_shut_mono: "lstep closer w ev w' \<Longrightarrow> shut w \<Longrightarrow> shut w'"
  by (induction rule: lstep.induct) simp_all

lemma lrun_shut_mono: "lrun closer w evs w' \<Longrightarrow> shut w \<Longrightarrow> shut w'"
  by (induction rule: lrun.induct) (auto dest: lstep_shut_mono)

text \<open>
  \<open>cleared\<close>: the last look at \<open>shut\<close> or \<open>started\<close> let the goroutine pass, and it is about to make the
  call that the look guards. \<open>settled\<close>: nothing that a Start has still to read can change what it
  returns. \<open>gated ev t\<close>: a call of the client that the gate guards.
\<close>

fun cleared :: "pc \<Rightarrow> bool" where
  "cleared (IsShutUnlock s b) = ((s = Entry \<or> s = Recheck) \<and> \<not> b)"
| "cleared (IsShutDone s b) = ((s = Entry \<or> s = Recheck) \<and> \<not> b)"
| "cleared OpPassed = True"
| "cleared _ = False"

fun settled :: "pc \<Rightarrow> bool" where
  "settled (IsShutUnlock s b) = ((\<exists>e. s = Failure e) \<and> \<not> b)"
| "settled (IsShutDone s b) = ((\<exists>e. s = Failure e) \<and> \<not> b)"
| "settled (CommitUnlock r) = (r \<noteq> Some ErrNotReady)"
| "settled (StartReturn r) = (r \<noteq> Some ErrNotReady)"
| "settled _ = False"

definition gated :: "event \<Rightarrow> bool" where
  "gated ev \<longleftrightarrow> (\<exists>t. ev = EnsureCall t \<or> ev = ProbeCall t \<or> ev = OpCall t)"

text \<open>One step of a store that is shut: what it shows, and that no goroutine is let through any more.\<close>

lemma lstep_shut:
  "lstep closer w ev w' \<Longrightarrow> shut w \<Longrightarrow> life_inv w \<Longrightarrow>
     (gated ev \<longrightarrow> cleared (l_pc w (who ev)) \<and> \<not> cleared (l_pc w' (who ev))) \<and>
     (\<forall>t. cleared (l_pc w' t) \<longrightarrow> cleared (l_pc w t)) \<and>
     (\<forall>t r. ev = StartRet t r \<longrightarrow> r = Some ErrNotReady \<or> settled (l_pc w t)) \<and>
     (\<forall>t. settled (l_pc w' t) \<longrightarrow> settled (l_pc w t)) \<and> (\<forall>t. ev \<noteq> Committed t)"
proof (induction rule: lstep.induct)
  case (lock w t p)
  then show ?case by (auto simp: gated_def elim!: locked_cases)
next
  case (unlock w t p)
  then show ?case
  proof (elim unlocked_cases, goal_cases)
    case (1 s b)
    then show ?case by (cases s) (auto simp: gated_def)
  qed (auto simp: gated_def)
qed (auto simp: gated_def life_inv_def)

text \<open>An operation that the gate has let through.\<close>

fun admitted :: "pc \<Rightarrow> bool" where
  "admitted OpPassed = True"
| "admitted InOp = True"
| "admitted (OpReturn r) = (r \<noteq> Some ErrNotReady)"
| "admitted _ = False"

lemma lstep_admitted:
  "lstep closer w ev w' \<Longrightarrow> shut w \<Longrightarrow> life_inv w \<Longrightarrow>
     (\<forall>t r. ev = OpRet t r \<longrightarrow> r = Some ErrNotReady \<or> admitted (l_pc w t)) \<and>
     (\<forall>t. admitted (l_pc w' t) \<longrightarrow> admitted (l_pc w t))"
proof (induction rule: lstep.induct)
  case (lock w t p)
  then show ?case by (auto elim!: locked_cases)
next
  case (unlock w t p)
  then show ?case by (elim unlocked_cases) auto
qed (auto simp: life_inv_def)

lemma lrun_shut:
  "lrun closer w evs w' \<Longrightarrow> shut w \<Longrightarrow> life_inv w \<Longrightarrow>
     length (filter (\<lambda>ev. gated ev \<and> who ev = t) evs) \<le> (if cleared (l_pc w t) then 1 else 0) \<and>
     (\<forall>r. StartRet t r \<in> set evs \<longrightarrow> r = Some ErrNotReady \<or> settled (l_pc w t)) \<and>
     (\<forall>r. OpRet t r \<in> set evs \<longrightarrow> r = Some ErrNotReady \<or> admitted (l_pc w t))"
proof (induction rule: lrun.induct)
  case (lrun_cons w ev w' evs w'')
  note step = lstep_shut [OF lrun_cons(1,4,5)] lstep_admitted [OF lrun_cons(1,4,5)]
  note IH = lrun_cons.IH [OF lstep_shut_mono [OF lrun_cons(1,4)] lstep_inv [OF lrun_cons(1,5)]]
  have "length (filter (\<lambda>ev. gated ev \<and> who ev = t) (ev # evs)) \<le> (if cleared (l_pc w t) then 1 else 0)"
  proof (cases "gated ev \<and> who ev = t")
    case True
    with step(1) have "cleared (l_pc w t)" "\<not> cleared (l_pc w' t)" by auto
    with IH True show ?thesis by simp
  next
    case False
    from step(1) have "cleared (l_pc w' t) \<Longrightarrow> cleared (l_pc w t)" by blast
    with IH False show ?thesis by (auto split: if_splits)
  qed
  with step IH show ?case by auto
qed simp

section \<open>Readiness\<close>

lemma lstep_started:
  "lstep closer w ev w' \<Longrightarrow> life_inv w \<Longrightarrow> started w' \<longleftrightarrow> \<not> shut w' \<and> (started w \<or> (\<exists>t. ev = Committed t))"
  by (induction rule: lstep.induct) (auto simp: life_inv_def)

lemma lrun_started:
  "lrun closer w evs w' \<Longrightarrow> life_inv w \<Longrightarrow>
     started w' \<longleftrightarrow> \<not> shut w' \<and> (started w \<or> (\<exists>t. Committed t \<in> set evs))"
proof (induction rule: lrun.induct)
  case (lrun_nil w)
  then show ?case by (auto simp: life_inv_def)
next
  case (lrun_cons w ev w' evs w'')
  from lstep_started [OF lrun_cons(1,4)] lrun_cons.IH [OF lstep_inv [OF lrun_cons(1,4)]]
    lrun_shut_mono [OF lrun_cons(2)]
  show ?case by auto
qed

text \<open>A Start that has set \<open>started\<close> and is about to return nil.\<close>

fun won :: "pc \<Rightarrow> bool" where
  "won (CommitUnlock r) = (r = None)"
| "won (StartReturn r) = (r = None)"
| "won _ = False"

lemma lstep_won:
  "lstep closer w ev w' \<Longrightarrow> (ev = Committed t \<or> won (l_pc w t)) \<longleftrightarrow> (ev = StartRet t None \<or> won (l_pc w' t))"
proof (induction rule: lstep.induct)
  case (lock w t' p)
  then show ?case by (auto elim!: locked_cases)
next
  case (unlock w t' p)
  then show ?case by (elim unlocked_cases) auto
qed auto

lemma lrun_won:
  "lrun closer w evs w' \<Longrightarrow>
     (Committed t \<in> set evs \<or> won (l_pc w t)) \<longleftrightarrow> (StartRet t None \<in> set evs \<or> won (l_pc w' t))"
proof (induction rule: lrun.induct)
  case (lrun_cons w ev w' evs w'')
  from lstep_won [OF lrun_cons(1), of t] lrun_cons.IH show ?case by auto
qed simp

section \<open>Progress\<close>

text \<open>How many steps of its own a goroutine is from its return, at most.\<close>

fun togo :: "pc \<Rightarrow> nat" where
  "togo Idle = 16"
| "togo (IsShutLock s) = (case s of Entry \<Rightarrow> 15 | Recheck \<Rightarrow> 10 | Failure e \<Rightarrow> 5)"
| "togo (IsShutRead s) = (case s of Entry \<Rightarrow> 14 | Recheck \<Rightarrow> 9 | Failure e \<Rightarrow> 4)"
| "togo (IsShutUnlock s b) = (case s of Entry \<Rightarrow> 13 | Recheck \<Rightarrow> 8 | Failure e \<Rightarrow> 3)"
| "togo (IsShutDone s b) = (case s of Entry \<Rightarrow> 12 | Recheck \<Rightarrow> 7 | Failure e \<Rightarrow> 2)"
| "togo InEnsure = 11"
| "togo InProbe = 6"
| "togo CommitLock = 4"
| "togo CommitBody = 3"
| "togo (CommitUnlock r) = 2"
| "togo (StartReturn r) = 1"
| "togo ShutLock = 6"
| "togo ShutBody = 5"
| "togo (ShutUnlock a) = 4"
| "togo (ShutDecide a) = 3"
| "togo InClose = 2"
| "togo (ShutReturn r) = 1"
| "togo OpEntry = 4"
| "togo OpPassed = 3"
| "togo InOp = 2"
| "togo (OpReturn r) = 1"
| "togo (Returned r) = 0"

text \<open>A goroutine that waits for the client, and the steps in which a client answers.\<close>

fun awaits :: "pc \<Rightarrow> bool" where
  "awaits InEnsure = True"
| "awaits InProbe = True"
| "awaits InClose = True"
| "awaits InOp = True"
| "awaits _ = False"

fun is_answer :: "event \<Rightarrow> bool" where
  "is_answer (EnsureAnswer t e) = True"
| "is_answer (ProbeAnswer t e) = True"
| "is_answer (CloseAnswer t e) = True"
| "is_answer (OpAnswer t) = True"
| "is_answer _ = False"

lemma lstep_togo: "lstep closer w ev w' \<Longrightarrow> togo (l_pc w' (who ev)) < togo (l_pc w (who ev))"
proof (induction rule: lstep.induct)
  case (lock w t p)
  then show ?case by (auto elim!: locked_cases split: site.split)
next
  case (unlock w t p)
  then show ?case by (elim unlocked_cases) (auto split: site.split)
qed (auto split: site.split)

text \<open>Away from a lock, a goroutine that does not wait for the client has a step.\<close>

lemma lstep_free:
  assumes "l_pc w t \<noteq> Idle" "\<forall>r. l_pc w t \<noteq> Returned r" "\<not> awaits (l_pc w t)" "locked (l_pc w t) = None"
  shows "\<exists>ev w'. lstep closer w ev w' \<and> who ev = t \<and> \<not> is_answer ev"
proof -
  have go: ?thesis if "lstep closer w ev v" "who ev = t" "\<not> is_answer ev" for ev v
    using that by blast
  show ?thesis
  proof (cases "l_pc w t")
    case (IsShutRead s)
    from go [OF read_shut [OF this]] show ?thesis by simp
  next
    case (IsShutUnlock s b)
    then have "unlocked (l_pc w t) = Some (IsShutDone s b)" by simp
    from go [OF unlock [OF this]] show ?thesis by simp
  next
    case (IsShutDone s b)
    then show ?thesis
    proof (cases s; cases b; simp only:)
      assume "l_pc w t = IsShutDone Entry True"
      from go [OF entry_shut [OF this]] show ?thesis by simp
    next
      assume "l_pc w t = IsShutDone Entry False"
      from go [OF entry_ok [OF this]] show ?thesis by simp
    next
      assume "l_pc w t = IsShutDone Recheck True"
      from go [OF recheck_shut [OF this]] show ?thesis by simp
    next
      assume "l_pc w t = IsShutDone Recheck False"
      from go [OF recheck_ok [OF this]] show ?thesis by simp
    next
      fix e assume "l_pc w t = IsShutDone (Failure e) True"
      from go [OF failed_shut [OF this]] show ?thesis by simp
    next
      fix e assume "l_pc w t = IsShutDone (Failure e) False"
      from go [OF failed [OF this, of closer None]] show ?thesis by simp
    qed
  next
    case CommitBody
    from go [OF commit_shut [OF this]] go [OF commit_ok [OF this]] show ?thesis by (cases "shut w") simp_all
  next
    case (CommitUnlock r)
    then have "unlocked (l_pc w t) = Some (StartReturn r)" by simp
    from go [OF unlock [OF this]] show ?thesis by simp
  next
    case (StartReturn r)
    from go [OF start_return [OF this]] show ?thesis by simp
  next
    case ShutBody
    from go [OF shut_body [OF this]] show ?thesis by simp
  next
    case (ShutUnlock a)
    then have "unlocked (l_pc w t) = Some (ShutDecide a)" by simp
    from go [OF unlock [OF this]] show ?thesis by simp
  next
    case (ShutDecide a)
    show ?thesis
    proof (cases "a \<or> \<not> closer")
      case True
      from go [OF shut_none [OF ShutDecide this]] show ?thesis by simp
    next
      case False
      with ShutDecide have "l_pc w t = ShutDecide False" "closer" by auto
      from go [OF shut_close [OF this]] show ?thesis by simp
    qed
  next
    case (ShutReturn r)
    from go [OF shut_return [OF this]] show ?thesis by simp
  next
    case OpEntry
    from go [OF op_refused [OF this]] go [OF op_passed [OF this]] show ?thesis by (cases "started w") simp_all
  next
    case OpPassed
    from go [OF op_call [OF this]] show ?thesis by simp
  next
    case (OpReturn r)
    from go [OF op_return [OF this]] show ?thesis by simp
  qed (use assms in simp_all)
qed

text \<open>The goroutine that holds \<open>mu\<close> releases it within two steps, none of which waits for anything.\<close>

lemma lstep_release:
  assumes "mutex w" "l_mu w = Some h"
  shows "\<exists>evs w'. lrun closer w evs w' \<and> length evs \<le> 2 \<and> (\<forall>ev \<in> set evs. who ev = h \<and> \<not> is_answer ev) \<and>
    l_mu w' = None \<and> (\<forall>u. u \<noteq> h \<longrightarrow> l_pc w' u = l_pc w u)"
proof -
  have un: "\<exists>evs w'. lrun closer v evs w' \<and> length evs \<le> 1 \<and> (\<forall>ev \<in> set evs. who ev = h \<and> \<not> is_answer ev) \<and>
      l_mu w' = None \<and> (\<forall>u. u \<noteq> h \<longrightarrow> l_pc w' u = l_pc v u)" if "unlocked (l_pc v h) = Some p" for v p
    using lrun_cons [OF unlock [OF that] lrun_nil]
    by (intro exI [of _ "[Silent h]"] exI [of _ "at (v\<lparr>l_mu := None\<rparr>) h p"]) simp
  have step: ?thesis if v: "lstep closer w ev v" "who ev = h" "\<not> is_answer ev" "unlocked (l_pc v h) = Some p" for ev v p
  proof -
    from un [OF v(4)] obtain evs w' where "lrun closer v evs w'" "length evs \<le> 1"
      "\<forall>ev \<in> set evs. who ev = h \<and> \<not> is_answer ev" "l_mu w' = None" "\<forall>u. u \<noteq> h \<longrightarrow> l_pc w' u = l_pc v u"
      by (elim exE conjE) (rule that)
    with lrun_cons [OF v(1)] v(2,3) lstep_others [OF v(1)] show ?thesis
      by (intro exI [of _ "ev # evs"] exI [of _ w']) simp
  qed
  from assms have "holds (l_pc w h)" by (simp add: mutex_def)
  then show ?thesis
  proof (cases "l_pc w h")
    case (IsShutRead s)
    with step [OF read_shut [OF IsShutRead]] show ?thesis by simp
  next
    case CommitBody
    then show ?thesis
      using step [OF commit_shut [OF CommitBody]] step [OF commit_ok [OF CommitBody]] by (cases "shut w") simp_all
  next
    case ShutBody
    with step [OF shut_body [OF ShutBody]] show ?thesis by simp
  next
    case (IsShutUnlock s b)
    with un [of w "IsShutDone s b"] show ?thesis by fastforce
  next
    case (CommitUnlock r)
    with un [of w "StartReturn r"] show ?thesis by fastforce
  next
    case (ShutUnlock a)
    with un [of w "ShutDecide a"] show ?thesis by fastforce
  qed simp_all
qed

lemma lrun_append: "lrun closer w evs w' \<Longrightarrow> lrun closer w' evs' w'' \<Longrightarrow> lrun closer w (evs @ evs') w''"
  by (induction rule: lrun.induct) (auto intro: lrun.lrun_cons)

lemma lrun_progress:
  assumes "mutex w" "l_pc w t \<noteq> Idle" "\<forall>r. l_pc w t \<noteq> Returned r" "\<not> awaits (l_pc w t)"
  shows "\<exists>evs w'. lrun closer w evs w' \<and> length evs \<le> 3 \<and>
    (\<forall>ev \<in> set evs. (who ev = t \<or> l_mu w = Some (who ev)) \<and> \<not> is_answer ev) \<and> togo (l_pc w' t) < togo (l_pc w t)"
proof (cases "locked (l_pc w t)")
  case None
  from lstep_free [OF assms(2-4) None] obtain ev w' where "lstep closer w ev w'" "who ev = t" "\<not> is_answer ev"
    by blast
  with lrun_cons [OF _ lrun_nil] lstep_togo show ?thesis
    by (intro exI [of _ "[ev]"] exI [of _ w']) fastforce
next
  case (Some p)
  have go: "\<exists>w'. lrun closer v [Silent t] w' \<and> togo (l_pc w' t) < togo (l_pc v t)"
    if "locked (l_pc v t) = Some p" "l_mu v = None" for v
    using lrun_cons [OF lock [OF that] lrun_nil] lstep_togo [OF lock [OF that]] by fastforce
  show ?thesis
  proof (cases "l_mu w")
    case None
    from go [OF \<open>locked (l_pc w t) = Some p\<close> None] obtain w' where
      "lrun closer w [Silent t] w'" "togo (l_pc w' t) < togo (l_pc w t)" by blast
    then show ?thesis by (intro exI [of _ "[Silent t]"] exI [of _ w']) simp
  next
    case (Some h)
    from \<open>locked (l_pc w t) = Some p\<close> have "\<not> holds (l_pc w t)" by (auto elim: locked_cases)
    with assms(1) Some have h: "t \<noteq> h" by (auto simp: mutex_def)
    from lstep_release [OF assms(1) Some, where closer = closer] obtain evs v where v: "lrun closer w evs v"
      "length evs \<le> 2" "\<forall>ev \<in> set evs. who ev = h \<and> \<not> is_answer ev" "l_mu v = None"
      and others: "\<forall>u. u \<noteq> h \<longrightarrow> l_pc v u = l_pc w u"
      by blast
    from others h have v5: "l_pc v t = l_pc w t" by simp
    from go [of v] v(4) v5 \<open>locked (l_pc w t) = Some p\<close> obtain w' where
      "lrun closer v [Silent t] w'" "togo (l_pc w' t) < togo (l_pc w t)" by auto
    with lrun_append [OF v(1)] v(2,3) Some show ?thesis
      by (intro exI [of _ "evs @ [Silent t]"] exI [of _ w']) auto
  qed
qed

section \<open>A goroutine that runs alone\<close>

text \<open>
  The events of a goroutine whose client is \<open>cl\<close>: what the client answers is what \<open>cl\<close> computes from
  its state, under the context \<open>x\<close> in Start, and the caller's context reports \<open>ctxErr\<close>.
\<close>

fun answered :: "('c, 'b, 'g) Client \<Rightarrow> ctx \<Rightarrow> err option \<Rightarrow> 'c \<Rightarrow> event \<Rightarrow> 'c option" where
  "answered cl x ctxErr c (EnsureAnswer t e) =
     (let (e', c') = cl_EnsureContainer cl c x in if e = e' then Some c' else None)"
| "answered cl x ctxErr c (ProbeAnswer t e) =
     (let (e', c') = cl_Probe cl c x in if e = e' then Some c' else None)"
| "answered cl x ctxErr c (CloseAnswer t e) =
     (case cl_Close cl of
        Some close \<Rightarrow> (let (e', c') = close c in if e = e' then Some c' else None)
      | None \<Rightarrow> None)"
| "answered cl x ctxErr c (CtxErr t e) = (if e = ctxErr then Some c else None)"
| "answered cl x ctxErr c _ = Some c"

text \<open>\<open>solo cl x ctxErr t w c w' c'\<close>: only \<open>t\<close> steps, until it returns, and the client goes from \<open>c\<close> to \<open>c'\<close>.\<close>

inductive solo :: "('c, 'b, 'g) Client \<Rightarrow> ctx \<Rightarrow> err option \<Rightarrow> nat \<Rightarrow> life \<Rightarrow> 'c \<Rightarrow> life \<Rightarrow> 'c \<Rightarrow> bool"
  for cl x ctxErr t where
  solo_done: "l_pc w t = Returned r \<Longrightarrow> solo cl x ctxErr t w c w c"
| solo_step: "lstep (cl_Close cl \<noteq> None) w ev w1 \<Longrightarrow> who ev = t \<Longrightarrow> answered cl x ctxErr c ev = Some c1 \<Longrightarrow>
    solo cl x ctxErr t w1 c1 w' c' \<Longrightarrow> solo cl x ctxErr t w c w' c'"

text \<open>What the next step of a goroutine in Start or Shutdown can be.\<close>

definition next_at :: "bool \<Rightarrow> life \<Rightarrow> nat \<Rightarrow> event \<Rightarrow> life \<Rightarrow> bool" where
  "next_at closer w t ev v = (case l_pc w t of
      IsShutLock s \<Rightarrow> ev = Silent t \<and> v = at (w\<lparr>l_mu := Some t\<rparr>) t (IsShutRead s)
    | IsShutRead s \<Rightarrow> ev = Silent t \<and> v = at w t (IsShutUnlock s (shut w))
    | IsShutUnlock s b \<Rightarrow> ev = Silent t \<and> v = at (w\<lparr>l_mu := None\<rparr>) t (IsShutDone s b)
    | IsShutDone s b \<Rightarrow>
        if b then ev = Silent t \<and> v = at w t (StartReturn (Some ErrNotReady))
        else (case s of
            Entry \<Rightarrow> ev = EnsureCall t \<and> v = at w t InEnsure
          | Recheck \<Rightarrow> ev = ProbeCall t \<and> v = at w t InProbe
          | Failure e \<Rightarrow> \<exists>ce. ev = CtxErr t ce \<and> v = at w t (StartReturn (Some (startFailure False ce e))))
    | InEnsure \<Rightarrow> \<exists>a. ev = EnsureAnswer t a \<and>
        v = at w t (case a of None \<Rightarrow> IsShutLock Recheck | Some e \<Rightarrow> IsShutLock (Failure e))
    | InProbe \<Rightarrow> \<exists>a. ev = ProbeAnswer t a \<and>
        v = at w t (case a of None \<Rightarrow> CommitLock | Some e \<Rightarrow> IsShutLock (Failure e))
    | CommitLock \<Rightarrow> ev = Silent t \<and> v = at (w\<lparr>l_mu := Some t\<rparr>) t CommitBody
    | CommitBody \<Rightarrow>
        if shut w then ev = Silent t \<and> v = at w t (CommitUnlock (Some ErrNotReady))
        else ev = Committed t \<and> v = at (startStore w) t (CommitUnlock None)
    | CommitUnlock r \<Rightarrow> ev = Silent t \<and> v = at (w\<lparr>l_mu := None\<rparr>) t (StartReturn r)
    | StartReturn r \<Rightarrow> ev = StartRet t r \<and> v = at w t (Returned r)
    | ShutLock \<Rightarrow> ev = Silent t \<and> v = at (w\<lparr>l_mu := Some t\<rparr>) t ShutBody
    | ShutBody \<Rightarrow> ev = Silent t \<and> v = at (shutStore w) t (ShutUnlock (shut w))
    | ShutUnlock a \<Rightarrow> ev = Silent t \<and> v = at (w\<lparr>l_mu := None\<rparr>) t (ShutDecide a)
    | ShutDecide a \<Rightarrow>
        if a \<or> \<not> closer then ev = Silent t \<and> v = at w t (ShutReturn None)
        else ev = CloseCall t \<and> v = at (w\<lparr>l_closes := Suc (l_closes w)\<rparr>) t InClose
    | InClose \<Rightarrow> \<exists>a. ev = CloseAnswer t a \<and> v = at w t (ShutReturn a)
    | ShutReturn r \<Rightarrow> ev = ShutdownRet t r \<and> v = at w t (Returned r)
    | Returned r \<Rightarrow> False
    | _ \<Rightarrow> True)"

lemma lstep_next: "lstep closer w ev v \<Longrightarrow> next_at closer w (who ev) ev v"
proof (induction rule: lstep.induct)
  case (lock w t p)
  then show ?case by (elim locked_cases) (simp_all add: next_at_def)
next
  case (unlock w t p)
  then show ?case by (elim unlocked_cases) (simp_all add: next_at_def)
qed (simp_all add: next_at_def)

text \<open>The program points of Start and Shutdown.\<close>

fun decided :: "pc \<Rightarrow> bool" where
  "decided Idle = False"
| "decided OpEntry = False"
| "decided OpPassed = False"
| "decided InOp = False"
| "decided (OpReturn r) = False"
| "decided _ = True"

lemma next_at_det:
  assumes "next_at closer w t ev v" "next_at closer w t ev' v'" "decided (l_pc w t)"
    "answered cl x ctxErr c ev = Some c1" "answered cl x ctxErr c ev' = Some c2"
  shows "ev = ev' \<and> v = v' \<and> c1 = c2"
proof (cases "l_pc w t")
  case (IsShutDone s b)
  with assms show ?thesis by (cases b; cases s) (auto simp: next_at_def split: if_splits)
next
  case InClose
  with assms show ?thesis by (auto simp: next_at_def split: prod.splits if_splits option.splits)
next
  case InEnsure
  with assms show ?thesis by (auto simp: next_at_def split: prod.splits if_splits)
next
  case InProbe
  with assms show ?thesis by (auto simp: next_at_def split: prod.splits if_splits)
qed (use assms in \<open>auto simp: next_at_def split: if_splits\<close>)

lemma lstep_decided: "lstep closer w ev v \<Longrightarrow> \<forall>r. l_pc w (who ev) \<noteq> Returned r"
  using lstep_next [of closer w ev v] by (auto simp: next_at_def)

text \<open>So one step of a goroutine that runs alone fixes the next state of its run.\<close>

lemma solo_next:
  assumes "lstep (cl_Close cl \<noteq> None) w ev v" "who ev = t" "answered cl x ctxErr c ev = Some c1" "decided (l_pc w t)"
  shows "solo cl x ctxErr t w c w' c' \<longleftrightarrow> solo cl x ctxErr t v c1 w' c'"
proof
  assume "solo cl x ctxErr t w c w' c'"
  then show "solo cl x ctxErr t v c1 w' c'"
  proof (cases rule: solo.cases)
    case (solo_done r)
    with lstep_decided [OF assms(1)] assms(2) show ?thesis by simp
  next
    case (solo_step ev' w1 c2)
    from next_at_det [OF lstep_next [OF assms(1), unfolded assms(2)]
        lstep_next [OF solo_step(1), unfolded solo_step(2)] assms(4,3) solo_step(3)]
    have "v = w1" "c1 = c2" by simp_all
    with solo_step(4) show ?thesis by simp
  qed
qed (rule solo_step [OF assms(1-3)])

text \<open>\<open>isShut\<close>, and the end of a run.\<close>

lemma mu_released: "l_mu w = None \<Longrightarrow> w\<lparr>l_mu := None, l_pc := f\<rparr> = w\<lparr>l_pc := f\<rparr>"
  by (cases w) simp

lemma solo_isShut:
  assumes "l_pc w t = IsShutLock s" "l_mu w = None"
  shows "solo cl x ctxErr t w c w' c' \<longleftrightarrow> solo cl x ctxErr t (at w t (IsShutDone s (shut w))) c w' c'"
    (is "?solo w c w' c' \<longleftrightarrow> _")
proof -
  let ?v = "at (w\<lparr>l_mu := Some t\<rparr>) t (IsShutRead s)" and ?u = "at (w\<lparr>l_mu := Some t\<rparr>) t (IsShutUnlock s (shut w))"
  have "?solo w c w' c' \<longleftrightarrow> ?solo ?v c w' c'"
    using assms by (intro solo_next [OF lock]) simp_all
  also have "?solo ?v c w' c' \<longleftrightarrow> ?solo (at ?v t (IsShutUnlock s (shut ?v))) c w' c'"
    by (intro solo_next [OF read_shut]) simp_all
  also have "at ?v t (IsShutUnlock s (shut ?v)) = ?u" by simp
  also have "?solo ?u c w' c' \<longleftrightarrow> ?solo (at (?u\<lparr>l_mu := None\<rparr>) t (IsShutDone s (shut w))) c w' c'"
    by (intro solo_next [OF unlock]) simp_all
  also have "at (?u\<lparr>l_mu := None\<rparr>) t (IsShutDone s (shut w)) = at w t (IsShutDone s (shut w))"
    using assms(2) by (simp add: mu_released)
  finally show ?thesis .
qed

lemma solo_returned:
  assumes "l_pc w t = Returned r"
  shows "solo cl x ctxErr t w c w' c' \<longleftrightarrow> w' = w \<and> c' = c"
proof
  assume "solo cl x ctxErr t w c w' c'"
  then show "w' = w \<and> c' = c"
  proof (cases rule: solo.cases)
    case (solo_step ev w1 c1)
    from lstep_decided [OF solo_step(1)] assms solo_step(2) show ?thesis by simp
  qed simp
qed (auto intro: solo_done [OF assms])

lemma solo_StartReturn:
  assumes "l_pc w t = StartReturn r"
  shows "solo cl x ctxErr t w c w' c' \<longleftrightarrow> w' = at w t (Returned r) \<and> c' = c"
proof -
  have "solo cl x ctxErr t w c w' c' \<longleftrightarrow> solo cl x ctxErr t (at w t (Returned r)) c w' c'"
    using assms by (intro solo_next [OF start_return]) simp_all
  then show ?thesis using solo_returned [of "at w t (Returned r)" t r] by simp
qed

lemma solo_ShutReturn:
  assumes "l_pc w t = ShutReturn r"
  shows "solo cl x ctxErr t w c w' c' \<longleftrightarrow> w' = at w t (Returned r) \<and> c' = c"
proof -
  have "solo cl x ctxErr t w c w' c' \<longleftrightarrow> solo cl x ctxErr t (at w t (Returned r)) c w' c'"
    using assms by (intro solo_next [OF shut_return]) simp_all
  then show ?thesis using solo_returned [of "at w t (Returned r)" t r] by simp
qed

lemma solo_Failure:
  assumes "l_pc w t = IsShutLock (Failure e)" "l_mu w = None"
  shows "solo cl x ctxErr t w c w' c' \<longleftrightarrow> w' = at w t (Returned (Some (startFailure (shut w) ctxErr e))) \<and> c' = c"
    (is "?solo w c w' c' \<longleftrightarrow> _")
proof -
  let ?v = "at w t (IsShutDone (Failure e) (shut w))" and ?r = "Some (startFailure (shut w) ctxErr e)"
  have "?solo w c w' c' \<longleftrightarrow> ?solo ?v c w' c'" by (rule solo_isShut [OF assms])
  also have "?solo ?v c w' c' \<longleftrightarrow> ?solo (at ?v t (StartReturn ?r)) c w' c'"
  proof (cases "shut w")
    case True
    then have "l_pc ?v t = IsShutDone (Failure e) True" by simp
    from solo_next [OF failed_shut [OF this, of "cl_Close cl \<noteq> None" ctxErr]] True show ?thesis by simp
  next
    case False
    then have "l_pc ?v t = IsShutDone (Failure e) False" by simp
    from solo_next [OF failed [OF this, of "cl_Close cl \<noteq> None" ctxErr]] False show ?thesis by simp
  qed
  finally show ?thesis by (simp add: solo_StartReturn)
qed

text \<open>The critical section that ends Start, and the probe before it.\<close>

lemma solo_Commit:
  assumes "l_pc w t = CommitLock" "l_mu w = None" "\<not> shut w"
  shows "solo cl x ctxErr t w c w' c' \<longleftrightarrow> w' = at (startStore w) t (Returned None) \<and> c' = c"
    (is "?solo w c w' c' \<longleftrightarrow> _")
proof -
  let ?v = "at (w\<lparr>l_mu := Some t\<rparr>) t CommitBody"
  let ?u = "at (startStore ?v) t (CommitUnlock None)"
  have "?solo w c w' c' \<longleftrightarrow> ?solo ?v c w' c'"
    using assms by (intro solo_next [OF lock]) simp_all
  also have "?solo ?v c w' c' \<longleftrightarrow> ?solo ?u c w' c'"
    using assms by (intro solo_next [OF commit_ok]) simp_all
  also have "?solo ?u c w' c' \<longleftrightarrow> ?solo (at (?u\<lparr>l_mu := None\<rparr>) t (StartReturn None)) c w' c'"
    by (intro solo_next [OF unlock]) simp_all
  also have "at (?u\<lparr>l_mu := None\<rparr>) t (StartReturn None) = at (startStore w) t (StartReturn None)"
    using assms(2) by (cases w) (simp add: startStore_def)
  finally show ?thesis by (simp add: solo_StartReturn)
qed

lemma solo_Probe:
  assumes "l_pc w t = InProbe" "l_mu w = None" "\<not> shut w" "cl_Probe cl c x = (e, c1)"
  shows "solo cl x ctxErr t w c w' c' \<longleftrightarrow>
    (case e of
       None \<Rightarrow> w' = at (startStore w) t (Returned None)
     | Some y \<Rightarrow> w' = at w t (Returned (Some (startFailure False ctxErr y)))) \<and> c' = c1"
    (is "?solo w c w' c' \<longleftrightarrow> _")
proof (cases e)
  case None
  have "?solo w c w' c' \<longleftrightarrow> ?solo (at w t CommitLock) c1 w' c'"
    using assms None by (intro solo_next [OF probe_ok]) simp_all
  with assms None show ?thesis by (simp add: solo_Commit startStore_def)
next
  case (Some y)
  have "?solo w c w' c' \<longleftrightarrow> ?solo (at w t (IsShutLock (Failure y))) c1 w' c'"
    using assms Some by (intro solo_next [OF probe_err]) simp_all
  with assms Some show ?thesis by (simp add: solo_Failure)
qed

lemma solo_Ensure:
  assumes "l_pc w t = InEnsure" "l_mu w = None" "\<not> shut w"
    "cl_EnsureContainer cl c x = (e1, c1)" "cl_Probe cl c1 x = (e2, c2)"
  shows "solo cl x ctxErr t w c w' c' \<longleftrightarrow>
    (case (e1, e2) of
       (Some y, _) \<Rightarrow> w' = at w t (Returned (Some (startFailure False ctxErr y))) \<and> c' = c1
     | (None, Some y) \<Rightarrow> w' = at w t (Returned (Some (startFailure False ctxErr y))) \<and> c' = c2
     | (None, None) \<Rightarrow> w' = at (startStore w) t (Returned None) \<and> c' = c2)"
    (is "?solo w c w' c' \<longleftrightarrow> _")
proof (cases e1)
  case None
  let ?v = "at w t (IsShutDone Recheck (shut w))"
  have "?solo w c w' c' \<longleftrightarrow> ?solo (at w t (IsShutLock Recheck)) c1 w' c'"
    using assms None by (intro solo_next [OF ensure_ok]) simp_all
  also have "\<dots> \<longleftrightarrow> ?solo ?v c1 w' c'"
    using solo_isShut [of "at w t (IsShutLock Recheck)" t Recheck] assms(2) by simp
  also have "\<dots> \<longleftrightarrow> ?solo (at ?v t InProbe) c1 w' c'"
    using assms(3) by (intro solo_next [OF recheck_ok]) simp_all
  finally show ?thesis
    using solo_Probe [of "at w t InProbe" t cl c1 x e2 c2] assms None by (cases e2) (simp_all add: startStore_def)
next
  case (Some y)
  have "?solo w c w' c' \<longleftrightarrow> ?solo (at w t (IsShutLock (Failure y))) c1 w' c'"
    using assms Some by (intro solo_next [OF ensure_err]) simp_all
  with assms Some show ?thesis by (simp add: solo_Failure)
qed

lemma solo_Shut:
  assumes "l_pc w t = ShutLock" "l_mu w = None"
  shows "solo cl x ctxErr t w c w' c' \<longleftrightarrow> solo cl x ctxErr t (at (shutStore w) t (ShutDecide (shut w))) c w' c'"
    (is "?solo w c w' c' \<longleftrightarrow> _")
proof -
  let ?v = "at (w\<lparr>l_mu := Some t\<rparr>) t ShutBody"
  let ?u = "at (shutStore ?v) t (ShutUnlock (shut w))"
  have "?solo w c w' c' \<longleftrightarrow> ?solo ?v c w' c'"
    using assms by (intro solo_next [OF lock]) simp_all
  also have "?solo ?v c w' c' \<longleftrightarrow> ?solo (at (shutStore ?v) t (ShutUnlock (shut ?v))) c w' c'"
    by (intro solo_next [OF shut_body]) simp_all
  also have "at (shutStore ?v) t (ShutUnlock (shut ?v)) = ?u" by simp
  also have "?solo ?u c w' c' \<longleftrightarrow> ?solo (at (?u\<lparr>l_mu := None\<rparr>) t (ShutDecide (shut w))) c w' c'"
    by (intro solo_next [OF unlock]) simp_all
  also have "at (?u\<lparr>l_mu := None\<rparr>) t (ShutDecide (shut w)) = at (shutStore w) t (ShutDecide (shut w))"
    using assms(2) by (cases w) (simp add: shutStore_def)
  finally show ?thesis .
qed

lemma solo_ShutNone:
  assumes "l_pc w t = ShutDecide a" "a \<or> cl_Close cl = None"
  shows "solo cl x ctxErr t w c w' c' \<longleftrightarrow> w' = at w t (Returned None) \<and> c' = c"
    (is "?solo w c w' c' \<longleftrightarrow> _")
proof -
  have "?solo w c w' c' \<longleftrightarrow> ?solo (at w t (ShutReturn None)) c w' c'"
    using assms by (intro solo_next [OF shut_none]) auto
  then show ?thesis by (simp add: solo_ShutReturn)
qed

lemma solo_ShutClose:
  assumes "l_pc w t = ShutDecide False" "cl_Close cl = Some close" "close c = (e, c1)"
  shows "solo cl x ctxErr t w c w' c' \<longleftrightarrow> w' = at (w\<lparr>l_closes := Suc (l_closes w)\<rparr>) t (Returned e) \<and> c' = c1"
    (is "?solo w c w' c' \<longleftrightarrow> _")
proof -
  let ?v = "at (w\<lparr>l_closes := Suc (l_closes w)\<rparr>) t InClose"
  have "?solo w c w' c' \<longleftrightarrow> ?solo ?v c w' c'"
    using assms by (intro solo_next [OF shut_close]) simp_all
  also have "\<dots> \<longleftrightarrow> ?solo (at ?v t (ShutReturn e)) c1 w' c'"
    using assms by (intro solo_next [OF close_done]) simp_all
  finally show ?thesis by (simp add: solo_ShutReturn)
qed

text \<open>
  A run in which Shutdown overtakes Start: Start (goroutine 0) has found the store not shut, Shutdown
  (goroutine 1) shuts it, and only then does Start make the call that its first check allowed. It finds
  the store shut at its second check.
\<close>

definition overtaken_before :: "event list" where
  "overtaken_before = [Silent 0, Silent 0, Silent 0, Silent 0, Silent 1, Silent 1, Silent 1]"

definition overtaken_after :: "event list" where
  "overtaken_after = [Silent 1, EnsureCall 0, EnsureAnswer 0 None, Silent 0, Silent 0, Silent 0, Silent 0,
     StartRet 0 (Some ErrNotReady)]"

text \<open>A state with goroutines 0 and 1 only.\<close>

definition two :: "Store \<Rightarrow> nat option \<Rightarrow> nat \<Rightarrow> pc \<Rightarrow> pc \<Rightarrow> life" where
  "two s m n p q = \<lparr>l_store = s, l_mu = m, l_closes = n, l_pc = (\<lambda>_. Idle)(0 := p, 1 := q)\<rparr>"

lemma two_simps [simp]:
  "l_store (two s m n p q) = s" "l_mu (two s m n p q) = m" "l_closes (two s m n p q) = n"
  "l_pc (two s m n p q) 0 = p" "l_pc (two s m n p q) 1 = q" "l_pc (two s m n p q) (Suc 0) = q"
  by (simp_all add: two_def)

lemma two_mu [simp]: "(two s m n p q)\<lparr>l_mu := m'\<rparr> = two s m' n p q"
  by (simp add: two_def)

lemma two_at [simp]:
  "(two s m n p q)\<lparr>l_pc := (l_pc (two s' m' n' p q))(0 := p')\<rparr> = two s m n p' q"
  "(two s m n p q)\<lparr>l_pc := (l_pc (two s' m' n' p q))(1 := q')\<rparr> = two s m n p q'"
  "(two s m n p q)\<lparr>l_pc := (l_pc (two s' m' n' p q))(Suc 0 := q')\<rparr> = two s m n p q'"
  by (simp_all add: two_def fun_upd_twist)

lemma two_shutStore [simp]:
  "shutStore (two s m n p q) = two (s\<lparr>st_shut := True, st_started := False\<rparr>) m n p q"
  by (simp add: two_def shutStore_def)

lemma two_fresh: "fresh s = two (s\<lparr>st_started := False, st_shut := False\<rparr>) None 0 Idle Idle"
  by (simp add: two_def fresh_def fun_eq_iff)

lemma lrun_to: "lstep closer w ev v \<Longrightarrow> v = w' \<Longrightarrow> lrun closer w' evs w'' \<Longrightarrow> lrun closer w (ev # evs) w''"
  by (auto intro: lrun_cons)

definition overtaken :: life where
  "overtaken = two (life_store\<lparr>st_shut := True\<rparr>) (Some 1) 0 (IsShutDone Entry False) (ShutUnlock False)"

lemma overtaken_reached: "lrun True (fresh life_store) overtaken_before overtaken"
proof -
  let ?s = "life_store"
  have s: "\<not> st_shut ?s" "?s\<lparr>st_started := False, st_shut := False\<rparr> = ?s"
    "?s\<lparr>st_shut := True, st_started := False\<rparr> = ?s\<lparr>st_shut := True\<rparr>"
    by (simp_all add: life_store_def)
  show ?thesis unfolding two_fresh s(2) overtaken_before_def overtaken_def
    apply (rule lrun_to [OF call_start [where t = 0]], simp, simp)
    apply (rule lrun_to [OF lock [where t = 0]], simp, simp, simp)
    apply (rule lrun_to [OF read_shut [where t = 0]], simp, simp)
    apply (rule lrun_to [OF unlock [where t = 0]], simp, simp)
    apply (rule lrun_to [OF call_shutdown [where t = 1]], simp, simp)
    apply (rule lrun_to [OF lock [where t = 1]], simp, simp, simp)
    apply (rule lrun_to [OF shut_body [where t = 1]], simp, simp add: s)
    apply (simp add: s)
    done
qed

lemma overtaken_goes_on:
  "lrun True overtaken overtaken_after
     (two (life_store\<lparr>st_shut := True\<rparr>) None 0 (Returned (Some ErrNotReady)) (ShutDecide False))"
  unfolding overtaken_after_def overtaken_def
  apply (rule lrun_to [OF unlock [where t = 1]], simp, simp)
  apply (rule lrun_to [OF entry_ok [where t = 0]], simp, simp)
  apply (rule lrun_to [OF ensure_ok [where t = 0]], simp, simp)
  apply (rule lrun_to [OF lock [where t = 0]], simp, simp, simp)
  apply (rule lrun_to [OF read_shut [where t = 0]], simp, simp)
  apply (rule lrun_to [OF unlock [where t = 0]], simp, simp)
  apply (rule lrun_to [OF recheck_shut [where t = 0]], simp, simp)
  apply (rule lrun_to [OF start_return [where t = 0]], simp, simp)
  apply simp
  done

section \<open>Properties\<close>

text \<open>
  C26: Start, step by step, is the function \<open>Start\<close>. For a client that answers what \<open>cl\<close> computes and a
  caller's context that reports \<open>ctxErr\<close>, a goroutine that calls Start and runs alone goes from the
  client state \<open>c\<close> to \<open>c'\<close> and from \<open>w\<close> to \<open>w'\<close> exactly when \<open>Start\<close> computes that: the same calls of
  EnsureContainer and Probe in the same order, the same result, \<open>started\<close> set exactly when it is set
  there, and \<open>mu\<close> free again.
\<close>

theorem Start_is_run:
  assumes "l_pc w t = IsShutLock Entry" and "l_mu w = None"
  shows "solo cl (withTimeout now x (st_requestTimeout (l_store w))) ctxErr t w c w' c' \<longleftrightarrow>
    (\<exists>r s'. Start cl (l_store w) c now x ctxErr = (r, s', c') \<and> w' = at (w\<lparr>l_store := s'\<rparr>) t (Returned r))"
    (is "solo cl ?x ctxErr t w c w' c' \<longleftrightarrow> _")
proof (cases "shut w")
  case True
  let ?v = "at w t (IsShutDone Entry True)"
  have "solo cl ?x ctxErr t w c w' c' \<longleftrightarrow> solo cl ?x ctxErr t ?v c w' c'" using solo_isShut [OF assms] True by simp
  also have "\<dots> \<longleftrightarrow> solo cl ?x ctxErr t (at ?v t (StartReturn (Some ErrNotReady))) c w' c'"
    by (intro solo_next [OF entry_shut]) simp_all
  finally show ?thesis using True by (auto simp: solo_StartReturn Start_def)
next
  case False
  obtain e1 c1 where e1: "cl_EnsureContainer cl c (withTimeout now x (st_requestTimeout (l_store w))) = (e1, c1)"
    by fastforce
  obtain e2 c2 where e2: "cl_Probe cl c1 (withTimeout now x (st_requestTimeout (l_store w))) = (e2, c2)"
    by fastforce
  let ?v = "at w t (IsShutDone Entry False)"
  have "solo cl ?x ctxErr t w c w' c' \<longleftrightarrow> solo cl ?x ctxErr t ?v c w' c'" using solo_isShut [OF assms] False by simp
  also have "\<dots> \<longleftrightarrow> solo cl ?x ctxErr t (at ?v t InEnsure) c w' c'"
    by (intro solo_next [OF entry_ok]) simp_all
  finally show ?thesis
    using solo_Ensure [of "at w t InEnsure" t cl c _ e1 c1 e2 c2] assms(2) False e1 e2
    by (cases e1; cases e2) (auto simp: Start_def startStore_def)
qed

theorem Start_is_run_witness:
  "solo (down_client :: (unit, unit, unit) Client) (withTimeout zeroTime background second) None 0
     (at (fresh life_store) 0 (IsShutLock Entry)) ()
     (at (fresh life_store) 0 (Returned (Some (dual ErrUnavailable EOF)))) ()"
proof -
  have s: "(fresh life_store)\<lparr>l_store := life_store\<rparr> = fresh life_store" "l_store (fresh life_store) = life_store"
    "st_requestTimeout life_store = second"
    by (simp_all add: fresh_def life_store_def)
  have "Start (down_client :: (unit, unit, unit) Client) life_store () zeroTime background None =
      (Some (dual ErrUnavailable EOF), life_store, ())"
    by (simp add: Start_def down_client_def startFailure_def life_store_def)
  with Start_is_run [where cl = "down_client :: (unit, unit, unit) Client" and c = "()" and now = zeroTime
      and x = background and ctxErr = None and t = 0 and w = "at (fresh life_store) 0 (IsShutLock Entry)"
      and w' = "at (fresh life_store) 0 (Returned (Some (dual ErrUnavailable EOF)))" and c' = "()"]
  show ?thesis by (simp add: s) (simp add: fresh_def)
qed

text \<open>
  C27: Shutdown, step by step, is the function \<open>Shutdown\<close>, and that is what it documents. A goroutine
  that calls Shutdown and runs alone leaves the store shut and not started and \<open>mu\<close> free. The first
  call closes a client that is an \<open>io.Closer\<close>, exactly once, and returns the error of that call; a later
  call, and a call with a client that is none, calls nothing and returns nil.
\<close>

theorem Shutdown_is_run:
  assumes "l_pc w t = ShutLock" and "l_mu w = None"
  shows "(solo cl x ctxErr t w c w' c' \<longleftrightarrow>
      (\<exists>r s'. Shutdown cl (l_store w) c = (r, s', c') \<and>
         w' = at (w\<lparr>l_store := s', l_closes := l_closes w + (if shut w \<or> cl_Close cl = None then 0 else 1)\<rparr>) t
                 (Returned r))) \<and>
    Shutdown cl (l_store w) c =
      (case cl_Close cl of
         Some close \<Rightarrow> if shut w then (None, l_store (shutStore w), c)
                       else (fst (close c), l_store (shutStore w), snd (close c))
       | None \<Rightarrow> (None, l_store (shutStore w), c))"
proof (intro conjI)
  let ?v = "at (shutStore w) t (ShutDecide (shut w))"
  note shut = solo_Shut [OF assms, of cl x ctxErr c w' c']
  show "solo cl x ctxErr t w c w' c' \<longleftrightarrow>
      (\<exists>r s'. Shutdown cl (l_store w) c = (r, s', c') \<and>
         w' = at (w\<lparr>l_store := s', l_closes := l_closes w + (if shut w \<or> cl_Close cl = None then 0 else 1)\<rparr>) t
                 (Returned r))"
  proof (cases "shut w \<or> cl_Close cl = None")
    case True
    then have "solo cl x ctxErr t ?v c w' c' \<longleftrightarrow> w' = at ?v t (Returned None) \<and> c' = c"
      by (intro solo_ShutNone) simp_all
    with shut True show ?thesis by (cases "shut w") (auto simp: Shutdown_def shutStore_def)
  next
    case False
    then obtain close where "cl_Close cl = Some close" by auto
    moreover obtain e c1 where "close c = (e, c1)" by fastforce
    ultimately have close: "cl_Close cl = Some close" "close c = (e, c1)" by simp_all
    with False have "solo cl x ctxErr t ?v c w' c' \<longleftrightarrow>
        w' = at (?v\<lparr>l_closes := Suc (l_closes ?v)\<rparr>) t (Returned e) \<and> c' = c1"
      by (intro solo_ShutClose [OF _ close(1,2)]) simp_all
    with shut False close show ?thesis by (auto simp: Shutdown_def shutStore_def)
  qed
qed (simp add: Shutdown_def shutStore_def Let_def split: option.split prod.split)

theorem Shutdown_is_run_witness:
  "\<exists>w'. solo (down_client :: (unit, unit, unit) Client) background None 0
     (at (fresh life_store) 0 ShutLock) () w' () \<and>
     shut w' \<and> l_closes w' = 1 \<and> l_pc w' 0 = Returned (Some Canceled)"
  using Shutdown_is_run [where cl = "down_client :: (unit, unit, unit) Client" and w = "at (fresh life_store) 0 ShutLock"
      and c = "()" and c' = "()" and t = 0 and x = background and ctxErr = None]
  by (simp add: fresh_def life_store_def Shutdown_def down_client_def)

text \<open>
  C5: once a Shutdown has shut the store, in any interleaving of any number of Start, Shutdown and
  operation calls, the store stays shut and is never ready again. A goroutine makes a further guarded
  call of the client (EnsureContainer, Probe or an operation) only if its own check had already let it
  pass when the store was shut, and then only that one call: a Start that makes it finds the store shut
  at its next check. A Start that returns afterwards returns \<open>ErrNotReady\<close>, unless when the store was
  shut it had already set \<open>started\<close>, or the check in \<open>startFailure\<close> had already found the store not
  shut, so that only its return was left; and so does an operation, unless it had already passed its
  check of \<open>started\<close>.
\<close>

theorem shutdown_terminal:
  assumes "lrun closer (fresh s) before w" and "shut w" and "lrun closer w after w'"
  shows "shut w' \<and> \<not> started w' \<and>
    (\<forall>t. length (filter (\<lambda>ev. gated ev \<and> who ev = t) after) \<le> (if cleared (l_pc w t) then 1 else 0)) \<and>
    (\<forall>t r. StartRet t r \<in> set after \<longrightarrow> r = Some ErrNotReady \<or> settled (l_pc w t)) \<and>
    (\<forall>t r. OpRet t r \<in> set after \<longrightarrow> r = Some ErrNotReady \<or> admitted (l_pc w t))"
proof -
  note inv = lrun_inv [OF assms(1) life_inv_fresh]
  from lrun_inv [OF assms(3) inv] lrun_shut_mono [OF assms(3,2)] have "shut w' \<and> \<not> started w'"
    by (simp add: life_inv_def)
  with lrun_shut [OF assms(3,2) inv] show ?thesis by blast
qed

theorem shutdown_terminal_witness:
  "length (filter (\<lambda>ev. gated ev \<and> who ev = 0) overtaken_after) = 1 \<and> cleared (l_pc overtaken 0) \<and>
   StartRet 0 (Some ErrNotReady) \<in> set overtaken_after \<and>
   length (filter (\<lambda>ev. gated ev \<and> who ev = 0) overtaken_after) \<le> (if cleared (l_pc overtaken 0) then 1 else 0)"
proof -
  have "shut overtaken" by (simp add: overtaken_def)
  from shutdown_terminal [OF overtaken_reached this overtaken_goes_on]
  have "length (filter (\<lambda>ev. gated ev \<and> who ev = 0) overtaken_after) \<le> (if cleared (l_pc overtaken 0) then 1 else 0)"
    by blast
  then show ?thesis by (simp add: overtaken_after_def gated_def overtaken_def)
qed

text \<open>
  C9: in every interleaving the client is closed at most once, never before a Shutdown; and when the
  client is an \<open>io.Closer\<close> and no Shutdown is still about to close it, a store that is shut has
  closed it exactly once.
\<close>

theorem closed_once:
  assumes "lrun closer (fresh s) evs w"
  shows "length (filter is_close evs) \<le> (if shut w then 1 else 0) \<and>
    (closer \<longrightarrow> shut w \<longrightarrow> \<not> closing (l_pc w) \<longrightarrow> length (filter is_close evs) = 1)"
  using lrun_inv [OF assms life_inv_fresh] lrun_closes [OF assms] lrun_close_due [OF assms]
  by (auto simp: life_inv_def fresh_def le_Suc_eq split: if_splits)

theorem closed_once_witness:
  "shut overtaken \<and> closing (l_pc overtaken) \<and> length (filter is_close overtaken_before) \<le> 1"
proof -
  have "closing (l_pc overtaken)" unfolding closing_def by (intro exI [of _ 1]) (simp add: overtaken_def)
  with closed_once [OF overtaken_reached] show ?thesis by (simp add: overtaken_def)
qed

text \<open>
  C8: in every interleaving the store is ready exactly when no Shutdown has run and some Start has
  returned nil, or is about to: it has set \<open>started\<close> and has only its unlock and its return left. In
  particular a Start that fails does not take readiness away.
\<close>

theorem ready_iff_started:
  assumes "lrun closer (fresh s) evs w"
  shows "started w \<longleftrightarrow> \<not> shut w \<and> (\<exists>t. StartRet t None \<in> set evs \<or> won (l_pc w t))"
proof -
  have "\<not> started (fresh s)" "\<And>t. \<not> won (l_pc (fresh s) t)" by (simp_all add: fresh_def)
  with lrun_started [OF assms life_inv_fresh] lrun_won [OF assms] show ?thesis by metis
qed

theorem ready_iff_started_witness:
  "\<not> started overtaken \<and> \<not> (\<not> shut overtaken \<and> (\<exists>t. StartRet t None \<in> set overtaken_before \<or> won (l_pc overtaken t)))"
  using ready_iff_started [OF overtaken_reached] by (simp add: overtaken_def life_store_def)

text \<open>
  C25: the lifecycle cannot deadlock. In every reachable state \<open>mu\<close> is free or held by a goroutine that
  neither waits for the client nor has returned; and a goroutine inside Start, Shutdown or an operation
  that does not wait for the client's answer gets closer to its return within three steps, its own or
  those of the goroutine that holds \<open>mu\<close>, whatever the client does meanwhile. Every step takes the
  goroutine that makes it closer to its return and leaves the others where they are.
\<close>

theorem lifecycle_progress:
  assumes "lrun closer (fresh s) before w"
  shows "(\<forall>t. l_mu w = Some t \<longrightarrow> \<not> awaits (l_pc w t) \<and> l_pc w t \<noteq> Idle \<and> (\<forall>r. l_pc w t \<noteq> Returned r)) \<and>
    (\<forall>t. l_pc w t \<noteq> Idle \<longrightarrow> (\<forall>r. l_pc w t \<noteq> Returned r) \<longrightarrow> \<not> awaits (l_pc w t) \<longrightarrow>
       (\<exists>evs w'. lrun closer w evs w' \<and> length evs \<le> 3 \<and>
          (\<forall>ev \<in> set evs. (who ev = t \<or> l_mu w = Some (who ev)) \<and> \<not> is_answer ev) \<and>
          togo (l_pc w' t) < togo (l_pc w t))) \<and>
    (\<forall>ev w'. lstep closer w ev w' \<longrightarrow>
       togo (l_pc w' (who ev)) < togo (l_pc w (who ev)) \<and> (\<forall>u. u \<noteq> who ev \<longrightarrow> l_pc w' u = l_pc w u))"
proof -
  note mutex = lrun_mutex [OF assms mutex_fresh]
  have holder: "\<not> awaits p \<and> p \<noteq> Idle \<and> (\<forall>r. p \<noteq> Returned r)" if "holds p" for p
    using that by (cases p) simp_all
  from mutex have 1: "\<forall>t. l_mu w = Some t \<longrightarrow> \<not> awaits (l_pc w t) \<and> l_pc w t \<noteq> Idle \<and> (\<forall>r. l_pc w t \<noteq> Returned r)"
    by (intro allI impI holder) (simp add: mutex_def)
  have 2: "\<forall>ev w'. lstep closer w ev w' \<longrightarrow>
      togo (l_pc w' (who ev)) < togo (l_pc w (who ev)) \<and> (\<forall>u. u \<noteq> who ev \<longrightarrow> l_pc w' u = l_pc w u)"
    by (intro allI impI conjI) (erule lstep_togo, erule lstep_others, assumption)
  have 3: "\<forall>t. l_pc w t \<noteq> Idle \<longrightarrow> (\<forall>r. l_pc w t \<noteq> Returned r) \<longrightarrow> \<not> awaits (l_pc w t) \<longrightarrow>
      (\<exists>evs w'. lrun closer w evs w' \<and> length evs \<le> 3 \<and>
         (\<forall>ev \<in> set evs. (who ev = t \<or> l_mu w = Some (who ev)) \<and> \<not> is_answer ev) \<and>
         togo (l_pc w' t) < togo (l_pc w t))"
    by (rule allI, rule impI, rule impI, rule impI, rule lrun_progress [OF mutex])
  from 1 3 2 show ?thesis by (intro conjI)
qed

theorem lifecycle_progress_witness:
  "l_mu overtaken = Some 1 \<and> \<not> awaits (l_pc overtaken 1) \<and>
   (\<exists>evs w'. lrun True overtaken evs w' \<and> length evs \<le> 3 \<and> togo (l_pc w' 0) < togo (l_pc overtaken 0))"
proof -
  have "l_mu overtaken = Some 1" "\<not> awaits (l_pc overtaken 1)"
    "l_pc overtaken 0 \<noteq> Idle" "\<And>r. l_pc overtaken 0 \<noteq> Returned r" "\<not> awaits (l_pc overtaken 0)"
    by (simp_all add: overtaken_def)
  moreover from lifecycle_progress [OF overtaken_reached, THEN conjunct2, THEN conjunct1, rule_format, OF this(3-5)]
  have "\<exists>evs w'. lrun True overtaken evs w' \<and> length evs \<le> 3 \<and> togo (l_pc w' 0) < togo (l_pc overtaken 0)"
    by blast
  ultimately show ?thesis by blast
qed

end
