(* ===== verification/S3_Keys.thy ===== *)
theory S3_Keys
  imports Go_Text
begin

text \<open>
  \<open>s3/keys.go\<close>: the rules for object keys and bucket names, with \<open>netip.ParseAddr\<close> as far as the
  bucket rule asks it. Each validator is equivalent to the rules it stands for, stated over the
  whole name: a key is the UTF-8 encoding of Unicode scalar values, and a bucket name shaped like an
  IP address is one printed from four octets.
\<close>

section \<open>Keys\<close>

definition s3_maxKeyLength :: int where "s3_maxKeyLength = 1024"

definition s3_validateKey :: "string \<Rightarrow> err option" where
  "s3_validateKey key =
     (if key = [] then Some (newError ''s3.validateKey'' ''s3: empty key'' [])
      else let n = int (length key) in
        if n > s3_maxKeyLength then
          Some (newError ''s3.validateKey'' ''s3: key is %d bytes, the limit is %d''
            [VInt n, VInt s3_maxKeyLength])
        else if \<not> validString key then
          Some (newError ''s3.validateKey'' ''s3: key is not valid UTF-8'' [])
        else None)"

section \<open>netip.ParseAddr\<close>

text \<open>
  The fields of an IPv4 address: \<open>val\<close> is the octet so far, \<open>digLen\<close> its digits, \<open>pos\<close> the octets
  before it, and \<open>prev\<close> the byte before, if any.
\<close>

fun ipv4Fields :: "nat \<Rightarrow> nat \<Rightarrow> nat \<Rightarrow> char option \<Rightarrow> string \<Rightarrow> bool" where
  "ipv4Fields val digLen pos prev [] = (3 \<le> pos)"
| "ipv4Fields val digLen pos prev (c # cs) =
     (if isDigit c then
        (if digLen = 1 \<and> val = 0 then False
         else let val' = val * 10 + digitVal c in
           if val' > 255 then False else ipv4Fields val' (digLen + 1) pos (Some c) cs)
      else if c = CHR ''.'' then
        (if prev = None \<or> cs = [] \<or> prev = Some (CHR ''.'') then False
         else if pos = 3 then False
         else ipv4Fields 0 0 (pos + 1) (Some c) cs)
      else False)"

text \<open>
  Whether \<open>netip.ParseAddr\<close> accepts the name as an address that \<open>Is4\<close>: the first of dot, colon and
  percent decides, and only the dot leads to an IPv4 address.
\<close>

definition parsesAsIPv4 :: "string \<Rightarrow> bool" where
  "parsesAsIPv4 s =
     (case dropWhile (\<lambda>c. c \<noteq> CHR ''.'' \<and> c \<noteq> CHR '':'' \<and> c \<noteq> CHR ''%'') s of
        [] \<Rightarrow> False
      | c # _ \<Rightarrow> c = CHR ''.'' \<and> ipv4Fields 0 0 0 None s)"

section \<open>Buckets\<close>

definition minBucketLength :: int where "minBucketLength = 3"
definition maxBucketLength :: int where "maxBucketLength = 63"

definition reservedBucketPrefixes :: "string list" where
  "reservedBucketPrefixes = [''xn--'', ''sthree-'', ''amzn-s3-demo-'']"

definition reservedBucketSuffixes :: "string list" where
  "reservedBucketSuffixes = [''-s3alias'', ''--ol-s3'', ''.mrap'', ''--x-s3'', ''--table-s3'']"

definition lowerAlnum :: "char \<Rightarrow> bool" where
  "lowerAlnum b \<longleftrightarrow> (CHR ''a'' \<le> b \<and> b \<le> CHR ''z'') \<or> (CHR ''0'' \<le> b \<and> b \<le> CHR ''9'')"

text \<open>The loop over the bytes of the name: \<open>i\<close> is the index of the first of the remaining ones.\<close>

fun bucketLoop :: "string \<Rightarrow> nat \<Rightarrow> string \<Rightarrow> err option" where
  "bucketLoop name i [] = None"
| "bucketLoop name i (b # bs) =
     (if lowerAlnum b then bucketLoop name (i + 1) bs
      else if b = CHR ''-'' \<or> b = CHR ''.'' then
        (if i = 0 \<or> i = length name - 1 then
           Some (newError ''s3.validateBucket''
             ''s3: bucket name %q must start and end with a letter or digit'' [VStr name])
         else bucketLoop name (i + 1) bs)
      else Some (newError ''s3.validateBucket''
        ''s3: bucket name %q has %q; want lowercase letters, digits, dots, and hyphens''
        [VStr name, VByte b]))"

definition validateBucket :: "string \<Rightarrow> err option" where
  "validateBucket name =
     (let n = int (length name) in
      if n < minBucketLength \<or> n > maxBucketLength then
        Some (newError ''s3.validateBucket'' ''s3: bucket name %q is %d characters, want %d to %d''
          [VStr name, VInt n, VInt minBucketLength, VInt maxBucketLength])
      else case bucketLoop name 0 name of
        Some e \<Rightarrow> Some e
      | None \<Rightarrow>
        if containsStr name ''..'' then
          Some (newError ''s3.validateBucket'' ''s3: bucket name %q has two dots together'' [VStr name])
        else if parsesAsIPv4 name then
          Some (newError ''s3.validateBucket'' ''s3: bucket name %q is shaped like an IP address''
            [VStr name])
        else case first_some (\<lambda>p. if hasPrefix name p then Some p else None) reservedBucketPrefixes of
          Some p \<Rightarrow> Some (newError ''s3.validateBucket''
            ''s3: bucket name %q has the reserved prefix %q'' [VStr name, VStr p])
        | None \<Rightarrow>
          (case first_some (\<lambda>s. if hasSuffix name s then Some s else None) reservedBucketSuffixes of
             Some s \<Rightarrow> Some (newError ''s3.validateBucket''
               ''s3: bucket name %q has the reserved suffix %q'' [VStr name, VStr s])
           | None \<Rightarrow> None))"

section \<open>What the loop accepts\<close>

definition bucketChar :: "char \<Rightarrow> bool" where
  "bucketChar b \<longleftrightarrow> lowerAlnum b \<or> b = CHR ''-'' \<or> b = CHR ''.''"

lemma bucketLoop_None:
  "name = pre @ bs \<Longrightarrow> bucketLoop name (length pre) bs = None \<longleftrightarrow>
     (\<forall>b \<in> set bs. bucketChar b) \<and> (pre = [] \<longrightarrow> bs \<noteq> [] \<longrightarrow> lowerAlnum (hd bs)) \<and>
     (bs \<noteq> [] \<longrightarrow> lowerAlnum (last bs))"
proof (induction bs arbitrary: pre)
  case Nil
  then show ?case by simp
next
  case (Cons b bs)
  from Cons.IH [of "pre @ [b]"] Cons.prems have IH: "bucketLoop name (length pre + 1) bs = None \<longleftrightarrow>
     (\<forall>b \<in> set bs. bucketChar b) \<and> (bs \<noteq> [] \<longrightarrow> lowerAlnum (last bs))" by simp
  have end_iff: "length pre = length name - 1 \<longleftrightarrow> bs = []" using Cons.prems by auto
  show ?case
    using IH end_iff by (cases "lowerAlnum b") (auto simp: bucketChar_def)
qed

section \<open>What an IPv4 address is\<close>

definition isOctet :: "string \<Rightarrow> bool" where
  "isOctet s \<longleftrightarrow> (\<exists>n \<le> 255. s = showNat n)"

text \<open>Four octets in decimal without leading zeros, with dots between them.\<close>

definition dottedQuad :: "string \<Rightarrow> bool" where
  "dottedQuad s \<longleftrightarrow> length (splitOn (CHR ''.'') s) = 4 \<and> list_all isOctet (splitOn (CHR ''.'') s)"

definition dec :: "string \<Rightarrow> nat \<Rightarrow> nat" where
  "dec s n = fold (\<lambda>c n. n * 10 + digitVal c) s n"

lemma dec_simps [simp]: "dec [] n = n" "dec (c # s) n = dec s (n * 10 + digitVal c)"
  "dec (s @ t) n = dec t (dec s n)"
  by (simp_all add: dec_def)

lemma dec_showNat: "dec (showNat n) 0 = n"
proof (induction n rule: showNat.induct)
  case (1 n)
  show ?case
  proof (cases "n < 10")
    case True
    then show ?thesis by (subst showNat.simps) simp
  next
    case False
    with 1 show ?thesis by (subst showNat.simps) simp
  qed
qed

lemma dec_mono: "n \<le> dec s n"
proof (induction s arbitrary: n)
  case (Cons c s)
  have "n \<le> n * 10 + digitVal c" by simp
  also have "\<dots> \<le> dec s (n * 10 + digitVal c)" by (rule Cons)
  finally show ?case by simp
qed simp

lemma digit_char: "isDigit c \<Longrightarrow> char_of (48 + digitVal c) = c" "isDigit c \<Longrightarrow> digitVal c < 10"
  by (auto simp: isDigit_def digitVal_def)

lemma showNat_snoc:
  assumes "0 < n" "isDigit c"
  shows "showNat n @ [c] = showNat (n * 10 + digitVal c)"
  using assms digit_char [OF assms(2)] by (subst (2) showNat.simps) simp

lemma showNat_digits: "c \<in> set (showNat n) \<Longrightarrow> isDigit c"
proof (induction n rule: showNat.induct)
  case (1 n)
  then show ?case by (subst (asm) showNat.simps) (auto split: if_splits)
qed

lemma hd_showNat_zero: "hd (showNat n) = CHR ''0'' \<Longrightarrow> n = 0"
proof (induction n rule: showNat.induct)
  case (1 n)
  show ?case
  proof (cases "n < 10")
    case True
    with 1(2) have "char_of (48 + n) = (CHR ''0'' :: char)" by (subst (asm) showNat.simps) simp
    then have "digitVal (char_of (48 + n)) = digitVal (CHR ''0'')" by (rule arg_cong)
    with True show ?thesis by (simp add: digitVal_def [of "CHR ''0''"])
  next
    case False
    with 1(2) have "hd (showNat (n div 10)) = CHR ''0''" by (subst (asm) showNat.simps) (simp add: hd_append)
    with False 1(1) show ?thesis by simp
  qed
qed

lemma showNat_0: "showNat 0 = ''0''"
  by code_simp

lemma isOctet_digits: "isOctet s \<Longrightarrow> s \<noteq> [] \<and> (\<forall>c \<in> set s. isDigit c) \<and> dec s 0 \<le> 255"
  by (auto simp: isOctet_def showNat_digits dec_showNat)

lemma isOctet_showNat [simp]: "isOctet (showNat n) \<longleftrightarrow> n \<le> 255"
  unfolding isOctet_def by (metis dec_showNat)

lemma not_isOctet_zero: "\<not> isOctet (''0'' @ c # s)"
proof
  assume "isOctet (''0'' @ c # s)"
  then obtain n where "showNat n = ''0'' @ c # s" unfolding isOctet_def by metis
  moreover from this have "n = 0" by (intro hd_showNat_zero) simp
  ultimately show False by (simp add: showNat_0)
qed

text \<open>The digits of the octet the loop is in.\<close>

definition octetSoFar :: "nat \<Rightarrow> nat \<Rightarrow> string" where
  "octetSoFar val digLen = (if digLen = 0 then [] else showNat val)"

lemma octet_step:
  assumes "isDigit c" "\<not> (digLen = 1 \<and> val = 0)" "digLen = 0 \<longrightarrow> val = 0" "1 < digLen \<longrightarrow> 0 < val"
  shows "octetSoFar (val * 10 + digitVal c) (digLen + 1) = octetSoFar val digLen @ [c]"
proof (cases "digLen = 0")
  case True
  with assms digit_char [OF assms(1)] show ?thesis
    by (simp add: octetSoFar_def) (subst showNat.simps, simp)
next
  case False
  with assms have "0 < val" by (cases "digLen = 1") auto
  with False showNat_snoc [OF this assms(1)] show ?thesis by (simp add: octetSoFar_def)
qed

lemma ipv4Fields_iff:
  "pos \<le> 3 \<Longrightarrow> val \<le> 255 \<Longrightarrow> digLen = 0 \<longrightarrow> val = 0 \<Longrightarrow> 1 < digLen \<longrightarrow> 0 < val \<Longrightarrow>
   (prev = None \<or> prev = Some (CHR ''.'')) = (digLen = 0) \<Longrightarrow> digLen = 0 \<longrightarrow> 0 < pos \<longrightarrow> cs \<noteq> [] \<Longrightarrow>
   ipv4Fields val digLen pos prev cs \<longleftrightarrow>
     (case splitOn (CHR ''.'') cs of [] \<Rightarrow> False
      | p # ps \<Rightarrow> isOctet (octetSoFar val digLen @ p) \<and> list_all isOctet ps \<and> length ps = 3 - pos)"
proof (induction cs arbitrary: val digLen pos prev)
  case Nil
  then show ?case by (auto simp: octetSoFar_def dest: isOctet_digits)
next
  case (Cons c cs)
  obtain p ps where sp: "splitOn (CHR ''.'') cs = p # ps" by (cases "splitOn (CHR ''.'') cs") auto
  consider (digit) "isDigit c" "c \<noteq> CHR ''.''" | (dot) "\<not> isDigit c" "c = CHR ''.''"
    | (other) "\<not> isDigit c" "c \<noteq> CHR ''.''" by (auto simp: isDigit_def)
  then show ?case
  proof cases
    case digit
    show ?thesis
    proof (cases "digLen = 1 \<and> val = 0")
      case True
      with digit sp not_isOctet_zero [of c p] show ?thesis by (simp add: octetSoFar_def showNat_0)
    next
      case False
      let ?v = "val * 10 + digitVal c"
      note oct = octet_step [OF digit(1) False Cons.prems(3,4)]
      show ?thesis
      proof (cases "255 < ?v")
        case True
        have "dec (octetSoFar val digLen) 0 = val" using Cons.prems(3)
          by (simp add: octetSoFar_def dec_showNat)
        with True dec_mono [of ?v p] have "\<not> isOctet (octetSoFar val digLen @ c # p)"
          by (auto dest!: isOctet_digits)
        with True digit False sp show ?thesis by simp
      next
        case le: False
        have "ipv4Fields ?v (digLen + 1) pos (Some c) cs \<longleftrightarrow>
          (case splitOn (CHR ''.'') cs of [] \<Rightarrow> False
           | p # ps \<Rightarrow> isOctet (octetSoFar ?v (digLen + 1) @ p) \<and> list_all isOctet ps \<and> length ps = 3 - pos)"
          using Cons.prems False le digit by (intro Cons.IH) auto
        with digit False le sp oct show ?thesis by auto
      qed
    qed
  next
    case dot
    show ?thesis
    proof (cases "digLen = 0 \<or> cs = [] \<or> pos = 3")
      case True
      with dot sp Cons.prems(5) show ?thesis
        by (auto simp: octetSoFar_def dest: isOctet_digits)
    next
      case False
      have "ipv4Fields 0 0 (pos + 1) (Some c) cs \<longleftrightarrow>
          (case splitOn (CHR ''.'') cs of [] \<Rightarrow> False
           | p # ps \<Rightarrow> isOctet (octetSoFar 0 0 @ p) \<and> list_all isOctet ps \<and> length ps = 3 - (pos + 1))"
        using Cons.prems False dot by (intro Cons.IH) auto
      with dot False sp Cons.prems show ?thesis by (auto simp: octetSoFar_def)
    qed
  next
    case other
    with sp show ?thesis by (auto dest: isOctet_digits)
  qed
qed

lemma dot_of_quad:
  assumes "dottedQuad s"
  shows "\<exists>t. dropWhile (\<lambda>c. c \<noteq> CHR ''.'' \<and> c \<noteq> CHR '':'' \<and> c \<noteq> CHR ''%'') s = CHR ''.'' # t"
proof -
  from assms obtain p q ps where sp: "splitOn (CHR ''.'') s = p # q # ps" and p: "isOctet p"
    by (auto simp: dottedQuad_def eval_nat_numeral length_Suc_conv)
  with join_splitOn [of "CHR ''.''" s] have s: "s = p @ CHR ''.'' # q @ concat (map (\<lambda>q. CHR ''.'' # q) ps)"
    by simp
  have "\<forall>c \<in> set p. c \<noteq> CHR ''.'' \<and> c \<noteq> CHR '':'' \<and> c \<noteq> CHR ''%''"
    using isOctet_digits [OF p] by (auto simp: isDigit_def)
  with s show ?thesis by (simp add: dropWhile_append2)
qed

lemma parsesAsIPv4_iff: "parsesAsIPv4 s \<longleftrightarrow> dottedQuad s"
proof -
  have "ipv4Fields 0 0 0 None s \<longleftrightarrow> dottedQuad s"
    by (subst ipv4Fields_iff) (auto simp: dottedQuad_def octetSoFar_def split: list.splits)
  moreover have "parsesAsIPv4 s = ipv4Fields 0 0 0 None s" if "dottedQuad s"
    using dot_of_quad [OF that] by (auto simp: parsesAsIPv4_def)
  moreover have "parsesAsIPv4 s \<longrightarrow> ipv4Fields 0 0 0 None s"
    by (simp add: parsesAsIPv4_def split: list.split)
  ultimately show ?thesis by blast
qed

section \<open>Properties\<close>

text \<open>
  The S3 key rule accepts exactly the non-empty keys of at most 1024 bytes that are the UTF-8
  encoding of a sequence of Unicode scalar values.
\<close>

theorem s3_validateKey_iff:
  "s3_validateKey key = None \<longleftrightarrow> key \<noteq> [] \<and> length key \<le> 1024 \<and>
     (\<exists>rs. list_all scalar rs \<and> byteVals key = concat (map encodeRune rs))"
  by (auto simp: s3_validateKey_def s3_maxKeyLength_def validString_def validBytes_iff list_all_iff)

lemma first_some_guard: "first_some (\<lambda>p. if P p then Some p else None) ps = None \<longleftrightarrow> \<not> list_ex P ps"
  by (induction ps) auto

lemma first_some_guardD: "first_some (\<lambda>p. if P p then Some p else None) ps = Some x \<Longrightarrow> list_ex P ps"
  using first_some_guard [of P ps] by auto

text \<open>
  C30: the bucket rule accepts exactly the names of 3 to 63 lowercase letters, digits, dots and
  hyphens that start and end with a letter or digit, have no two dots together, are not the decimal
  notation of four octets, and have none of the reserved prefixes and suffixes.
\<close>

theorem validateBucket_iff:
  "validateBucket name = None \<longleftrightarrow> 3 \<le> length name \<and> length name \<le> 63 \<and> list_all bucketChar name \<and>
     lowerAlnum (hd name) \<and> lowerAlnum (last name) \<and> \<not> sublist ''..'' name \<and> \<not> dottedQuad name \<and>
     \<not> list_ex (\<lambda>p. prefix p name) reservedBucketPrefixes \<and>
     \<not> list_ex (\<lambda>s. suffix s name) reservedBucketSuffixes"
proof (cases "3 \<le> length name \<and> length name \<le> 63")
  case False
  then show ?thesis by (auto simp: validateBucket_def minBucketLength_def maxBucketLength_def Let_def)
next
  case True
  then have ne: "name \<noteq> []" by auto
  have loop: "bucketLoop name 0 name = None \<longleftrightarrow>
      list_all bucketChar name \<and> lowerAlnum (hd name) \<and> lowerAlnum (last name)"
    using bucketLoop_None [of name "[]" name] ne by (simp add: list_all_iff)
  from True have len: "\<not> (int (length name) < minBucketLength \<or> int (length name) > maxBucketLength)"
    by (simp add: minBucketLength_def maxBucketLength_def)
  show ?thesis
    using loop len True
    by (cases "bucketLoop name 0 name")
      (auto simp: validateBucket_def Let_def containsStr_sublist parsesAsIPv4_iff first_some_guard
        hasPrefix_def hasSuffix_def dest: first_some_guardD split: option.splits)
qed

end
