(* ===== verification/S3_Errors.thy ===== *)
theory S3_Errors
  imports Go_Errors
begin

text \<open>
  \<open>s3/errors.go\<close>: the classification of SDK errors into the sentinels. An SDK error is any error
  value; what the code asks of it is the status of the first \<open>*smithyhttp.ResponseError\<close> and the code
  of the first \<open>smithy.APIError\<close> in its tree.
\<close>

definition errorCode :: "err option \<Rightarrow> string" where
  "errorCode e = (case Option.bind e (errors_As apiCode) of Some c \<Rightarrow> c | None \<Rightarrow> [])"

definition classified :: "err \<Rightarrow> bool" where
  "classified e \<longleftrightarrow> errors_Is e ErrNotFound \<or> errors_Is e ErrContainerNotFound \<or> errors_Is e ErrUnavailable"

text \<open>\<open>classify\<close> of an error that is not nil.\<close>

definition s3_classifyErr :: "err \<Rightarrow> err" where
  "s3_classifyErr e =
     (if errors_Is e ErrNotFound \<or> errors_Is e ErrContainerNotFound \<or> errors_Is e ErrUnavailable then e
      else
        let unanswered = (if errors_Is e Canceled then e else dual ErrUnavailable e) in
        case errors_As httpStatus e of
          None \<Rightarrow> unanswered
        | Some status \<Rightarrow>
          if status = 0 then unanswered
          else let code = errorCode (Some e) in
            if code = ''NoSuchBucket'' then dual ErrContainerNotFound e
            else if code = ''NoSuchKey'' then dual ErrNotFound e
            else if status \<ge> 500 \<or> code = ''SlowDown'' \<or> code = ''ServiceUnavailable'' \<or>
              code = ''InternalError'' then dual ErrUnavailable e
            else e)"

definition s3_classify :: "err option \<Rightarrow> err option" where
  "s3_classify e = map_option s3_classifyErr e"

definition classifyResume :: "err \<Rightarrow> err" where
  "classifyResume e =
     (case errors_As httpStatus e of
        Some status \<Rightarrow>
          if status = 412 \<and> \<not> errors_Is e ErrNotFound
          then Errorf ''s3.classifyResume'' ''%w: the object changed during the read: %w'' []
            [ErrNotFound, e] []
          else s3_classifyErr e
      | None \<Rightarrow> s3_classifyErr e)"

lemma s3_classify_simps [simp]:
  "s3_classify None = None" "s3_classify (Some e) = Some (s3_classifyErr e)"
  by (simp_all add: s3_classify_def)

text \<open>The shape of a classification: the error itself, or a sentinel over it.\<close>

lemma s3_classifyErr_shape:
  "s3_classifyErr e = e \<or> (\<not> classified e \<and>
     (s3_classifyErr e = dual ErrContainerNotFound e \<and> errorCode (Some e) = ''NoSuchBucket'' \<or>
      s3_classifyErr e = dual ErrNotFound e \<and> errorCode (Some e) = ''NoSuchKey'' \<or>
      s3_classifyErr e = dual ErrUnavailable e))"
  by (simp add: s3_classifyErr_def classified_def Let_def split: option.split)

lemma s3_classifyErr_cases:
  obtains (same) "s3_classifyErr e = e"
  | (bucket) "s3_classifyErr e = dual ErrContainerNotFound e" "\<not> classified e"
      "errorCode (Some e) = ''NoSuchBucket''"
  | (key) "s3_classifyErr e = dual ErrNotFound e" "\<not> classified e" "errorCode (Some e) = ''NoSuchKey''"
  | (down) "s3_classifyErr e = dual ErrUnavailable e" "\<not> classified e"
  using s3_classifyErr_shape [of e] by blast

lemma s3_classifyErr_classified: "classified e \<Longrightarrow> s3_classifyErr e = e"
  by (simp add: s3_classifyErr_def classified_def)

lemma s3_classifyErr_Is: "errors_Is e t \<Longrightarrow> errors_Is (s3_classifyErr e) t"
  by (cases e rule: s3_classifyErr_cases) (auto simp: errors_Is_dual_cause)

lemma s3_classifyErr_idem: "s3_classifyErr (s3_classifyErr e) = s3_classifyErr e"
  by (cases e rule: s3_classifyErr_cases) (auto intro!: s3_classifyErr_classified simp: classified_def)

section \<open>Properties\<close>

text \<open>
  Classification keeps the cause and adds at most one sentinel. The result matches whatever the
  SDK's error matches; classifying it again changes nothing; an error that matched none of the three
  sentinels matches at most one of them afterwards.
\<close>

theorem s3_classify_sound:
  "(errors_Is e t \<longrightarrow> errors_Is (s3_classifyErr e) t) \<and>
   s3_classifyErr (s3_classifyErr e) = s3_classifyErr e \<and>
   (\<not> classified e \<longrightarrow>
      \<not> (errors_Is (s3_classifyErr e) ErrNotFound \<and> errors_Is (s3_classifyErr e) ErrContainerNotFound) \<and>
      \<not> (errors_Is (s3_classifyErr e) ErrNotFound \<and> errors_Is (s3_classifyErr e) ErrUnavailable) \<and>
      \<not> (errors_Is (s3_classifyErr e) ErrContainerNotFound \<and> errors_Is (s3_classifyErr e) ErrUnavailable))"
proof (intro conjI impI)
  show "s3_classifyErr (s3_classifyErr e) = s3_classifyErr e" by (rule s3_classifyErr_idem)
  show "errors_Is (s3_classifyErr e) t" if "errors_Is e t" using that by (rule s3_classifyErr_Is)
qed (cases e rule: s3_classifyErr_cases; auto simp: classified_def)+

text \<open>An answer from the service with a status and a code.\<close>

definition answer :: "int \<Rightarrow> string \<Rightarrow> err" where
  "answer status code = Foreign \<lparr>message = [], httpStatus = Some status, apiCode = Some code,
     uploadID = None, azResponse = None\<rparr> []"

theorem s3_classify_sound_witness:
  "\<not> (errors_Is (s3_classifyErr (answer 404 ''NoSuchBucket'')) ErrNotFound \<and>
      errors_Is (s3_classifyErr (answer 404 ''NoSuchBucket'')) ErrContainerNotFound)"
  using s3_classify_sound [of "answer 404 ''NoSuchBucket''" EOF] by (auto simp: classified_def answer_def)

text \<open>
  C33: what an error without a sentinel becomes. One that carries no answer is \<open>ErrUnavailable\<close>
  unless the caller cancelled, when it is returned as it is; an answer is \<open>ErrContainerNotFound\<close> only
  for a missing bucket, \<open>ErrNotFound\<close> only for a missing key, and \<open>ErrUnavailable\<close> exactly for a
  server error or a throttling code.
\<close>

theorem s3_classify_table:
  assumes "\<not> classified e"
  shows "(errors_As httpStatus e = None \<or> errors_As httpStatus e = Some 0 \<longrightarrow>
      (if errors_Is e Canceled then s3_classifyErr e = e else errors_Is (s3_classifyErr e) ErrUnavailable)) \<and>
    (\<forall>status. errors_As httpStatus e = Some status \<longrightarrow> status \<noteq> 0 \<longrightarrow>
      (errors_Is (s3_classifyErr e) ErrContainerNotFound \<longleftrightarrow> errorCode (Some e) = ''NoSuchBucket'') \<and>
      (errors_Is (s3_classifyErr e) ErrNotFound \<longleftrightarrow> errorCode (Some e) = ''NoSuchKey'') \<and>
      (errors_Is (s3_classifyErr e) ErrUnavailable \<longleftrightarrow>
         errorCode (Some e) \<notin> {''NoSuchBucket'', ''NoSuchKey''} \<and>
         (500 \<le> status \<or> errorCode (Some e) \<in> {''SlowDown'', ''ServiceUnavailable'', ''InternalError''})))"
  using assms by (auto simp: s3_classifyErr_def classified_def Let_def)

theorem s3_classify_table_witness:
  "errors_Is (s3_classifyErr (answer 503 ''SlowDown'')) ErrUnavailable \<and>
   \<not> errors_Is (s3_classifyErr (answer 404 ''NoSuchBucket'')) ErrNotFound"
  using s3_classify_table [of "answer 503 ''SlowDown''"] s3_classify_table [of "answer 404 ''NoSuchBucket''"]
  by (simp add: classified_def answer_def errorCode_def)

end
