(* ===== verification/S3_Client.thy ===== *)
theory S3_Client
  imports S3_Keys S3_Errors Client_API Config
begin

text \<open>
  \<open>s3/client.go\<close>: the options, the construction and the two bucket operations of the S3 provider.
  What the SDK and the standard library's parsers do is an argument: \<open>time.ParseDuration\<close> and
  \<open>url.Parse\<close> as functions, and the SDK's client as the record \<open>S3API\<close> of the calls the provider
  makes, over a state of the service.
\<close>

section \<open>Constants\<close>

definition defaultPartSize :: int where "defaultPartSize = 8 * 2 ^ 20"
definition minPartSize :: int where "minPartSize = 5 * 2 ^ 20"
definition maxPartSize :: int where "maxPartSize = 5 * 2 ^ 30"
definition s3_defaultConcurrency :: int where "s3_defaultConcurrency = 4"
definition s3_maxConcurrency :: int where "s3_maxConcurrency = 32"
definition abortTimeout :: int where "abortTimeout = 30 * second"
definition defaultRegion :: string where "defaultRegion = ''us-east-1''"

section \<open>Options\<close>

text \<open>The error of an option that the package refuses.\<close>

definition s3_optionError :: "string \<Rightarrow> string \<Rightarrow> val list \<Rightarrow> err" where
  "s3_optionError fn text vs = newError (''s3.'' @ fn) text vs"

definition regionOption :: "string smap \<Rightarrow> err + string" where
  "regionOption opts =
     (case map_of opts ''region'' of
        None \<Rightarrow> Inr defaultRegion
      | Some v \<Rightarrow>
        if v = [] then Inl (s3_optionError ''regionOption'' ''s3: option %s: must not be empty'' [VStr ''region''])
        else Inr v)"

definition maxAttempts :: "string smap \<Rightarrow> err + int" where
  "maxAttempts opts =
     (case map_of opts ''max_retries'' of
        None \<Rightarrow> Inr 0
      | Some v \<Rightarrow>
        let bad = Inl (s3_optionError ''maxAttempts'' ''s3: option %s: %q is not a non-negative integer''
              [VStr ''max_retries'', VStr v]) in
        case atoi v of
          Inl e \<Rightarrow> bad
        | Inr n \<Rightarrow> if n < 0 then bad else Inr (wrap64 (n + 1)))"

text \<open>\<open>retry.DefaultMaxAttempts\<close> of the SDK is the argument \<open>dflt\<close>.\<close>

definition s3_readRetries :: "int \<Rightarrow> int \<Rightarrow> int" where
  "s3_readRetries dflt attempts = wrap64 ((if attempts = 0 then dflt else attempts) - 1)"

definition partSizeOption :: "string smap \<Rightarrow> err + int" where
  "partSizeOption opts =
     (case map_of opts ''part_size'' of
        None \<Rightarrow> Inr defaultPartSize
      | Some v \<Rightarrow>
        let bad = Inl (s3_optionError ''partSizeOption''
              ''s3: option %s: %q is not a byte count from %d (5 MiB) to %d (5 GiB)''
              [VStr ''part_size'', VStr v, VInt minPartSize, VInt maxPartSize]) in
        case parseInt 64 v of
          Inl e \<Rightarrow> bad
        | Inr n \<Rightarrow> if n < minPartSize \<or> n > maxPartSize then bad else Inr n)"

type_synonym parseDuration = "string \<Rightarrow> err + int"

definition tryTimeoutOption :: "parseDuration \<Rightarrow> string smap \<Rightarrow> err + int" where
  "tryTimeoutOption parseDuration opts =
     (case map_of opts ''try_timeout'' of
        None \<Rightarrow> Inr 0
      | Some v \<Rightarrow>
        let bad = Inl (s3_optionError ''tryTimeoutOption'' ''s3: option %s: %q is not a positive duration''
              [VStr ''try_timeout'', VStr v]) in
        case parseDuration v of
          Inl e \<Rightarrow> bad
        | Inr d \<Rightarrow> if d \<le> 0 then bad else Inr d)"

definition concurrencyOption :: "string smap \<Rightarrow> err + int" where
  "concurrencyOption opts =
     (case map_of opts ''concurrency'' of
        None \<Rightarrow> Inr s3_defaultConcurrency
      | Some v \<Rightarrow>
        let bad = Inl (s3_optionError ''concurrencyOption''
              ''s3: option %s: %q is not an integer between 1 and %d''
              [VStr ''concurrency'', VStr v, VInt s3_maxConcurrency]) in
        case atoi v of
          Inl e \<Rightarrow> bad
        | Inr n \<Rightarrow> if n < 1 \<or> n > s3_maxConcurrency then bad else Inr n)"

text \<open>\<open>url.Parse\<close> is the argument \<open>urlParse\<close>, giving the scheme and the host.\<close>

type_synonym urlParse = "string \<Rightarrow> err + string \<times> string"

definition validateEndpoint :: "urlParse \<Rightarrow> string \<Rightarrow> err option" where
  "validateEndpoint urlParse endpoint =
     (case urlParse endpoint of
        Inl e \<Rightarrow> Some (Errorf ''s3.validateEndpoint'' ''s3: endpoint %q: %w'' [VStr endpoint] [e] [])
      | Inr (scheme, host) \<Rightarrow>
        if (scheme \<noteq> ''http'' \<and> scheme \<noteq> ''https'') \<or> host = [] then
          Some (newError ''s3.validateEndpoint''
            ''s3: endpoint %q is not an absolute http or https URL'' [VStr endpoint])
        else None)"

section \<open>Construction\<close>

text \<open>
  The client's own fields, and what New hands the SDK's constructors: the attempts, the deadline of
  a try when there is one, and the endpoint, which goes with path-style requests.
\<close>

record s3_Client =
  s3_bucket :: string
  s3_region :: string
  s3_partSize :: int
  s3_readRetriesOf :: int
  s3_attempts :: int
  s3_httpTimeout :: "int option"
  s3_baseEndpoint :: "string option"
  s3_concurrency :: int

definition s3_New ::
  "parseDuration \<Rightarrow> urlParse \<Rightarrow> int \<Rightarrow> maps \<Rightarrow> Config \<Rightarrow> (err + s3_Client) go" where
  "s3_New parseDuration urlParse dflt h cfg =
     (let opts = options h (cfg_Options cfg);
          required = (\<lambda>text. Ret (Inl (newError ''s3.New'' text []))) in
      if \<not> cfg_finalized cfg then Panic ''s3: Config not finalized: call Finalize before New''
      else if cfg_Container cfg = [] then required ''s3: storage container (bucket) required''
      else case validateBucket (cfg_Container cfg) of Some e \<Rightarrow> Ret (Inl e) | None \<Rightarrow>
      if cfg_Account cfg = [] then required ''s3: storage account (access key ID) required''
      else if cfg_Key cfg = [] then required ''s3: storage key (secret access key) required''
      else case regionOption opts of Inl e \<Rightarrow> Ret (Inl e) | Inr region \<Rightarrow>
        case maxAttempts opts of Inl e \<Rightarrow> Ret (Inl e) | Inr attempts \<Rightarrow>
        case partSizeOption opts of Inl e \<Rightarrow> Ret (Inl e) | Inr partSize \<Rightarrow>
        case tryTimeoutOption parseDuration opts of Inl e \<Rightarrow> Ret (Inl e) | Inr tryTimeout \<Rightarrow>
        case concurrencyOption opts of Inl e \<Rightarrow> Ret (Inl e) | Inr concurrency \<Rightarrow>
        case (if cfg_Endpoint cfg \<noteq> [] then validateEndpoint urlParse (cfg_Endpoint cfg) else None) of
          Some e \<Rightarrow> Ret (Inl e)
        | None \<Rightarrow>
          Ret (Inr \<lparr>s3_bucket = cfg_Container cfg, s3_region = region, s3_partSize = partSize,
            s3_readRetriesOf = s3_readRetries dflt attempts, s3_attempts = attempts,
            s3_httpTimeout = (if tryTimeout > 0 then Some tryTimeout else None),
            s3_baseEndpoint = (if cfg_Endpoint cfg \<noteq> [] then Some (cfg_Endpoint cfg) else None),
            s3_concurrency = concurrency\<rparr>))"

section \<open>The SDK\<close>

text \<open>
  What the SDK's answers carry that the provider reads; a pointer that may be nil is an option.
  \<open>date\<close> is the server time of the answer's metadata.
\<close>

record putOut =
  out_ETag :: "string option"
  out_date :: "time option"

record headOut =
  head_ContentLength :: "int option"
  head_ContentType :: "string option"
  head_ETag :: "string option"
  head_LastModified :: "time option"

record 'g getOut =
  get_head :: headOut
  get_ContentRange :: "string option"
  get_Body :: 'g

record listItem =
  item_Key :: "string option"
  item_Size :: "int option"
  item_ETag :: "string option"
  item_LastModified :: "time option"

record listOut =
  lst_Contents :: "listItem list"
  lst_IsTruncated :: "bool option"
  lst_NextToken :: "string option"

text \<open>
  The calls. \<open>'s\<close> is the service, \<open>'u\<close> the body of an upload, \<open>'g\<close> the body of an answer. A ranged
  GetObject has the first byte and the ETag it is conditioned on. An upload reads its body, so it
  returns it; one that never returns is \<open>None\<close>.
\<close>

record ('s, 'u, 'g) S3API =
  api_CreateBucket :: "'s \<Rightarrow> ctx \<Rightarrow> string \<Rightarrow> string option \<Rightarrow> err option \<times> 's"
  api_HeadBucket :: "'s \<Rightarrow> ctx \<Rightarrow> string \<Rightarrow> err option \<times> 's"
  api_PutObject :: "'s \<Rightarrow> ctx \<Rightarrow> string \<Rightarrow> string \<Rightarrow> bytes \<Rightarrow> int \<Rightarrow> string \<Rightarrow> (err + putOut) \<times> 's"
  api_UploadObject :: "'s \<Rightarrow> ctx \<Rightarrow> string \<Rightarrow> string \<Rightarrow> 'u \<Rightarrow> int option \<Rightarrow> string \<Rightarrow>
    ((err + putOut) \<times> 's \<times> 'u) option"
  api_AbortMultipartUpload :: "'s \<Rightarrow> ctx \<Rightarrow> string \<Rightarrow> string \<Rightarrow> string \<Rightarrow> err option \<times> 's"
  api_GetObject :: "'s \<Rightarrow> ctx \<Rightarrow> string \<Rightarrow> string \<Rightarrow> (int \<times> string) option \<Rightarrow> (err + 'g getOut) \<times> 's"
  api_HeadObject :: "'s \<Rightarrow> ctx \<Rightarrow> string \<Rightarrow> string \<Rightarrow> (err + headOut) \<times> 's"
  api_DeleteObject :: "'s \<Rightarrow> ctx \<Rightarrow> string \<Rightarrow> string \<Rightarrow> err option \<times> 's"
  api_ListObjectsV2 :: "'s \<Rightarrow> ctx \<Rightarrow> string \<Rightarrow> string option \<Rightarrow> string option \<Rightarrow> int option \<Rightarrow>
    (err + listOut) \<times> 's"

section \<open>Bucket operations\<close>

definition s3_Probe :: "('s, 'u, 'g) S3API \<Rightarrow> s3_Client \<Rightarrow> 's \<Rightarrow> ctx \<Rightarrow> err option \<times> 's" where
  "s3_Probe api c s x =
     (let (e, s') = api_HeadBucket api s x (s3_bucket c) in
      case e of
        Some err \<Rightarrow>
          if errorCode e = ''NotFound'' then (Some (dual ErrContainerNotFound err), s')
          else (s3_classify e, s')
      | None \<Rightarrow> (s3_classify e, s'))"

definition s3_EnsureContainer :: "('s, 'u, 'g) S3API \<Rightarrow> s3_Client \<Rightarrow> 's \<Rightarrow> ctx \<Rightarrow> err option \<times> 's" where
  "s3_EnsureContainer api c s x =
     (let (e, s') = api_CreateBucket api s x (s3_bucket c)
            (if s3_region c \<noteq> defaultRegion then Some (s3_region c) else None);
          code = errorCode e in
      if code = ''BucketAlreadyOwnedByYou'' then (None, s')
      else if code = ''BucketAlreadyExists'' then
        (let (probeErr, s'') = s3_Probe api c s' x in
         case probeErr of
           Some pe \<Rightarrow> (case s3_classify e of
               Some ce \<Rightarrow> (Some (Errorf ''s3.Client.EnsureContainer'' ''%w (probe after it: %w)'' [] [ce, pe] []), s'')
             | None \<Rightarrow> (Some (Errorf ''s3.Client.EnsureContainer'' ''%w (probe after it: %w)'' [] [pe] []), s''))
         | None \<Rightarrow> (None, s''))
      else (s3_classify e, s'))"

definition s3_Capabilities :: "s3_Client \<Rightarrow> Capabilities" where
  "s3_Capabilities c = \<lparr>cap_MaxKeyLength = s3_maxKeyLength, cap_ValidateKey = Some s3_validateKey\<rparr>"


section \<open>Properties\<close>

lemma s3_New_cases:
  assumes "s3_New pd up dflt h cfg = Ret (Inr c)"
  obtains region attempts partSize tryTimeout concurrency where
    "cfg_finalized cfg" "validateBucket (cfg_Container cfg) = None"
    "cfg_Account cfg \<noteq> []" "cfg_Key cfg \<noteq> []"
    "regionOption (options h (cfg_Options cfg)) = Inr region"
    "maxAttempts (options h (cfg_Options cfg)) = Inr attempts"
    "partSizeOption (options h (cfg_Options cfg)) = Inr partSize"
    "tryTimeoutOption pd (options h (cfg_Options cfg)) = Inr tryTimeout"
    "concurrencyOption (options h (cfg_Options cfg)) = Inr concurrency"
    "cfg_Endpoint cfg \<noteq> [] \<longrightarrow> validateEndpoint up (cfg_Endpoint cfg) = None"
    "c = \<lparr>s3_bucket = cfg_Container cfg, s3_region = region, s3_partSize = partSize,
       s3_readRetriesOf = s3_readRetries dflt attempts, s3_attempts = attempts,
       s3_httpTimeout = (if tryTimeout > 0 then Some tryTimeout else None),
       s3_baseEndpoint = (if cfg_Endpoint cfg \<noteq> [] then Some (cfg_Endpoint cfg) else None),
       s3_concurrency = concurrency\<rparr>"
  using assms unfolding s3_New_def Let_def
  by (simp split: if_split_asm option.split_asm sum.split_asm)

lemma regionOption_nonempty: "regionOption opts = Inr r \<Longrightarrow> r \<noteq> []"
  by (auto simp: regionOption_def defaultRegion_def split: option.split_asm if_split_asm)

lemma partSizeOption_bounds:
  "partSizeOption opts = Inr n \<Longrightarrow> 5 * 2 ^ 20 \<le> n \<and> n \<le> 5 * 2 ^ 30"
  by (auto simp: partSizeOption_def Let_def defaultPartSize_def minPartSize_def maxPartSize_def
      split: option.split_asm sum.split_asm if_split_asm)

lemma concurrencyOption_bounds: "concurrencyOption opts = Inr n \<Longrightarrow> 1 \<le> n \<and> n \<le> 32"
  by (auto simp: concurrencyOption_def Let_def s3_defaultConcurrency_def s3_maxConcurrency_def
      split: option.split_asm sum.split_asm if_split_asm)

lemma s3_New_panics: "(\<exists>p. s3_New pd up dflt h cfg = Panic p) \<longleftrightarrow> \<not> cfg_finalized cfg"
  by (simp add: s3_New_def Let_def split: option.split sum.split)

text \<open>
  C37: the client New makes has a bucket name S3 accepts, a region, a part size from 5 MiB to 5 GiB, a
  concurrency from 1 to 32, and a try deadline that is positive when there is one, and it is made from a
  finalized configuration only.
\<close>

theorem s3_New_bounds:
  assumes "s3_New pd up dflt h cfg = Ret (Inr c)"
  shows "cfg_finalized cfg \<and> validateBucket (s3_bucket c) = None \<and> s3_bucket c = cfg_Container cfg \<and>
    s3_region c \<noteq> [] \<and> 5 * 2 ^ 20 \<le> s3_partSize c \<and> s3_partSize c \<le> 5 * 2 ^ 30 \<and>
    1 \<le> s3_concurrency c \<and> s3_concurrency c \<le> 32 \<and> (\<forall>d. s3_httpTimeout c = Some d \<longrightarrow> 0 < d)"
proof (intro conjI allI impI)
  note made = s3_New_cases [OF assms]
  show "cfg_finalized cfg" by (rule made)
  show "validateBucket (s3_bucket c) = None" by (rule made) simp
  show "s3_bucket c = cfg_Container cfg" by (rule made) simp
  show "s3_region c \<noteq> []" by (rule made) (simp add: regionOption_nonempty)
  show "5 * 2 ^ 20 \<le> s3_partSize c" by (rule made) (drule partSizeOption_bounds, simp)
  show "s3_partSize c \<le> 5 * 2 ^ 30" by (rule made) (drule partSizeOption_bounds, simp)
  show "1 \<le> s3_concurrency c" by (rule made) (drule concurrencyOption_bounds, simp)
  show "s3_concurrency c \<le> 32" by (rule made) (drule concurrencyOption_bounds, simp)
  fix d
  assume "s3_httpTimeout c = Some d"
  then show "0 < d" by - (rule made, simp split: if_split_asm)
qed

definition provider_config :: Config where
  "provider_config = sample_config\<lparr>cfg_Account := ''acct'', cfg_Key := ''key'', cfg_finalized := True\<rparr>"

lemma validateBucket_box: "validateBucket ''box'' = None"
  by (simp add: validateBucket_def minBucketLength_def maxBucketLength_def lowerAlnum_def
      parsesAsIPv4_def reservedBucketPrefixes_def reservedBucketSuffixes_def hasPrefix_def hasSuffix_def suffix_to_prefix)

lemma sample_s3_New: "\<exists>c. s3_New (\<lambda>_. Inr 1) (\<lambda>_. Inr ([], [])) 3 sample_maps provider_config = Ret (Inr c)"
  by (simp add: s3_New_def provider_config_def sample_config_def options_def sample_maps_def validateBucket_box
      regionOption_def maxAttempts_def partSizeOption_def tryTimeoutOption_def concurrencyOption_def)

theorem s3_New_bounds_witness:
  "\<exists>c. s3_New (\<lambda>_. Inr 1) (\<lambda>_. Inr ([], [])) 3 sample_maps provider_config = Ret (Inr c) \<and>
     s3_bucket c = ''box'' \<and> s3_concurrency c \<le> 32"
proof -
  from sample_s3_New obtain c where c: "s3_New (\<lambda>_. Inr 1) (\<lambda>_. Inr ([], [])) 3 sample_maps provider_config = Ret (Inr c)"
    by blast
  with s3_New_bounds [OF c] show ?thesis by (simp add: provider_config_def sample_config_def)
qed

text \<open>
  C39: the \<open>max_retries\<close> option. For every retry count a Go \<open>int\<close> holds, written in decimal, the body
  of a Get resumes exactly that often, and the SDK is given one attempt more; at the largest \<open>int\<close>
  that sum wraps around to a negative number of attempts.
\<close>

theorem maxAttempts_of_retries:
  assumes "0 \<le> n" and "n \<le> maxInt64"
  shows "\<exists>a. maxAttempts [(''max_retries'', showInt n)] = Inr a \<and> s3_readRetries dflt a = n \<and>
    (n < maxInt64 \<longrightarrow> a = n + 1) \<and> (n = maxInt64 \<longrightarrow> a = minInt64)"
proof -
  have "atoi (showInt n) = Inr n"
    using parseNum_showInt [of 64 n "''Atoi''"] assms by (simp add: atoi_def)
  moreover have "wrap64 (n + 1) = (if n = maxInt64 then minInt64 else n + 1)"
    using assms by (simp add: wrap64_id) (simp add: wrap64_def)
  moreover have "wrap64 (minInt64 - 1) = maxInt64" by (simp add: wrap64_def)
  ultimately show ?thesis using assms
    by (auto simp: maxAttempts_def s3_readRetries_def wrap64_id)
qed

theorem maxAttempts_of_retries_witness:
  "\<exists>a. maxAttempts [(''max_retries'', showInt 5)] = Inr a \<and> s3_readRetries 3 a = 5 \<and> a = 6"
  using maxAttempts_of_retries [of 5 3] by simp

lemma errorCode_None [simp]: "errorCode None = []"
  by (simp add: errorCode_def)

lemma s3_Probe_eq:
  assumes "api_HeadBucket api s x (s3_bucket c) = (e, s')"
  shows "s3_Probe api c s x =
    (if errorCode e = ''NotFound'' then map_option (dual ErrContainerNotFound) e else s3_classify e, s')"
  using assms by (cases e) (simp_all add: s3_Probe_def)

text \<open>
  Probe succeeds exactly when HeadBucket does; a bare 404 is \<open>ErrContainerNotFound\<close>; and the
  result matches everything the SDK's error matches.
\<close>

theorem s3_Probe_outcome:
  assumes "api_HeadBucket api s x (s3_bucket c) = (e, s')"
  shows "\<exists>r. s3_Probe api c s x = (r, s') \<and> (r = None \<longleftrightarrow> e = None) \<and>
    (errorCode e = ''NotFound'' \<longrightarrow> errors_Is_opt r ErrContainerNotFound) \<and>
    (\<forall>t. errors_Is_opt e t \<longrightarrow> errors_Is_opt r t)"
  using s3_Probe_eq [OF assms]
  by (cases e) (auto simp: errors_Is_dual_cause s3_classifyErr_Is)

text \<open>A service whose bucket someone else owns or no one has, and that refuses every upload.\<close>

definition sampleAPI :: "err option \<Rightarrow> err option \<Rightarrow> (unit, 'u, 'g) S3API" where
  "sampleAPI createErr headErr =
     \<lparr>api_CreateBucket = (\<lambda>s x b r. (createErr, s)), api_HeadBucket = (\<lambda>s x b. (headErr, s)),
      api_PutObject = (\<lambda>s x b k d n t. (Inl EOF, s)), api_UploadObject = (\<lambda>s x b k u n t. None),
      api_AbortMultipartUpload = (\<lambda>s x b k u. (None, s)), api_GetObject = (\<lambda>s x b k r. (Inl EOF, s)),
      api_HeadObject = (\<lambda>s x b k. (Inl EOF, s)), api_DeleteObject = (\<lambda>s x b k. (None, s)),
      api_ListObjectsV2 = (\<lambda>s x b p t n. (Inl EOF, s))\<rparr>"

definition sample_s3 :: s3_Client where
  "sample_s3 = \<lparr>s3_bucket = ''box'', s3_region = ''us-east-1'', s3_partSize = 5242880,
     s3_readRetriesOf = 2, s3_attempts = 3, s3_httpTimeout = None, s3_baseEndpoint = None,
     s3_concurrency = 4\<rparr>"

theorem s3_Probe_outcome_witness:
  "\<exists>r. s3_Probe (sampleAPI None (Some (answer 404 ''NotFound'')) :: (unit, unit, unit) S3API) sample_s3 ()
     background = (r, ()) \<and> errors_Is_opt r ErrContainerNotFound"
  using s3_Probe_outcome [where api = "sampleAPI None (Some (answer 404 ''NotFound'')) :: (unit, unit, unit) S3API"
      and s = "()" and c = sample_s3 and x = background]
  by (auto simp: sampleAPI_def errorCode_def answer_def)

text \<open>
  EnsureContainer succeeds exactly when the bucket was created, already belonged to the caller, or
  already existed and then answered a probe; any failure matches everything the SDK's error matches.
\<close>

theorem s3_EnsureContainer_outcome:
  assumes "api_CreateBucket api s x (s3_bucket c)
      (if s3_region c \<noteq> defaultRegion then Some (s3_region c) else None) = (e, s1)"
    and "api_HeadBucket api s1 x (s3_bucket c) = (pe, s2)"
  shows "\<exists>r s'. s3_EnsureContainer api c s x = (r, s') \<and>
    (r = None \<longleftrightarrow> e = None \<or> errorCode e = ''BucketAlreadyOwnedByYou'' \<or>
      (errorCode e = ''BucketAlreadyExists'' \<and> pe = None)) \<and>
    (r \<noteq> None \<longrightarrow> (\<forall>t. errors_Is_opt e t \<longrightarrow> errors_Is_opt r t))"
proof (cases e)
  case None
  with assms show ?thesis by (simp add: s3_EnsureContainer_def)
next
  case (Some a)
  obtain r where probe: "s3_Probe api c s1 x = (r, s2)" "r = None \<longleftrightarrow> pe = None"
    using s3_Probe_eq [OF assms(2)] by (cases pe) auto
  from assms(1) probe(1) Some have "s3_EnsureContainer api c s x =
    (if errorCode e = ''BucketAlreadyOwnedByYou'' then (None, s1)
     else if errorCode e = ''BucketAlreadyExists'' then
       (map_option (\<lambda>p. Errorf ''s3.Client.EnsureContainer'' ''%w (probe after it: %w)'' []
          [s3_classifyErr a, p] []) r, s2)
     else (Some (s3_classifyErr a), s1))"
    by (cases r) (simp_all add: s3_EnsureContainer_def Let_def)
  with Some probe(2) show ?thesis by (cases r) (auto simp: s3_classifyErr_Is)
qed

theorem s3_EnsureContainer_outcome_witness:
  "\<exists>r s'. s3_EnsureContainer (sampleAPI (Some (answer 409 ''BucketAlreadyExists'')) None :: (unit, unit, unit) S3API)
     sample_s3 () background = (r, s') \<and> r = None"
  using s3_EnsureContainer_outcome [where s = "()" and c = sample_s3 and x = background
      and api = "sampleAPI (Some (answer 409 ''BucketAlreadyExists'')) None :: (unit, unit, unit) S3API"
      and e = "Some (answer 409 ''BucketAlreadyExists'')" and pe = None]
  by (auto simp: sampleAPI_def errorCode_def answer_def)

end
