(* ===== verification/S3_Objects.thy ===== *)
theory S3_Objects
  imports S3_Client
begin

text \<open>
  \<open>s3/objects.go\<close>, the operations that carry no body: \<open>entityTag\<close>, Stat, Delete and List. Put is in
  \<open>S3_Put\<close> and Get, with its resuming body, in \<open>S3_Get\<close>.
\<close>

section \<open>The SDK's pointer helpers\<close>

definition toInt64 :: "int option \<Rightarrow> int" where
  "toInt64 p = (case p of None \<Rightarrow> 0 | Some n \<Rightarrow> n)"

definition toString :: "string option \<Rightarrow> string" where
  "toString p = (case p of None \<Rightarrow> [] | Some s \<Rightarrow> s)"

definition toTime :: "time option \<Rightarrow> time" where
  "toTime p = (case p of None \<Rightarrow> zeroTime | Some t \<Rightarrow> t)"

definition toBool :: "bool option \<Rightarrow> bool" where
  "toBool p = (case p of None \<Rightarrow> False | Some b \<Rightarrow> b)"

section \<open>Entity tags\<close>

definition quoteTag :: "string \<Rightarrow> string" where
  "quoteTag s =
     (if s = [] \<or> prefix [CHR 0x22] s \<or> prefix [CHR ''W'', CHR ''/'', CHR 0x22] s then s
      else CHR 0x22 # s @ [CHR 0x22])"

definition s3_entityTag :: "string option \<Rightarrow> string" where
  "s3_entityTag e = quoteTag (toString e)"

lemma quoteTag_idem [simp]: "quoteTag (quoteTag s) = quoteTag s"
  by (simp add: quoteTag_def)

lemma quoteTag_Nil [simp]: "quoteTag s = [] \<longleftrightarrow> s = []"
  by (simp add: quoteTag_def)

section \<open>Stat, Delete, List\<close>

definition headObject :: "string \<Rightarrow> headOut \<Rightarrow> Object" where
  "headObject key out =
     \<lparr>obj_Key = key, obj_Size = toInt64 (head_ContentLength out),
      obj_ContentType = toString (head_ContentType out), obj_ETag = s3_entityTag (head_ETag out),
      obj_ModifiedAt = toUTC (toTime (head_LastModified out))\<rparr>"

definition s3_Stat ::
  "('s, 'u, 'g) S3API \<Rightarrow> s3_Client \<Rightarrow> 's \<Rightarrow> ctx \<Rightarrow> string \<Rightarrow> (err + Object) \<times> 's" where
  "s3_Stat api c s x key =
     (case s3_validateKey key of Some e \<Rightarrow> (Inl e, s) | None \<Rightarrow>
      (case api_HeadObject api s x (s3_bucket c) key of
         (Inl err, s1) \<Rightarrow>
           if errorCode (Some err) \<noteq> ''NotFound'' then (Inl (s3_classifyErr err), s1)
           else (case s3_Probe api c s1 x of
               (Some probeErr, s2) \<Rightarrow>
                 (Inl (Errorf ''s3.Client.Stat'' ''s3: stat %q: object answered 404, bucket check: %w''
                    [VStr key] [probeErr] []), s2)
             | (None, s2) \<Rightarrow> (Inl (dual ErrNotFound err), s2))
       | (Inr out, s1) \<Rightarrow> (Inr (headObject key out), s1)))"

definition s3_Delete ::
  "('s, 'u, 'g) S3API \<Rightarrow> s3_Client \<Rightarrow> 's \<Rightarrow> ctx \<Rightarrow> string \<Rightarrow> err option \<times> 's" where
  "s3_Delete api c s x key =
     (case s3_validateKey key of Some e \<Rightarrow> (Some e, s) | None \<Rightarrow>
      let (e, s') = api_DeleteObject api s x (s3_bucket c) key in
      if errorCode e = ''NoSuchKey'' then (None, s') else (s3_classify e, s'))"

definition listObjects :: "listItem list \<Rightarrow> Object list" where
  "listObjects items = concat (map (\<lambda>item.
     case item_Key item of
       None \<Rightarrow> []
     | Some k \<Rightarrow>
       [\<lparr>obj_Key = k, obj_Size = toInt64 (item_Size item), obj_ContentType = [],
         obj_ETag = s3_entityTag (item_ETag item),
         obj_ModifiedAt = truncateTime (toUTC (toTime (item_LastModified item))) second\<rparr>]) items)"

definition maxKeys :: "int \<Rightarrow> int option" where
  "maxKeys limit = (if 0 < limit then Some (wrap32 (min limit maxInt32)) else None)"

definition s3_List ::
  "('s, 'u, 'g) S3API \<Rightarrow> s3_Client \<Rightarrow> 's \<Rightarrow> ctx \<Rightarrow> ListOptions \<Rightarrow> (err + Page) \<times> 's" where
  "s3_List api c s x opts =
     (let pre = (if lo_Prefix opts \<noteq> [] then Some (lo_Prefix opts) else None);
          tok = (if lo_Token opts \<noteq> [] then Some (lo_Token opts) else None) in
      case api_ListObjectsV2 api s x (s3_bucket c) pre tok (maxKeys (lo_Limit opts)) of
        (Inl err, s') \<Rightarrow> (Inl (s3_classifyErr err), s')
      | (Inr out, s') \<Rightarrow>
        (Inr \<lparr>pg_Objects = listObjects (lst_Contents out),
           pg_Next = (if toBool (lst_IsTruncated out) then toString (lst_NextToken out) else [])\<rparr>, s'))"

section \<open>Properties\<close>

text \<open>What List makes of the items of an answer.\<close>

lemma listObjects_keys:
  "map obj_Key (listObjects items) = map the (filter (\<lambda>k. k \<noteq> None) (map item_Key items))"
  by (induction items) (auto simp: listObjects_def split: option.split)

lemma listObjects_normal:
  "list_all (\<lambda>o1. quoteTag (obj_ETag o1) = obj_ETag o1 \<and> loc (obj_ModifiedAt o1) = UTC \<and>
     instant (obj_ModifiedAt o1) mod second = 0) (listObjects items)"
  by (induction items) (auto simp: listObjects_def s3_entityTag_def truncateTime_def
      minus_mod_eq_mult_div split: option.split)

lemma s3_Probe_NotFound:
  assumes "api_HeadBucket api s x (s3_bucket c) = (pe, s')" and "\<And>e. pe = Some e \<Longrightarrow> \<not> classified e"
    and "errorCode pe \<noteq> ''NoSuchKey''"
  shows "\<not> errors_Is_opt (fst (s3_Probe api c s x)) ErrNotFound"
proof (cases pe)
  case (Some e)
  with assms(2,3) have "\<not> classified e" "errorCode (Some e) \<noteq> ''NoSuchKey''" by auto
  with Some show ?thesis unfolding s3_Probe_eq [OF assms(1)]
    by (cases e rule: s3_classifyErr_cases) (auto simp: classified_def)
qed (simp add: s3_Probe_eq [OF assms(1)])

text \<open>
  C35: a 404 of HeadObject names no cause, so Stat asks for the bucket. The error it returns matches
  \<open>ErrNotFound\<close> exactly when the bucket answered, and a bucket that is missing too makes it
  \<open>ErrContainerNotFound\<close>; a HeadBucket that fails is never read as a missing key.
\<close>

theorem s3_Stat_missing:
  assumes "s3_validateKey key = None" and "api_HeadObject api s x (s3_bucket c) key = (Inl err, s1)"
    and "errorCode (Some err) = ''NotFound''"
    and probe: "api_HeadBucket api s1 x (s3_bucket c) = (pe, s2)" "errorCode pe \<noteq> ''NoSuchKey''"
      "\<And>e. pe = Some e \<Longrightarrow> \<not> classified e"
  shows "\<exists>e. s3_Stat api c s x key = (Inl e, s2) \<and>
    (errors_Is e ErrNotFound \<longleftrightarrow> pe = None) \<and>
    (errorCode pe = ''NotFound'' \<longrightarrow> errors_Is e ErrContainerNotFound) \<and>
    (\<forall>t. errors_Is_opt pe t \<longrightarrow> errors_Is e t)"
proof (cases pe)
  case None
  with assms s3_Probe_eq [OF probe(1)] show ?thesis by (simp add: s3_Stat_def)
next
  case (Some b)
  obtain r where r: "s3_Probe api c s1 x = (Some r, s2)" "errorCode pe = ''NotFound'' \<longrightarrow> errors_Is r ErrContainerNotFound"
    "\<forall>t. errors_Is b t \<longrightarrow> errors_Is r t"
    using s3_Probe_eq [OF probe(1)] Some
    by (cases "errorCode pe = ''NotFound''") (simp_all add: errors_Is_dual_cause s3_classifyErr_Is that)
  have "\<not> errors_Is_opt (fst (s3_Probe api c s1 x)) ErrNotFound"
    by (rule s3_Probe_NotFound [OF probe(1)]) (use probe in simp_all)
  with r Some assms show ?thesis by (simp add: s3_Stat_def)
qed

definition notFoundAPI :: "err option \<Rightarrow> (unit, 'u, 'g) S3API" where
  "notFoundAPI headErr =
     sampleAPI None headErr\<lparr>api_HeadObject := (\<lambda>s x b k. (Inl (answer 404 ''NotFound''), s))\<rparr>"

lemma s3_validateKey_k: "s3_validateKey ''k'' = None"
proof -
  have "validString ''k''" by (simp add: validString_def byteVals_def decodeRune_def)
  then show ?thesis by (simp add: s3_validateKey_def s3_maxKeyLength_def)
qed

theorem s3_Stat_missing_witness:
  "\<exists>e. s3_Stat (notFoundAPI (Some (answer 404 ''NotFound'')) :: (unit, unit, unit) S3API) sample_s3 ()
     background ''k'' = (Inl e, ()) \<and> \<not> errors_Is e ErrNotFound \<and> errors_Is e ErrContainerNotFound"
proof -
  let ?api = "notFoundAPI (Some (answer 404 ''NotFound'')) :: (unit, unit, unit) S3API"
  have head: "api_HeadObject ?api () background (s3_bucket sample_s3) ''k'' = (Inl (answer 404 ''NotFound''), ())"
    by (simp add: notFoundAPI_def)
  have code: "errorCode (Some (answer 404 ''NotFound'')) = ''NotFound''"
    by (simp add: errorCode_def answer_def)
  have bucket: "api_HeadBucket ?api () background (s3_bucket sample_s3) = (Some (answer 404 ''NotFound''), ())"
    by (simp add: notFoundAPI_def sampleAPI_def)
  have fresh: "\<not> classified e" if "Some (answer 404 ''NotFound'') = Some e" for e
    using that by (auto simp: classified_def answer_def)
  note stat = s3_Stat_missing [OF s3_validateKey_k head code bucket _ fresh]
  show ?thesis using stat code by auto
qed

text \<open>
  Delete is idempotent towards the service: it succeeds exactly when DeleteObject does or
  answers that the key is missing, and no failure of it matches \<open>ErrNotFound\<close>, unless the SDK's own
  error already did. A key the rules refuse is refused without a request.
\<close>

theorem s3_Delete_outcome:
  assumes "api_DeleteObject api s x (s3_bucket c) key = (e, s')"
  shows "(s3_validateKey key \<noteq> None \<longrightarrow> s3_Delete api c s x key = (s3_validateKey key, s)) \<and>
    (s3_validateKey key = None \<longrightarrow> snd (s3_Delete api c s x key) = s' \<and>
      (fst (s3_Delete api c s x key) = None \<longleftrightarrow> e = None \<or> errorCode e = ''NoSuchKey'') \<and>
      (errors_Is_opt (fst (s3_Delete api c s x key)) ErrNotFound \<longrightarrow> errors_Is_opt e ErrNotFound))"
proof (cases e)
  case (Some a)
  then show ?thesis using assms
    by (cases a rule: s3_classifyErr_cases) (auto simp: s3_Delete_def Let_def split: if_splits)
qed (use assms in \<open>auto simp: s3_Delete_def\<close>)

theorem s3_Delete_outcome_witness:
  "fst (s3_Delete (sampleAPI None None\<lparr>api_DeleteObject := (\<lambda>s x b k. (Some (answer 404 ''NoSuchKey''), s))\<rparr>
     :: (unit, unit, unit) S3API) sample_s3 () background ''k'') = None"
  using s3_Delete_outcome [where key = "''k''" and c = sample_s3 and s = "()" and x = background
      and e = "Some (answer 404 ''NoSuchKey'')" and s' = "()"
      and api = "sampleAPI None None\<lparr>api_DeleteObject := (\<lambda>s x b k. (Some (answer 404 ''NoSuchKey''), s))\<rparr>
        :: (unit, unit, unit) S3API"]
  by (simp add: errorCode_def answer_def s3_validateKey_k)

text \<open>
  C36: a page has one object for each item with a key, in the order of the answer, with a tag in
  entity-tag form and a UTC time of whole seconds, so that it agrees with what Stat reports of the
  same object, whose header has whole seconds; a page leads to a next one only while the listing is
  truncated. A limit is passed on as it is, clamped to the largest \<open>int32\<close>, and never reaches the
  service as zero or negative.
\<close>

theorem s3_List_page:
  assumes "s3_List api c s x opts = (Inr page, s')"
  shows "\<exists>out pre tok k. api_ListObjectsV2 api s x (s3_bucket c) pre tok k = (Inr out, s') \<and>
    (if 0 < lo_Limit opts then k = Some (min (lo_Limit opts) maxInt32) else k = None) \<and>
    toString pre = lo_Prefix opts \<and> toString tok = lo_Token opts \<and>
    map obj_Key (pg_Objects page) = map the (filter (\<lambda>k. k \<noteq> None) (map item_Key (lst_Contents out))) \<and>
    list_all (\<lambda>o1. quoteTag (obj_ETag o1) = obj_ETag o1 \<and> loc (obj_ModifiedAt o1) = UTC \<and>
      instant (obj_ModifiedAt o1) mod second = 0) (pg_Objects page) \<and>
    (pg_Next page \<noteq> [] \<longrightarrow> lst_IsTruncated out = Some True \<and> lst_NextToken out = Some (pg_Next page))"
proof -
  define pre tok where "pre = (if lo_Prefix opts \<noteq> [] then Some (lo_Prefix opts) else None)"
    and "tok = (if lo_Token opts \<noteq> [] then Some (lo_Token opts) else None)"
  have opts: "toString pre = lo_Prefix opts" "toString tok = lo_Token opts"
    by (simp_all add: pre_def tok_def toString_def)
  obtain out where out: "api_ListObjectsV2 api s x (s3_bucket c) pre tok (maxKeys (lo_Limit opts)) = (Inr out, s')"
    and page: "page = \<lparr>pg_Objects = listObjects (lst_Contents out),
      pg_Next = (if toBool (lst_IsTruncated out) then toString (lst_NextToken out) else [])\<rparr>"
    using assms by (auto simp: s3_List_def pre_def tok_def split: prod.splits sum.splits)
  have "pg_Next page \<noteq> [] \<longrightarrow> lst_IsTruncated out = Some True \<and> lst_NextToken out = Some (pg_Next page)"
    by (simp add: page toBool_def toString_def split: option.split)
  moreover have "if 0 < lo_Limit opts then maxKeys (lo_Limit opts) = Some (min (lo_Limit opts) maxInt32)
    else maxKeys (lo_Limit opts) = None" by (auto simp: maxKeys_def wrap32_id)
  ultimately show ?thesis using out opts listObjects_keys listObjects_normal
    by (intro exI [of _ out] exI [of _ pre] exI [of _ tok] exI [of _ "maxKeys (lo_Limit opts)"])
      (simp add: page)
qed

definition sampleListing :: listOut where
  "sampleListing =
     \<lparr>lst_Contents = [\<lparr>item_Key = Some ''k'', item_Size = Some 3, item_ETag = Some ''abc'',
        item_LastModified = Some \<lparr>instant = 1500000000, loc = Zone ''GMT''\<rparr>\<rparr>],
      lst_IsTruncated = Some True, lst_NextToken = Some ''t''\<rparr>"

definition listAPI :: "(unit, unit, unit) S3API" where
  "listAPI = sampleAPI None None\<lparr>api_ListObjectsV2 := (\<lambda>s x b p t n. (Inr sampleListing, s))\<rparr>"

theorem s3_List_page_witness:
  "\<exists>page. s3_List listAPI sample_s3 () background \<lparr>lo_Prefix = [], lo_Token = [], lo_Limit = 5\<rparr> = (Inr page, ()) \<and>
     list_all (\<lambda>o1. loc (obj_ModifiedAt o1) = UTC) (pg_Objects page)"
proof -
  obtain page where page: "s3_List listAPI sample_s3 () background
      \<lparr>lo_Prefix = [], lo_Token = [], lo_Limit = 5\<rparr> = (Inr page, ())"
    by (simp add: s3_List_def listAPI_def)
  from s3_List_page [OF this] show ?thesis using page by (auto simp: list_all_iff)
qed

end
