(* ===== verification/Sized_Body.thy ===== *)
theory Sized_Body
  imports Limit_Reader
begin

text \<open>
  What the two providers promise about a Put body: it is delivered as it is, held to its declared
  size, its bytes counted and its first failure kept. The promise is the locale \<open>sized_reader\<close>, which
  \<open>bodyReader\<close> of \<open>s3/objects.go\<close> and \<open>trackedReader\<close> of \<open>azureblob/objects.go\<close> both implement, by two
  different pieces of code, and the consequences are proved once. The theory also has the two
  readers of \<open>io\<close> the providers build, \<open>io.LimitReader\<close> and \<open>io.MultiReader\<close>.
\<close>

section \<open>Integers\<close>

lemma wrap64_add: "wrap64 (wrap64 a + b) = wrap64 (a + b)"
proof -
  have "wrap64 a + b + 2 ^ 63 = (a + 2 ^ 63) mod 2 ^ 64 + b"
    by (simp add: wrap64_def)
  then have "wrap64 (wrap64 a + b) = ((a + 2 ^ 63) mod 2 ^ 64 + b) mod 2 ^ 64 - 2 ^ 63"
    by (simp only: wrap64_def)
  also have "\<dots> = (a + b + 2 ^ 63) mod 2 ^ 64 - 2 ^ 63"
    by (simp only: mod_add_left_eq) (simp add: algebra_simps)
  finally show ?thesis by (simp only: wrap64_def)
qed

lemma wrap64_idem: "wrap64 (wrap64 a) = wrap64 a"
  using wrap64_add [of a 0] by simp

lemma wrap64_self: "int64 x \<Longrightarrow> wrap64 x = x"
  by (simp add: int64_def wrap64_id)

section \<open>\<open>io.ReadAtLeast\<close>\<close>

text \<open>
  The loop of \<open>io.ReadAtLeast\<close> over a buffer of \<open>len\<close> bytes, which is at least \<open>low\<close> long, with
  \<open>acc\<close> read so far.
\<close>

partial_function (option) readAtLeast ::
  "'s rd \<Rightarrow> nat \<Rightarrow> nat \<Rightarrow> 's \<Rightarrow> bytes \<Rightarrow> (bytes \<times> err option \<times> 's) option" where
  "readAtLeast rd len low s acc =
     (if low \<le> length acc then Some (acc, None, s)
      else do { (bs, e, s') \<leftarrow> rd s (len - length acc);
                (case e of
                   None \<Rightarrow> readAtLeast rd len low s' (acc @ bs)
                 | Some x \<Rightarrow>
                   let out = acc @ bs in
                   Some (out,
                     if low \<le> length out then None
                     else if out \<noteq> [] \<and> x = EOF then Some ErrUnexpectedEOF else Some x, s')) })"

declare readAtLeast.simps [code]

context stream_reader
begin

text \<open>Asked for one byte, it returns the next byte of the stream, or nothing and what ends it.\<close>

lemma readAtLeast_one:
  "ok s \<Longrightarrow> \<exists>s'. readAtLeast rd 1 1 s [] =
     Some (take 1 (rest s), if rest s = [] then Some (fin s) else None, s')"
proof (induction "steps s" arbitrary: s rule: less_induct)
  case less
  from \<open>ok s\<close> zero_less_one show ?case
  proof (cases rule: read_cases)
    case (more bs s')
    show ?thesis
    proof (cases bs)
      case Nil
      with more less.hyps [OF more(5,2)] show ?thesis by (auto simp: readAtLeast.simps [of rd "Suc 0" "Suc 0" s])
    next
      case (Cons a as)
      with more have "bs = [a]" by simp
      with more show ?thesis
        by (simp add: readAtLeast.simps [of rd "Suc 0" "Suc 0" s] readAtLeast.simps [of rd "Suc 0" "Suc 0" s'])
    qed
  next
    case (stop s')
    then have "length (rest s) \<le> 1" by simp
    with stop show ?thesis
      by (cases "rest s") (simp_all add: readAtLeast.simps [of rd "Suc 0" "Suc 0" s])
  qed
qed

end

section \<open>The promise\<close>

text \<open>
  What a stream of content \<open>d\<close> that ends with \<open>e\<close> becomes when \<open>n\<close> bytes of a declared size \<open>sz\<close>
  are read, and what it then ends with; a size that is not positive is undeclared. \<open>isEOF\<close> is how
  the reader recognises the end: \<open>err == io.EOF\<close> in one provider and \<open>errors.Is\<close> in the other.
\<close>

definition longBody :: "string \<Rightarrow> int \<Rightarrow> err" where
  "longBody site sz = newError site ''body is longer than the declared size (%d bytes)'' [VInt sz]"

definition sized_rest :: "int \<Rightarrow> int \<Rightarrow> bytes \<Rightarrow> bytes" where
  "sized_rest sz n d = (if 0 < sz then take (nat (sz - n)) d else d)"

definition sized_fin :: "(err \<Rightarrow> bool) \<Rightarrow> string \<Rightarrow> int \<Rightarrow> int \<Rightarrow> bytes \<Rightarrow> err \<Rightarrow> err" where
  "sized_fin isEOF site sz n d e =
     (if 0 < sz \<and> sz - n < int (length d) then longBody site sz
      else if 0 < sz \<and> isEOF e \<and> n + int (length d) < sz then shortBody site (n + int (length d)) sz
      else e)"

locale sized_reader = stream_reader rd ok rest fin steps
  for rd :: "'r rd" and ok rest fin steps +
  fixes Rd :: "'b rd" and src :: "'b \<Rightarrow> 'r" and sz cnt :: "'b \<Rightarrow> int"
    and failed :: "'b \<Rightarrow> err option" and isEOF :: "err \<Rightarrow> bool" and site :: string
  assumes spent: "failed b = Some x \<Longrightarrow> Rd b m = Some ([], Some x, b)"
    and live: "failed b = None \<Longrightarrow> ok (src b) \<Longrightarrow> int64 (sz b) \<Longrightarrow> int64 (cnt b) \<Longrightarrow>
      0 < sz b \<Longrightarrow> 0 \<le> cnt b \<Longrightarrow> cnt b \<le> sz b \<Longrightarrow> 0 < m \<Longrightarrow>
      \<exists>bs e b'. Rd b m = Some (bs, e, b') \<and> length bs \<le> m \<and> sz b' = sz b \<and>
        cnt b' = cnt b + int (length bs) \<and> cnt b' \<le> sz b \<and>
        (case e of
           None \<Rightarrow> failed b' = None \<and> ok (src b') \<and> rest (src b) = bs @ rest (src b') \<and>
             fin (src b') = fin (src b) \<and> steps (src b') < steps (src b)
         | Some x \<Rightarrow> bs = sized_rest (sz b) (cnt b) (rest (src b)) \<and>
             x = sized_fin isEOF site (sz b) (cnt b) (rest (src b)) (fin (src b)) \<and>
             failed b' = (if isEOF x then None else Some x))"
    and live_unsized: "failed b = None \<Longrightarrow> ok (src b) \<Longrightarrow> int64 (cnt b) \<Longrightarrow> sz b \<le> 0 \<Longrightarrow> 0 < m \<Longrightarrow>
      \<exists>bs e b'. Rd b m = Some (bs, e, b') \<and> length bs \<le> m \<and> sz b' = sz b \<and>
        cnt b' = wrap64 (cnt b + int (length bs)) \<and>
        (case e of
           None \<Rightarrow> failed b' = None \<and> ok (src b') \<and> rest (src b) = bs @ rest (src b') \<and>
             fin (src b') = fin (src b) \<and> steps (src b') < steps (src b)
         | Some x \<Rightarrow> bs = rest (src b) \<and> x = fin (src b) \<and>
             failed b' = (if isEOF x then None else Some x))"
    and not_eof: "\<not> isEOF (longBody site z)" "\<not> isEOF (shortBody site n z)"
begin

definition sb_inv :: "'b \<Rightarrow> bool" where
  "sb_inv b \<longleftrightarrow> int64 (sz b) \<and> int64 (cnt b) \<and>
     (case failed b of
        None \<Rightarrow> ok (src b) \<and> (0 < sz b \<longrightarrow> 0 \<le> cnt b \<and> cnt b \<le> sz b)
      | Some x \<Rightarrow> \<not> isEOF x)"

definition sb_rest :: "'b \<Rightarrow> bytes" where
  "sb_rest b = (if failed b = None then sized_rest (sz b) (cnt b) (rest (src b)) else [])"

definition sb_fin :: "'b \<Rightarrow> err" where
  "sb_fin b = (case failed b of None \<Rightarrow> sized_fin isEOF site (sz b) (cnt b) (rest (src b)) (fin (src b))
     | Some x \<Rightarrow> x)"

definition sb_steps :: "'b \<Rightarrow> nat" where
  "sb_steps b = (if failed b = None then steps (src b) else 0)"

text \<open>One Read, with what it does to the content, the count and the recorded failure.\<close>

lemma sized_step:
  assumes inv: "sb_inv b" and m: "0 < m"
  shows "\<exists>bs e b'. Rd b m = Some (bs, e, b') \<and> length bs \<le> m \<and>
    (failed b = None \<longrightarrow> cnt b' = wrap64 (cnt b + int (length bs))) \<and>
    (case e of
       None \<Rightarrow> sb_inv b' \<and> failed b = None \<and> failed b' = None \<and> sb_rest b = bs @ sb_rest b' \<and>
         sb_fin b' = sb_fin b \<and> sb_steps b' < sb_steps b
     | Some x \<Rightarrow> sb_rest b = bs \<and> sb_fin b = x \<and> failed b' = (if isEOF x then None else Some x))"
proof (cases "failed b")
  case (Some x)
  with inv spent [OF Some] show ?thesis by (simp add: sb_inv_def sb_rest_def sb_fin_def)
next
  case None
  with inv have b: "ok (src b)" "int64 (sz b)" "int64 (cnt b)" by (simp_all add: sb_inv_def)
  show ?thesis
  proof (cases "0 < sz b")
    case True
    with inv None have rng: "0 \<le> cnt b" "cnt b \<le> sz b" by (simp_all add: sb_inv_def)
    from live [OF None b True rng m] obtain bs e b' where rd: "Rd b m = Some (bs, e, b')"
      and len: "length bs \<le> m" and s: "sz b' = sz b" "cnt b' = cnt b + int (length bs)" "cnt b' \<le> sz b"
      and c: "case e of
           None \<Rightarrow> failed b' = None \<and> ok (src b') \<and> rest (src b) = bs @ rest (src b') \<and>
             fin (src b') = fin (src b) \<and> steps (src b') < steps (src b)
         | Some x \<Rightarrow> bs = sized_rest (sz b) (cnt b) (rest (src b)) \<and>
             x = sized_fin isEOF site (sz b) (cnt b) (rest (src b)) (fin (src b)) \<and>
             failed b' = (if isEOF x then None else Some x)"
      by blast
    have i: "int64 (cnt b')" using s rng b by (simp add: int64_def)
    then have w: "cnt b' = wrap64 (cnt b + int (length bs))" using s by (simp add: wrap64_self)
    show ?thesis
    proof (cases e)
      case None': None
      have n: "nat (sz b - cnt b') = nat (sz b - cnt b) - length bs" using s by linarith
      have l: "length bs \<le> nat (sz b - cnt b)" using s by linarith
      from None' None rd len s w c i rng True b n l show ?thesis
        by (auto simp: sb_inv_def sb_rest_def sb_fin_def sb_steps_def sized_rest_def sized_fin_def algebra_simps)
    next
      case (Some x)
      with None rd len w c show ?thesis by (auto simp: sb_rest_def sb_fin_def)
    qed
  next
    case False
    then have "sz b \<le> 0" by simp
    from live_unsized [OF None b(1,3) this m] False None b show ?thesis
      by (fastforce simp: sb_inv_def sb_rest_def sb_fin_def sb_steps_def sized_rest_def sized_fin_def
          wrap64_int64 split: option.split_asm)
  qed
qed

lemma sized_stream: "stream_reader Rd sb_inv sb_rest sb_fin sb_steps"
proof (unfold_locales, goal_cases)
  case (1 b m)
  then show ?case using sized_step [of b m] by auto
next
  case (2 b m bs e b')
  then show ?case using sized_step [of b m] by auto
next
  case (3 b m bs b')
  then show ?case using sized_step [of b m] by auto
next
  case (4 b m bs e b')
  then show ?case using sized_step [of b m] by auto
qed

text \<open>
  At the end of a complete reading the count is that of the bytes delivered, and the failure that
  is kept is the error the reading ended with, unless that is the end of the stream.
\<close>

lemma sized_drains:
  "drains Rd b d e b' \<Longrightarrow> sb_inv b \<Longrightarrow> failed b = None \<Longrightarrow>
     cnt b' = wrap64 (cnt b + int (length d)) \<and> failed b' = (if isEOF e then None else Some e)"
proof (induction rule: drains.induct)
  case (drains_stop m b bs e b')
  then show ?case using sized_step [of b m] by auto
next
  case (drains_more m b bs b1 d e b')
  then have "sb_inv b1" "failed b1 = None" "cnt b1 = wrap64 (cnt b + int (length bs))"
    using sized_step [of b m] by auto
  with drains_more.IH show ?case by (simp add: wrap64_add add.assoc)
qed

end

text \<open>A chain of reads that returned no error.\<close>

inductive advances :: "'s rd \<Rightarrow> 's \<Rightarrow> bytes \<Rightarrow> 's \<Rightarrow> bool" for rd where
  advances_none: "advances rd s [] s"
| advances_step: "0 < m \<Longrightarrow> rd s m = Some (bs, None, s') \<Longrightarrow> advances rd s' d s'' \<Longrightarrow>
     advances rd s (bs @ d) s''"

lemma advances_drains: "advances rd s d s' \<Longrightarrow> drains rd s' d' e t \<Longrightarrow> drains rd s (d @ d') e t"
  by (induction rule: advances.induct) (auto intro: drains_more)

context sized_reader
begin

lemma sized_advances:
  "advances Rd b d b' \<Longrightarrow> sb_inv b \<Longrightarrow> failed b = None \<Longrightarrow>
     cnt b' = wrap64 (cnt b + int (length d)) \<and> failed b' = None \<and> sb_inv b'"
proof (induction rule: advances.induct)
  case (advances_none b)
  then show ?case by (simp add: sb_inv_def wrap64_self)
next
  case (advances_step m b bs b1 d b')
  then have "sb_inv b1" "failed b1 = None" "cnt b1 = wrap64 (cnt b + int (length bs))"
    using sized_step [of b m] by auto
  with advances_step.IH show ?case by (simp add: wrap64_add add.assoc)
qed

end

text \<open>
  \<open>io.Reader\<close> asks of a reader that has reached its end that the next Read returns nothing and
  \<open>EOF\<close> again.
\<close>

locale ended_reader = stream_reader +
  assumes ended: "ok s \<Longrightarrow> 0 < m \<Longrightarrow> rd s m = Some (bs, Some EOF, s') \<Longrightarrow>
    ok s' \<and> rest s' = [] \<and> fin s' = EOF"
begin

lemma ended_drains: "drains rd s d e s' \<Longrightarrow> ok s \<Longrightarrow> e = EOF \<Longrightarrow> ok s' \<and> rest s' = [] \<and> fin s' = EOF"
proof (induction rule: drains.induct)
  case (drains_stop m s bs e s')
  then show ?case using ended by blast
next
  case (drains_more m s bs s' d e s'')
  then show ?case using more [of s m bs s'] by blast
qed

end

interpretation bytes_ended: ended_reader bytes_Read "\<lambda>_. True" "\<lambda>s. s" "\<lambda>_. EOF" length
  by unfold_locales (auto simp: bytes_Read_def split: if_splits)

section \<open>\<open>io.LimitReader\<close> and \<open>io.MultiReader\<close>\<close>

record 's LimitedReader =
  lim_R :: 's
  lim_N :: int

definition LimitedReader_Read :: "'s rd \<Rightarrow> 's LimitedReader rd" where
  "LimitedReader_Read rd l m =
     (if lim_N l \<le> 0 then Some ([], Some EOF, l)
      else do { let p = (if int m > lim_N l then nat (lim_N l) else m);
                (bs, e, s') \<leftarrow> rd (lim_R l) p;
                Some (bs, e, l\<lparr>lim_R := s', lim_N := lim_N l - int (length bs)\<rparr>) })"

text \<open>\<open>io.MultiReader(&buf, src)\<close>: the buffer's bytes first, then the source.\<close>

datatype 's multiReader = MultiBuf bytes 's | MultiSrc 's

definition multiReader_Read :: "'s rd \<Rightarrow> 's multiReader rd" where
  "multiReader_Read rd u m =
     (let onSrc = (\<lambda>s. do { (bs, e, s') \<leftarrow> rd s m; Some (bs, e, MultiSrc s') }) in
      case u of
        MultiBuf b s \<Rightarrow> if b = [] then onSrc s else Some (take m b, None, MultiBuf (drop m b) s)
      | MultiSrc s \<Rightarrow> onSrc s)"

text \<open>The source of a multi-reader, whichever of the two is being read.\<close>

fun multi_src :: "'s multiReader \<Rightarrow> 's" where
  "multi_src (MultiBuf b s) = s"
| "multi_src (MultiSrc s) = s"

context stream_reader
begin

lemma advances_content:
  "advances rd s d s' \<Longrightarrow> ok s \<Longrightarrow> ok s' \<and> rest s = d @ rest s' \<and> fin s' = fin s"
proof (induction rule: advances.induct)
  case (advances_none s)
  then show ?case by simp
next
  case (advances_step m s bs s' d s'')
  then show ?case using more [of s m bs s'] by simp
qed

text \<open>
  A complete reading under \<open>io.LimitReader\<close> is a complete reading of the stream within the limit, or
  stops at the limit with the stream where it is.
\<close>

lemma LimitedReader_drains:
  "drains (LimitedReader_Read rd) l d e l' \<Longrightarrow> ok (lim_R l) \<Longrightarrow> 0 \<le> lim_N l \<Longrightarrow>
     (drains rd (lim_R l) d e (lim_R l') \<and> int (length d) \<le> lim_N l) \<or>
     (advances rd (lim_R l) d (lim_R l') \<and> int (length d) = lim_N l \<and> e = EOF)"
proof (induction rule: drains.induct)
  case (drains_stop m l bs e l')
  show ?case
  proof (cases "lim_N l \<le> 0")
    case True
    with drains_stop show ?thesis by (auto simp: LimitedReader_Read_def intro: advances_none)
  next
    case False
    define p where "p = (if int m > lim_N l then nat (lim_N l) else m)"
    with False drains_stop(1) have p: "0 < p" "int p \<le> lim_N l" by auto
    from drains_stop(2) False have "rd (lim_R l) p = Some (bs, Some e, lim_R l')"
      by (auto simp: LimitedReader_Read_def bind_eq_Some_conv p_def)
    with p drains_stop(3) show ?thesis
      using bounded [of "lim_R l" p] by (fastforce intro: drains.drains_stop)
  qed
next
  case (drains_more m l bs l1 d e l')
  define p where "p = (if int m > lim_N l then nat (lim_N l) else m)"
  from drains_more(2) have pos: "0 < lim_N l" by (auto simp: LimitedReader_Read_def split: if_splits)
  with drains_more(1) have p: "0 < p" "int p \<le> lim_N l" by (auto simp: p_def)
  from drains_more(2) pos have rd: "rd (lim_R l) p = Some (bs, None, lim_R l1)"
    and n: "lim_N l1 = lim_N l - int (length bs)"
    by (auto simp: LimitedReader_Read_def bind_eq_Some_conv p_def)
  have l: "length bs \<le> p" using bounded [OF drains_more(5) p(1) rd] .
  from more [OF drains_more(5) p(1) rd] drains_more.IH n l p show ?case
    by (auto intro: drains.drains_more [where rd = rd and m = p, OF p(1), OF rd]
        advances_step [where rd = rd and m = p, OF p(1), OF rd])
qed

lemma LimitedReader_total:
  "ok (lim_R l) \<Longrightarrow> \<exists>d e l'. readAll space (LimitedReader_Read rd) l acc = Some (acc @ d, e, l')"
  if space: "\<And>n. 0 < space n"
proof (induction "steps (lim_R l)" arbitrary: l acc rule: less_induct)
  case less
  show ?case
  proof (cases "lim_N l \<le> 0")
    case True
    then show ?thesis by (simp add: readAll.simps LimitedReader_Read_def)
  next
    case False
    let ?m = "space (length acc)"
    define p where "p = (if int ?m > lim_N l then nat (lim_N l) else ?m)"
    with False space have "0 < p" by auto
    with less.prems show ?thesis
    proof (cases rule: read_cases)
      case (more bs s')
      define l' where "l' = l\<lparr>lim_R := s', lim_N := lim_N l - int (length bs)\<rparr>"
      from more less.hyps [of l' "acc @ bs"] obtain d e t where
        "readAll space (LimitedReader_Read rd) l' (acc @ bs) = Some ((acc @ bs) @ d, e, t)"
        by (auto simp: l'_def)
      with more False show ?thesis
        by (simp add: readAll.simps [of _ _ l] LimitedReader_Read_def p_def [symmetric] Let_def l'_def)
    next
      case (stop s')
      with False show ?thesis
        by (simp add: readAll.simps [of _ _ l] LimitedReader_Read_def p_def [symmetric] Let_def)
    qed
  qed
qed

lemma multiReader_stream:
  "stream_reader (multiReader_Read rd) (\<lambda>u. ok (multi_src u))
     (\<lambda>u. case u of MultiBuf b s \<Rightarrow> b @ rest s | MultiSrc s \<Rightarrow> rest s)
     (\<lambda>u. fin (multi_src u))
     (\<lambda>u. case u of MultiBuf b s \<Rightarrow> length b + steps s | MultiSrc s \<Rightarrow> steps s)"
proof (unfold_locales, goal_cases)
  case (1 u m)
  then show ?case using returns [of "multi_src u" m]
    by (cases u) (auto simp: multiReader_Read_def)
next
  case (2 u m bs e u')
  then show ?case using bounded [of "multi_src u" m]
    by (cases u) (auto simp: multiReader_Read_def bind_eq_Some_conv split: if_splits)
next
  case (3 u m bs u')
  then show ?case using more [of "multi_src u" m]
    by (cases u) (auto simp: multiReader_Read_def bind_eq_Some_conv split: if_splits)
next
  case (4 u m bs e u')
  then show ?case using stop [of "multi_src u" m]
    by (cases u) (auto simp: multiReader_Read_def bind_eq_Some_conv split: if_splits)
qed

end

text \<open>Reading the rest of a multi-reader reads the rest of its source.\<close>

lemma multiReader_drains:
  "drains (multiReader_Read rd) u d e u' \<Longrightarrow>
     (case u of
        MultiBuf b s \<Rightarrow> \<exists>d'. d = b @ d' \<and> drains rd s d' e (multi_src u')
      | MultiSrc s \<Rightarrow> drains rd s d e (multi_src u'))"
proof (induction rule: drains.induct)
  case (drains_stop m u bs e u')
  then show ?case
    by (cases u) (auto simp: multiReader_Read_def bind_eq_Some_conv split: if_splits
        intro: drains.drains_stop)
next
  case (drains_more m u bs u1 d e u')
  show ?case
  proof (cases u)
    case (MultiSrc s)
    with drains_more show ?thesis
      by (auto simp: multiReader_Read_def bind_eq_Some_conv intro: drains.drains_more)
  next
    case (MultiBuf b s)
    with drains_more show ?thesis
      by (cases "b = []") (auto simp: multiReader_Read_def bind_eq_Some_conv intro: drains.drains_more
          simp flip: append_assoc)
  qed
qed

end
