(* ===== verification/S3_Put.thy ===== *)
theory S3_Put
  imports S3_Objects Sized_Body
begin

text \<open>
  \<open>s3/objects.go\<close>, Put: the reader \<open>bodyReader\<close> that counts a body and holds it to its declared
  size, the decision between one PutObject and a multipart upload, and what a failed upload
  reports.
\<close>

section \<open>bodyReader\<close>

record 'r bodyReader =
  br_r :: 'r
  br_size :: int
  br_n :: int
  br_err :: "err option"

definition newBodyReader :: "'r \<Rightarrow> int \<Rightarrow> 'r bodyReader" where
  "newBodyReader r sz = \<lparr>br_r = r, br_size = sz, br_n = 0, br_err = None\<rparr>"

definition bodyReader_Read :: "'r rd \<Rightarrow> 'r bodyReader rd" where
  "bodyReader_Read rd b m =
     (case br_err b of Some x \<Rightarrow> Some ([], Some x, b) | None \<Rightarrow>
      if br_size b > 0 \<and> br_n b \<ge> br_size b then
        do { (bs, e, r') \<leftarrow> readAtLeast rd 1 1 (br_r b) [];
             let b' = b\<lparr>br_r := r'\<rparr>;
             if bs \<noteq> [] then
               let x = longBody ''s3.bodyReader.Read'' (br_size b) in Some ([], Some x, b'\<lparr>br_err := Some x\<rparr>)
             else if e = Some EOF then Some ([], Some EOF, b')
             else Some ([], e, b'\<lparr>br_err := e\<rparr>) }
      else
        do { let remain = wrap64 (br_size b - br_n b);
             let p = (if br_size b > 0 \<and> int m > remain then nat remain else m);
             (bs, e, r') \<leftarrow> rd (br_r b) p;
             let n = wrap64 (br_n b + int (length bs));
             let e' = (if e = Some EOF \<and> br_size b > 0 \<and> n < br_size b
               then Some (shortBody ''s3.bodyReader.Read'' n (br_size b)) else e);
             Some (bs, e', b\<lparr>br_r := r', br_n := n,
               br_err := (if e' \<noteq> None \<and> e' \<noteq> Some EOF then e' else br_err b)\<rparr>) })"

lemma sized_eof: "longBody site z \<noteq> EOF" "shortBody site n z \<noteq> EOF"
  by (simp_all add: longBody_def shortBody_def newError_def EOF_def)

sublocale stream_reader \<subseteq> s3b: sized_reader rd ok rest fin steps "bodyReader_Read rd" br_r br_size br_n br_err
  "\<lambda>e. e = EOF" "''s3.bodyReader.Read''"
proof (unfold_locales, goal_cases)
  case (1 b x m)
  then show ?case by (simp add: bodyReader_Read_def)
next
  case (2 b m)
  show ?case
  proof (cases "br_n b = br_size b")
    case True
    from readAtLeast_one [OF 2(2)] obtain r' where
      "readAtLeast rd 1 1 (br_r b) [] =
        Some (take 1 (rest (br_r b)), if rest (br_r b) = [] then Some (fin (br_r b)) else None, r')" by blast
    with 2 True show ?thesis
      by (cases "rest (br_r b)"; cases "fin (br_r b) = EOF")
        (simp_all add: bodyReader_Read_def sized_rest_def sized_fin_def sized_eof Let_def)
  next
    case False
    define p where "p = (if int m > br_size b - br_n b then nat (br_size b - br_n b) else m)"
    have p: "0 < p" "p \<le> m" "int p \<le> br_size b - br_n b" using False 2 by (auto simp: p_def)
    have w: "wrap64 (br_size b - br_n b) = br_size b - br_n b" using 2 by (simp add: int64_def wrap64_id)
    from 2(2) p(1) show ?thesis
    proof (cases rule: read_cases)
      case (more bs r')
      have "wrap64 (br_n b + int (length bs)) = br_n b + int (length bs)"
        using 2 p more(6) by (intro wrap64_id) (auto simp: int64_def)
      with more 2 False w p show ?thesis by (simp add: bodyReader_Read_def p_def [symmetric] Let_def)
    next
      case (stop r')
      have "wrap64 (br_n b + int (length (rest (br_r b)))) = br_n b + int (length (rest (br_r b)))"
        using 2 p stop(2) by (intro wrap64_id) (auto simp: int64_def)
      with stop 2 False w p show ?thesis
        by (simp add: bodyReader_Read_def p_def [symmetric] sized_rest_def sized_fin_def sized_eof Let_def)
    qed
  qed
next
  case (3 b m)
  from 3(2,5) show ?case
  proof (cases rule: read_cases)
    case (more bs r')
    with 3 show ?thesis by (simp add: bodyReader_Read_def Let_def)
  next
    case (stop r')
    with 3 show ?thesis by (simp add: bodyReader_Read_def Let_def)
  qed
qed (simp_all add: sized_eof)

context stream_reader
begin

lemma newBodyReader_spec:
  assumes "ok b" and "int64 sz"
  shows "s3b.sb_inv (newBodyReader b sz)" "s3b.sb_rest (newBodyReader b sz) = sized_rest sz 0 (rest b)"
    "s3b.sb_fin (newBodyReader b sz) = sized_fin (\<lambda>e. e = EOF) ''s3.bodyReader.Read'' sz 0 (rest b) (fin b)"
    "br_err (newBodyReader b sz) = None" "br_n (newBodyReader b sz) = 0"
  using assms by (simp_all add: s3b.sb_inv_def s3b.sb_rest_def s3b.sb_fin_def newBodyReader_def int64_def)

text \<open>A complete reading of a body through the reader.\<close>

lemma bodyReader_drains:
  assumes ok: "ok b" and sz: "int64 sz" and dr: "drains (bodyReader_Read rd) (newBodyReader b sz) d e t"
  shows "d = sized_rest sz 0 (rest b)"
    "e = sized_fin (\<lambda>e. e = EOF) ''s3.bodyReader.Read'' sz 0 (rest b) (fin b)"
    "br_n t = wrap64 (int (length d))"
  using stream_reader.drains_content [OF s3b.sized_stream dr] s3b.sized_drains [OF dr]
    newBodyReader_spec [OF ok sz] by simp_all

end

text \<open>After its end, and no failure, the reader is at its end again.\<close>

context ended_reader
begin

lemma readAtLeast_ended:
  "ok s \<Longrightarrow> readAtLeast rd 1 1 s [] = Some (bs, Some EOF, s') \<Longrightarrow>
     bs = [] \<Longrightarrow> ok s' \<and> rest s' = [] \<and> fin s' = EOF"
proof (induction "steps s" arbitrary: s rule: less_induct)
  case less
  from \<open>ok s\<close> zero_less_one show ?case
  proof (cases rule: read_cases)
    case (more cs t)
    show ?thesis
    proof (cases cs)
      case Nil
      with more less show ?thesis by (simp add: readAtLeast.simps [of rd "Suc 0" "Suc 0" s])
    next
      case (Cons a as)
      with more less(3) show ?thesis
        by (simp add: readAtLeast.simps [of rd "Suc 0" "Suc 0" s] readAtLeast.simps [of rd "Suc 0" "Suc 0" t])
    qed
  next
    case (stop t)
    with less have "rd s 1 = Some ([], Some EOF, s')"
      by (cases "rest s") (simp_all add: readAtLeast.simps [of rd "Suc 0" "Suc 0" s])
    with less(2) show ?thesis using ended [of s 1] by simp
  qed
qed

lemma bodyReader_ended:
  assumes inv: "s3b.sb_inv b" and m: "0 < m" and rd: "bodyReader_Read rd b m = Some (bs, Some EOF, b')"
  shows "s3b.sb_inv b' \<and> s3b.sb_rest b' = [] \<and> s3b.sb_fin b' = EOF"
proof -
  from inv rd have live: "br_err b = None" "ok (br_r b)" "int64 (br_size b)" "int64 (br_n b)"
    and rng: "0 < br_size b \<longrightarrow> 0 \<le> br_n b \<and> br_n b \<le> br_size b"
    by (auto simp: s3b.sb_inv_def bodyReader_Read_def split: option.split_asm)
  show ?thesis
  proof (cases "br_size b > 0 \<and> br_n b \<ge> br_size b")
    case True
    with rd live(1) obtain r where "readAtLeast rd 1 1 (br_r b) [] = Some ([], Some EOF, r)"
      and b': "b' = b\<lparr>br_r := r\<rparr>"
      by (auto simp: bodyReader_Read_def bind_eq_Some_conv Let_def sized_eof split: if_splits)
    from readAtLeast_ended [OF live(2) this(1) refl] b' live rng True show ?thesis
      by (auto simp: s3b.sb_inv_def s3b.sb_rest_def s3b.sb_fin_def sized_rest_def sized_fin_def)
  next
    case False
    define p where "p = (if br_size b > 0 \<and> int m > wrap64 (br_size b - br_n b)
      then nat (wrap64 (br_size b - br_n b)) else m)"
    have p: "0 < p" using m False rng live by (auto simp: p_def int64_def wrap64_id)
    from rd live(1) False obtain r n where r: "rd (br_r b) p = Some (bs, Some EOF, r)"
      and n: "n = wrap64 (br_n b + int (length bs))" "\<not> (br_size b > 0 \<and> n < br_size b)"
      and b': "b' = b\<lparr>br_r := r, br_n := n, br_err := None\<rparr>"
      by (auto simp: bodyReader_Read_def bind_eq_Some_conv Let_def sized_eof p_def [symmetric] split: if_splits)
    have "n \<le> br_size b" if "0 < br_size b"
    proof -
      have "int p \<le> br_size b - br_n b" using that live rng by (auto simp: p_def int64_def wrap64_id)
      then have "br_n b + int (length bs) \<le> br_size b" using bounded [OF live(2) p r] by linarith
      then show ?thesis using n(1) that live rng by (simp add: int64_def wrap64_id)
    qed
    with ended [OF live(2) p r] b' live n show ?thesis
      by (auto simp: s3b.sb_inv_def s3b.sb_rest_def s3b.sb_fin_def sized_rest_def sized_fin_def wrap64_int64)
  qed
qed

lemma bodyReader_ended_reader:
  "ended_reader (bodyReader_Read rd) s3b.sb_inv s3b.sb_rest s3b.sb_fin s3b.sb_steps"
  by (intro ended_reader.intro ended_reader_axioms.intro s3b.sized_stream) (rule bodyReader_ended)

text \<open>The content of a body of a declared size, and what it ends with.\<close>

abbreviation body_content :: "int \<Rightarrow> 'a \<Rightarrow> bytes" where
  "body_content sz b \<equiv> sized_rest sz 0 (rest b)"

abbreviation body_end :: "int \<Rightarrow> 'a \<Rightarrow> err" where
  "body_end sz b \<equiv> sized_fin (\<lambda>e. e = EOF) ''s3.bodyReader.Read'' sz 0 (rest b) (fin b)"

lemma body_end_EOF:
  assumes "body_end sz b = EOF"
  shows "fin b = EOF" "body_content sz b = rest b" "0 < sz \<Longrightarrow> int (length (rest b)) = sz"
  using assms by (auto simp: sized_rest_def sized_fin_def sized_eof split: if_splits)

text \<open>
  Reading the first \<open>N\<close> bytes of the body: it fails with what the body ends with, or leaves the
  reader where the rest of the body is still to come, at its end when there were fewer.
\<close>

lemma read_part:
  assumes space: "\<And>n. 0 < space n" and ok: "ok b" and sz: "int64 sz" and N: "0 \<le> N"
    and ret: "readAll space (LimitedReader_Read (bodyReader_Read rd))
      \<lparr>lim_R = newBodyReader b sz, lim_N = N\<rparr> [] = Some (buf, e, l)"
  shows "case e of
      Some x \<Rightarrow> x = body_end sz b \<and> x \<noteq> EOF
    | None \<Rightarrow> s3b.sb_inv (lim_R l) \<and> br_err (lim_R l) = None \<and>
        body_content sz b = buf @ s3b.sb_rest (lim_R l) \<and> s3b.sb_fin (lim_R l) = body_end sz b \<and>
        br_n (lim_R l) = wrap64 (int (length buf)) \<and> int (length buf) \<le> N \<and>
        (int (length buf) < N \<longrightarrow> s3b.sb_rest (lim_R l) = [] \<and> body_end sz b = EOF)"
proof -
  note new = newBodyReader_spec [OF ok sz]
  from readAll_drains [OF space ret] obtain x where
    x: "drains (LimitedReader_Read (bodyReader_Read rd)) \<lparr>lim_R = newBodyReader b sz, lim_N = N\<rparr> buf x l"
    and e: "e = (if x = EOF then None else Some x)" by auto
  from stream_reader.LimitedReader_drains [OF s3b.sized_stream x] new(1) N
  consider (whole) "drains (bodyReader_Read rd) (newBodyReader b sz) buf x (lim_R l)" "int (length buf) \<le> N"
    | (part) "advances (bodyReader_Read rd) (newBodyReader b sz) buf (lim_R l)" "int (length buf) = N" "x = EOF"
    by auto
  then show ?thesis
  proof cases
    case whole
    from stream_reader.drains_content [OF s3b.sized_stream whole(1) new(1)] new
    have c: "buf = body_content sz b" "x = body_end sz b" by simp_all
    show ?thesis
    proof (cases "x = EOF")
      case True
      from ended_reader.ended_drains [OF bodyReader_ended_reader whole(1) new(1) True]
        s3b.sized_drains [OF whole(1) new(1,4)] new(5) True c e whole(2)
      show ?thesis by simp
    qed (use c e in simp)
  next
    case part
    from stream_reader.advances_content [OF s3b.sized_stream part(1) new(1)]
      s3b.sized_advances [OF part(1) new(1,4)] new part(2,3) e
    show ?thesis by simp
  qed
qed

end

section \<open>Put\<close>

text \<open>
  \<open>failedUpload\<close> and \<open>abortUpload\<close>. The repeated abort has a context of its own, with a deadline from
  the time \<open>now\<close> only.
\<close>

definition withoutCancel :: "ctx \<Rightarrow> ctx" where
  "withoutCancel x = \<lparr>ctx_deadline = None, ctx_err = None\<rparr>"

definition abortUpload ::
  "('s, 'u, 'g) S3API \<Rightarrow> s3_Client \<Rightarrow> time \<Rightarrow> 's \<Rightarrow> ctx \<Rightarrow> string \<Rightarrow> string \<Rightarrow> err option \<times> 's" where
  "abortUpload api c now s x key uploadId =
     (let (e, s') = api_AbortMultipartUpload api s (withTimeout now (withoutCancel x) abortTimeout)
            (s3_bucket c) key uploadId in
      if e \<noteq> None \<and> errorCode e \<noteq> ''NoSuchUpload'' then (s3_classify e, s') else (None, s'))"

definition failedUpload ::
  "('s, 'u, 'g) S3API \<Rightarrow> s3_Client \<Rightarrow> time \<Rightarrow> 's \<Rightarrow> ctx \<Rightarrow> string \<Rightarrow> 'r bodyReader \<Rightarrow> err \<Rightarrow> err \<times> 's" where
  "failedUpload api c now s x key src err =
     (let (abortErr, s') =
            (case errors_As uploadID err of
               Some upload \<Rightarrow> if upload \<noteq> [] then abortUpload api c now s x key upload else (None, s)
             | None \<Rightarrow> (None, s));
          err' = (case br_err src of
               Some b \<Rightarrow> Errorf ''s3.Client.failedUpload'' ''s3: read body: %w'' [] [b] []
             | None \<Rightarrow> Errorf ''s3.Client.failedUpload'' ''s3: %w'' [] [s3_classifyErr err] []) in
      case abortErr of
        Some a \<Rightarrow> (Errorf ''s3.Client.failedUpload''
            ''%w (abort of multipart upload failed, parts may remain: %v)'' [] [err'] [a], s')
      | None \<Rightarrow> (err', s'))"

text \<open>What Put reports after the write: the metadata, with the time of a HeadObject or of the answer.\<close>

definition putObject ::
  "('s, 'u, 'g) S3API \<Rightarrow> s3_Client \<Rightarrow> 's \<Rightarrow> ctx \<Rightarrow> string \<Rightarrow> string \<Rightarrow> putOut \<Rightarrow> int \<Rightarrow> Object \<times> 's" where
  "putObject api c s x key contentType out n =
     (let tag = s3_entityTag (out_ETag out);
          (head, s') = api_HeadObject api s x (s3_bucket c) key;
          date = (case out_date out of Some d \<Rightarrow> toUTC d | None \<Rightarrow> zeroTime);
          modified = (case head of
              Inr h \<Rightarrow> if s3_entityTag (head_ETag h) = tag then toUTC (toTime (head_LastModified h)) else date
            | Inl _ \<Rightarrow> date) in
      (\<lparr>obj_Key = key, obj_Size = n, obj_ContentType = contentType, obj_ETag = tag,
        obj_ModifiedAt = modified\<rparr>, s'))"

text \<open>
  \<open>buf.ReadFrom\<close> reads until the end, growing its buffer as \<open>space\<close> says. The body of a multipart
  upload is the multi-reader over the buffer and the body reader.
\<close>

definition s3_Put ::
  "(nat \<Rightarrow> nat) \<Rightarrow> 'b rd \<Rightarrow> ('s, 'b bodyReader multiReader, 'g) S3API \<Rightarrow> s3_Client \<Rightarrow> time \<Rightarrow>
   's \<Rightarrow> ctx \<Rightarrow> string \<Rightarrow> 'b \<Rightarrow> PutOptions \<Rightarrow> ((err + Object) \<times> 's \<times> 'b) option" where
  "s3_Put space brd api c now s x key body opts =
     (case s3_validateKey key of Some e \<Rightarrow> Some (Inl e, s, body) | None \<Rightarrow>
      let contentType = (if po_ContentType opts = [] then defaultContentType else po_ContentType opts);
          limited = \<lparr>lim_R = newBodyReader body (po_Size opts), lim_N = wrap64 (s3_partSize c + 1)\<rparr> in
      do { (buf, e, limited') \<leftarrow> readAll space (LimitedReader_Read (bodyReader_Read brd)) limited [];
           let src = lim_R limited';
           (case e of
              Some err \<Rightarrow> Some (Inl (Errorf ''s3.Client.Put'' ''s3: read body: %w'' [] [err] []), s, br_r src)
            | None \<Rightarrow>
              if int (length buf) \<le> s3_partSize c then
                (case api_PutObject api s x (s3_bucket c) key buf (int (length buf)) contentType of
                   (Inl err, s1) \<Rightarrow> Some (Inl (s3_classifyErr err), s1, br_r src)
                 | (Inr out, s1) \<Rightarrow>
                   let (obj, s2) = putObject api c s1 x key contentType out (br_n src) in
                   Some (Inr obj, s2, br_r src))
              else
                do { (r, s1, u) \<leftarrow> api_UploadObject api s x (s3_bucket c) key (MultiBuf buf src)
                       (if po_Size opts > 0 then Some (po_Size opts) else None) contentType;
                     let src' = multi_src u;
                     (case r of
                        Inl err \<Rightarrow>
                          let (e, s2) = failedUpload api c now s1 x key src' err in Some (Inl e, s2, br_r src')
                      | Inr out \<Rightarrow>
                          let (obj, s2) = putObject api c s1 x key contentType out (br_n src') in
                          Some (Inr obj, s2, br_r src')) }) })"

section \<open>The service a Put writes to\<close>

text \<open>
  What S3 documents of the calls Put makes, over \<open>stored\<close>, the content at each key of the bucket: a
  PutObject that succeeds stores its body; an upload that succeeds has read its body to the end and
  stores what it read; one that fails has stored all of it, when only its answer was lost, or
  nothing; HeadObject and AbortMultipartUpload store nothing.
\<close>

definition s3_writes ::
  "('s, 'u, 'g) S3API \<Rightarrow> 'u rd \<Rightarrow> string \<Rightarrow> ('s \<Rightarrow> string \<rightharpoonup> bytes) \<Rightarrow> bool" where
  "s3_writes api urd bucket stored \<longleftrightarrow>
     (\<forall>s x k d n t r s'. api_PutObject api s x bucket k d n t = (r, s') \<longrightarrow>
        stored s' = (stored s)(k \<mapsto> d) \<or> (isl r \<and> stored s' = stored s)) \<and>
     (\<forall>s x k u n t r s' u'. api_UploadObject api s x bucket k u n t = Some (r, s', u') \<longrightarrow>
        (\<exists>d. drains urd u d EOF u' \<and> stored s' = (stored s)(k \<mapsto> d)) \<or> (isl r \<and> stored s' = stored s)) \<and>
     (\<forall>s x k. stored (snd (api_HeadObject api s x bucket k)) = stored s) \<and>
     (\<forall>s x k u. stored (snd (api_AbortMultipartUpload api s x bucket k u)) = stored s)"

lemma s3_writes_put:
  assumes "s3_writes api urd bucket stored" and "api_PutObject api s x bucket k d n t = (r, s')"
  shows "stored s' = (stored s)(k \<mapsto> d) \<or> (isl r \<and> stored s' = stored s)"
  by (rule conjunct1 [OF assms(1) [unfolded s3_writes_def], rule_format, OF assms(2)])

lemma s3_writes_upload:
  assumes "s3_writes api urd bucket stored" and "api_UploadObject api s x bucket k u n t = Some (r, s', u')"
  shows "(\<exists>d. drains urd u d EOF u' \<and> stored s' = (stored s)(k \<mapsto> d)) \<or> (isl r \<and> stored s' = stored s)"
  by (rule conjunct1 [OF conjunct2 [OF assms(1) [unfolded s3_writes_def]], rule_format, OF assms(2)])

lemma s3_writes_putObject:
  assumes "s3_writes api urd (s3_bucket c) stored" and "putObject api c s x key ct out n = (obj, s')"
  shows "stored s' = stored s \<and> obj_Key obj = key \<and> obj_Size obj = n \<and> obj_ContentType obj = ct \<and>
    quoteTag (obj_ETag obj) = obj_ETag obj \<and> loc (obj_ModifiedAt obj) = UTC"
proof (cases "api_HeadObject api s x (s3_bucket c) key")
  case (Pair head s1)
  from assms(1) have "stored (snd (api_HeadObject api s x (s3_bucket c) key)) = stored s"
    unfolding s3_writes_def by blast
  with Pair have "stored s1 = stored s" by simp
  with Pair assms(2) show ?thesis
    by (auto simp: putObject_def Let_def s3_entityTag_def zeroTime_def split: sum.split option.split)
qed

lemma s3_writes_failedUpload:
  assumes "s3_writes api urd (s3_bucket c) stored" and "failedUpload api c now s x key src err = (e, s')"
  shows "stored s' = stored s"
proof -
  have abort: "stored (snd (api_AbortMultipartUpload api t y (s3_bucket c) k u)) = stored t" for t y k u
    using assms(1) unfolding s3_writes_def by blast
  have "stored (snd (abortUpload api c now s x key u)) = stored s" for u
    using abort by (auto simp: abortUpload_def Let_def split: prod.split) (metis snd_conv)+
  with assms(2) show ?thesis
    by (auto simp: failedUpload_def Let_def split: option.split_asm prod.split_asm if_splits) (metis snd_conv)+
qed

context ended_reader
begin

text \<open>The two ways a Put ends once the first part is read, and what the service then holds.\<close>

lemma s3_Put_cases:
  assumes space: "\<And>n. 0 < space n" and ok: "ok body" and sz: "int64 (po_Size opts)"
    and part: "0 \<le> s3_partSize c" "s3_partSize c < maxInt64"
    and key: "s3_validateKey key = None"
  obtains (failed) b' where
      "s3_Put space rd api c now s x key body opts =
        Some (Inl (Errorf ''s3.Client.Put'' ''s3: read body: %w'' [] [body_end (po_Size opts) body] []), s, b')"
      "body_end (po_Size opts) body \<noteq> EOF"
  | (one) src :: "'a bodyReader" where
      "s3_Put space rd api c now s x key body opts =
        (case api_PutObject api s x (s3_bucket c) key (rest body) (int (length (rest body))) (storedType opts) of
           (Inl err, s1) \<Rightarrow> Some (Inl (s3_classifyErr err), s1, br_r src)
         | (Inr out, s1) \<Rightarrow>
           let (obj, s2) = putObject api c s1 x key (storedType opts) out (int (length (rest body))) in
           Some (Inr obj, s2, br_r src))"
      "int (length (rest body)) \<le> s3_partSize c" "body_end (po_Size opts) body = EOF"
  | (parts) buf and src :: "'a bodyReader" where
      "s3_Put space rd api c now s x key body opts =
        do { (r, s1, u) \<leftarrow> api_UploadObject api s x (s3_bucket c) key (MultiBuf buf src)
               (if po_Size opts > 0 then Some (po_Size opts) else None) (storedType opts);
             let src' = multi_src u;
             (case r of
                Inl err \<Rightarrow> let (e, s2) = failedUpload api c now s1 x key src' err in Some (Inl e, s2, br_r src')
              | Inr out \<Rightarrow>
                  let (obj, s2) = putObject api c s1 x key (storedType opts) out (br_n src') in
                  Some (Inr obj, s2, br_r src')) }"
      "s3_partSize c < int (length buf)" "s3b.sb_inv src" "br_err src = None"
      "br_n src = wrap64 (int (length buf))"
      "body_content (po_Size opts) body = buf @ s3b.sb_rest src" "s3b.sb_fin src = body_end (po_Size opts) body"
proof -
  have N: "wrap64 (s3_partSize c + 1) = s3_partSize c + 1" "0 \<le> s3_partSize c + 1"
    using part by (simp_all add: wrap64_id)
  note new = newBodyReader_spec [OF ok sz]
  let ?lim = "\<lparr>lim_R = newBodyReader body (po_Size opts), lim_N = s3_partSize c + 1\<rparr>"
  obtain buf e l where ret: "readAll space (LimitedReader_Read (bodyReader_Read rd)) ?lim [] = Some (buf, e, l)"
    using stream_reader.LimitedReader_total [OF s3b.sized_stream, of space ?lim "[]"] space new(1) by auto
  note part_read = read_part [OF space ok sz N(2) ret]
  show thesis
  proof (cases e)
    case (Some err)
    from part_read [unfolded Some option.case] have "err = body_end (po_Size opts) body" "err \<noteq> EOF" by blast+
    with ret key N Some show thesis by (intro failed [of "br_r (lim_R l)"]) (simp_all add: s3_Put_def)
  next
    case None
    note p = part_read [unfolded None option.case]
    show thesis
    proof (cases "int (length buf) \<le> s3_partSize c")
      case True
      with p have eof: "body_end (po_Size opts) body = EOF" "buf = body_content (po_Size opts) body"
        by simp_all
      with body_end_EOF(2) [OF eof(1)] have buf: "buf = rest body" by simp
      from True part have "wrap64 (int (length buf)) = int (length buf)" by (simp add: wrap64_id)
      with p have n: "br_n (lim_R l) = int (length (rest body))" using buf by simp
      show thesis
      proof (rule one [of "lim_R l"])
        show "s3_Put space rd api c now s x key body opts =
          (case api_PutObject api s x (s3_bucket c) key (rest body) (int (length (rest body))) (storedType opts) of
             (Inl err, s1) \<Rightarrow> Some (Inl (s3_classifyErr err), s1, br_r (lim_R l))
           | (Inr out, s1) \<Rightarrow>
             let (obj, s2) = putObject api c s1 x key (storedType opts) out (int (length (rest body))) in
             Some (Inr obj, s2, br_r (lim_R l)))"
          unfolding s3_Put_def key option.case storedType_def [symmetric] Let_def N(1) ret n [symmetric]
          using None True buf n by simp
      qed (use True buf eof in simp_all)
    next
      case False
      with ret key N None p show thesis
        by (intro parts [of buf "lim_R l"]) (simp_all add: s3_Put_def storedType_def [symmetric] Let_def)
    qed
  qed
qed

lemma s3_Put_stores:
  assumes space: "\<And>n. 0 < space n" and ok: "ok body" and sz: "int64 (po_Size opts)"
    and part: "0 \<le> s3_partSize c" "s3_partSize c < maxInt64"
    and key: "s3_validateKey key = None"
    and doc: "s3_writes api (multiReader_Read (bodyReader_Read rd)) (s3_bucket c) stored"
    and put: "s3_Put space rd api c now s x key body opts = Some (r, s', b')"
  shows "stored s' = (stored s)(key \<mapsto> rest body) \<and> body_end (po_Size opts) body = EOF \<or>
    (isl r \<and> stored s' = stored s)"
    and "r = Inr obj \<Longrightarrow> obj_Key obj = key \<and> obj_Size obj = wrap64 (int (length (rest body))) \<and>
      obj_ContentType obj = storedType opts \<and> quoteTag (obj_ETag obj) = obj_ETag obj \<and>
      loc (obj_ModifiedAt obj) = UTC"
proof -
  let ?whole = "stored s' = (stored s)(key \<mapsto> rest body) \<and> body_end (po_Size opts) body = EOF"
  let ?meta = "\<lambda>obj. obj_Key obj = key \<and> obj_Size obj = wrap64 (int (length (rest body))) \<and>
      obj_ContentType obj = storedType opts \<and> quoteTag (obj_ETag obj) = obj_ETag obj \<and>
      loc (obj_ModifiedAt obj) = UTC"
  have "(?whole \<or> (isl r \<and> stored s' = stored s)) \<and> (\<forall>obj. r = Inr obj \<longrightarrow> ?meta obj)"
    using space ok sz part key
  proof (cases rule: s3_Put_cases [where space = space and body = body and opts = opts and c = c and key = key
        and api = api and now = now and s = s and x = x])
    case (failed b)
    with put show ?thesis by auto
  next
    case (one src)
    obtain q s1 where q: "api_PutObject api s x (s3_bucket c) key (rest body) (int (length (rest body)))
      (storedType opts) = (q, s1)" by fastforce
    note w = s3_writes_put [OF doc q]
    from one(2) part have len: "wrap64 (int (length (rest body))) = int (length (rest body))"
      by (simp add: wrap64_id)
    show ?thesis
    proof (cases q)
      case (Inl err)
      with put one q w show ?thesis by auto
    next
      case (Inr out)
      obtain obj s2 where o: "putObject api c s1 x key (storedType opts) out (int (length (rest body))) = (obj, s2)"
        by fastforce
      with put one(1) q Inr have "r = Inr obj" "s' = s2" by simp_all
      with s3_writes_putObject [OF doc o] w one(3) Inr len show ?thesis by auto
    qed
  next
    case (parts buf src)
    from put parts(1) obtain q s1 u where
      q: "api_UploadObject api s x (s3_bucket c) key (MultiBuf buf src)
        (if po_Size opts > 0 then Some (po_Size opts) else None) (storedType opts) = Some (q, s1, u)"
      by (auto simp: bind_eq_Some_conv)
    have read: "d = rest body \<and> body_end (po_Size opts) body = EOF \<and>
        br_n (multi_src u) = wrap64 (int (length (rest body)))"
      if "drains (multiReader_Read (bodyReader_Read rd)) (MultiBuf buf src) d EOF u" for d
    proof -
      from multiReader_drains [OF that] obtain d' where d': "d = buf @ d'"
        "drains (bodyReader_Read rd) src d' EOF (multi_src u)" by auto
      from stream_reader.drains_content [OF s3b.sized_stream d'(2) parts(3)] parts(6,7) d'(1)
      have c: "d = body_content (po_Size opts) body" "body_end (po_Size opts) body = EOF" by simp_all
      from s3b.sized_drains [OF d'(2) parts(3,4)] parts(5) d'(1)
      have "br_n (multi_src u) = wrap64 (int (length d))" by (simp add: wrap64_add)
      with c body_end_EOF(2) [OF c(2)] show ?thesis by simp
    qed
    note w = s3_writes_upload [OF doc q]
    show ?thesis
    proof (cases q)
      case (Inl err)
      obtain e s2 where f: "failedUpload api c now s1 x key (multi_src u) err = (e, s2)" by fastforce
      with put parts(1) q Inl have "r = Inl e" "s' = s2" by simp_all
      with s3_writes_failedUpload [OF doc f] w read show ?thesis by auto
    next
      case (Inr out)
      obtain obj s2 where o: "putObject api c s1 x key (storedType opts) out (br_n (multi_src u)) = (obj, s2)"
        by fastforce
      with put parts(1) q Inr have "r = Inr obj" "s' = s2" by simp_all
      with s3_writes_putObject [OF doc o] w read Inr show ?thesis by auto
    qed
  qed
  then show "?whole \<or> (isl r \<and> stored s' = stored s)" "r = Inr obj \<Longrightarrow> ?meta obj" by blast+
qed

text \<open>A body whose content fits in a part: no request when it fails, one when it ends well.\<close>

lemma s3_Put_fits:
  assumes space: "\<And>n. 0 < space n" and ok: "ok body" and sz: "int64 (po_Size opts)"
    and part: "0 \<le> s3_partSize c" "s3_partSize c < maxInt64"
    and key: "s3_validateKey key = None"
    and fits: "int (length (body_content (po_Size opts) body)) \<le> s3_partSize c"
  shows "\<exists>b'. s3_Put space rd api c now s x key body opts =
    (if body_end (po_Size opts) body \<noteq> EOF then
       Some (Inl (Errorf ''s3.Client.Put'' ''s3: read body: %w'' [] [body_end (po_Size opts) body] []), s, b')
     else case api_PutObject api s x (s3_bucket c) key (rest body) (int (length (rest body))) (storedType opts) of
       (Inl err, s1) \<Rightarrow> Some (Inl (s3_classifyErr err), s1, b')
     | (Inr out, s1) \<Rightarrow>
       let (obj, s2) = putObject api c s1 x key (storedType opts) out (int (length (rest body))) in
       Some (Inr obj, s2, b'))"
  using space ok sz part key
proof (cases rule: s3_Put_cases [where space = space and body = body and opts = opts and c = c and key = key
      and api = api and now = now and s = s and x = x])
  case (failed b')
  then show ?thesis by auto
next
  case (one src)
  then show ?thesis by (intro exI [of _ "br_r src"]) simp
next
  case (parts buf src)
  with fits show ?thesis by simp
qed

end

section \<open>Properties\<close>

text \<open>A bucket in memory: the service of the witnesses.\<close>

definition memAPI :: "'u rd \<Rightarrow> (string \<rightharpoonup> bytes, 'u, 'g) S3API" where
  "memAPI urd =
     \<lparr>api_CreateBucket = (\<lambda>s x b r. (None, s)), api_HeadBucket = (\<lambda>s x b. (None, s)),
      api_PutObject = (\<lambda>s x b k d n t. (Inr \<lparr>out_ETag = Some ''t'', out_date = None\<rparr>, s(k \<mapsto> d))),
      api_UploadObject = (\<lambda>s x b k u n t.
        do { (d, e, u') \<leftarrow> readAll (\<lambda>_. 512) urd u [];
             Some (case e of
               None \<Rightarrow> (Inr \<lparr>out_ETag = Some ''t'', out_date = None\<rparr>, s(k \<mapsto> d), u')
             | Some err \<Rightarrow> (Inl err, s, u')) }),
      api_AbortMultipartUpload = (\<lambda>s x b k u. (None, s)), api_GetObject = (\<lambda>s x b k r. (Inl EOF, s)),
      api_HeadObject = (\<lambda>s x b k. (Inl EOF, s)), api_DeleteObject = (\<lambda>s x b k. (None, s(k := None))),
      api_ListObjectsV2 = (\<lambda>s x b p t n. (Inl EOF, s))\<rparr>"

lemma memAPI_writes: "s3_writes (memAPI urd) urd bucket (\<lambda>s. s)"
proof -
  have "\<exists>d. drains urd u d EOF u' \<and> s' = s(k \<mapsto> d)"
    if up: "api_UploadObject (memAPI urd) s x bucket k u n t = Some (r, s', u')" and "\<not> isl r"
    for s x k u n t r s' u'
  proof -
    from up obtain d e where d: "readAll (\<lambda>_. 512) urd u [] = Some (d, e, u')"
      by (auto simp: memAPI_def bind_eq_Some_conv split: option.split_asm)
    with up \<open>\<not> isl r\<close> have "e = None" "s' = s(k \<mapsto> d)" by (auto simp: memAPI_def split: option.split_asm)
    moreover from readAll_drains [OF _ d] this(1) have "drains urd u d EOF u'" by (auto split: if_splits)
    ultimately show ?thesis by blast
  qed
  moreover have "s' = s" if "api_UploadObject (memAPI urd) s x bucket k u n t = Some (r, s', u')" "isl r"
    for s x k u n t r s' u'
    using that by (auto simp: memAPI_def bind_eq_Some_conv split: option.split_asm)
  ultimately have up: "(\<exists>d. drains urd u d EOF u' \<and> s' = s(k \<mapsto> d)) \<or> isl r \<and> s' = s"
    if "api_UploadObject (memAPI urd) s x bucket k u n t = Some (r, s', u')" for s x k u n t r s' u'
    using that by metis
  show ?thesis unfolding s3_writes_def
  proof (intro conjI allI impI, goal_cases)
    case (2 s x k u n t r s' u')
    then show ?case by (rule up)
  qed (simp_all add: memAPI_def)
qed

text \<open>
  C3: Put is all or nothing and never truncates. Over a service that behaves as S3 documents, a Put
  that succeeds has stored exactly the body, in one request or in parts, and the body ended well and
  has the declared size when one is declared; it reports the key, the type and the number of bytes,
  a tag in entity-tag form and a UTC time. One that fails has changed nothing, or, when only the
  answer was lost, stored the whole body; a body that fails or misses its declared size is never
  stored, not even in part.
\<close>

theorem s3_Put_whole:
  assumes body: "ended_reader rd ok rest fin steps" "ok body" and space: "\<And>n. 0 < space n"
    and rng: "int64 (po_Size opts)" "0 \<le> s3_partSize c" "s3_partSize c < maxInt64"
    and key: "s3_validateKey key = None"
    and doc: "s3_writes api (multiReader_Read (bodyReader_Read rd)) (s3_bucket c) stored"
    and put: "s3_Put space rd api c now s x key body opts = Some (r, s', b')"
  shows "(case r of
      Inr obj \<Rightarrow> stored s' = (stored s)(key \<mapsto> rest body) \<and> obj_Key obj = key \<and>
        obj_Size obj = wrap64 (int (length (rest body))) \<and> obj_ContentType obj = storedType opts \<and>
        quoteTag (obj_ETag obj) = obj_ETag obj \<and> loc (obj_ModifiedAt obj) = UTC
    | Inl e \<Rightarrow> stored s' = stored s \<or> stored s' = (stored s)(key \<mapsto> rest body)) \<and>
    (stored s' \<noteq> stored s \<longrightarrow> fin body = EOF \<and>
      (0 < po_Size opts \<longrightarrow> int (length (rest body)) = po_Size opts))"
proof -
  note stores = ended_reader.s3_Put_stores [OF body(1) space body(2) rng key doc put]
  note eof = ended_reader.body_end_EOF [OF body(1)]
  have "stored s' \<noteq> stored s \<longrightarrow> fin body = EOF \<and>
      (0 < po_Size opts \<longrightarrow> int (length (rest body)) = po_Size opts)"
    using stores(1) eof by blast
  moreover have "case r of
      Inr obj \<Rightarrow> stored s' = (stored s)(key \<mapsto> rest body) \<and> obj_Key obj = key \<and>
        obj_Size obj = wrap64 (int (length (rest body))) \<and> obj_ContentType obj = storedType opts \<and>
        quoteTag (obj_ETag obj) = obj_ETag obj \<and> loc (obj_ModifiedAt obj) = UTC
    | Inl e \<Rightarrow> stored s' = stored s \<or> stored s' = (stored s)(key \<mapsto> rest body)"
    using stores by (cases r) auto
  ultimately show ?thesis by blast
qed

abbreviation sample_opts :: "int \<Rightarrow> PutOptions" where
  "sample_opts n \<equiv> \<lparr>po_ContentType = [], po_Size = n\<rparr>"

lemma sample_s3_Put:
  "\<exists>obj s' b'. s3_Put (\<lambda>_. 512) bytes_Read (memAPI (multiReader_Read (bodyReader_Read bytes_Read)) ::
     (string \<rightharpoonup> bytes, bytes bodyReader multiReader, unit) S3API) sample_s3 zeroTime Map.empty background ''k''
     ''hello'' (sample_opts 5) = Some (Inr obj, s', b')"
  using bytes_ended.s3_Put_fits [where space = "\<lambda>_. 512" and opts = "sample_opts 5" and c = sample_s3
      and body = "''hello''" and key = "''k''" and now = zeroTime and s = Map.empty and x = background
      and api = "memAPI (multiReader_Read (bodyReader_Read bytes_Read)) ::
        (string \<rightharpoonup> bytes, bytes bodyReader multiReader, unit) S3API"]
  by (auto simp: s3_validateKey_k sample_s3_def int64_def sized_rest_def sized_fin_def memAPI_def
      split: prod.split)

theorem s3_Put_whole_witness:
  "\<exists>obj s' b'. s3_Put (\<lambda>_. 512) bytes_Read (memAPI (multiReader_Read (bodyReader_Read bytes_Read)) ::
     (string \<rightharpoonup> bytes, bytes bodyReader multiReader, unit) S3API) sample_s3 zeroTime Map.empty background ''k''
     ''hello'' (sample_opts 5) = Some (Inr obj, s', b') \<and> s' = [''k'' \<mapsto> ''hello''] \<and> obj_Size obj = 5"
proof -
  from sample_s3_Put obtain obj s' b' where put: "s3_Put (\<lambda>_. 512) bytes_Read
      (memAPI (multiReader_Read (bodyReader_Read bytes_Read)) ::
     (string \<rightharpoonup> bytes, bytes bodyReader multiReader, unit) S3API) sample_s3 zeroTime Map.empty background ''k''
     ''hello'' (sample_opts 5) = Some (Inr obj, s', b')" by (elim exE) (rule that)
  have rng: "int64 (po_Size (sample_opts 5))" "0 \<le> s3_partSize sample_s3" "s3_partSize sample_s3 < maxInt64"
    by (simp_all add: int64_def sample_s3_def)
  from s3_Put_whole [OF bytes_ended.ended_reader_axioms TrueI _ rng s3_validateKey_k memAPI_writes put]
  have "s' = [''k'' \<mapsto> ''hello'']" "obj_Size obj = 5" by (simp_all add: wrap64_def)
  with put show ?thesis by blast
qed

text \<open>
  C15: what Put does with a body that fits in a part. It always returns. A body that is longer than
  its declared size, that fails with an error of its own, or that is shorter than declared sends no
  request, and Put's error wraps exactly that failure and no other: the error of the body itself, never
  classified, or the one that names the size, which matches \<open>io.ErrUnexpectedEOF\<close> for a short body.
  Otherwise one PutObject carries exactly the body with its length, and its failure is classified.
\<close>

theorem s3_Put_small:
  assumes body: "ended_reader rd ok rest fin steps" "ok body" and space: "\<And>n. 0 < space n"
    and rng: "int64 (po_Size opts)" "0 \<le> s3_partSize c" "s3_partSize c < maxInt64"
    and key: "s3_validateKey key = None"
    and fits: "int (length (sized_rest (po_Size opts) 0 (rest body))) \<le> s3_partSize c"
  shows "let sz = po_Size opts; n = int (length (rest body));
      failure = (if 0 < sz \<and> sz < n then longBody ''s3.bodyReader.Read'' sz
        else if 0 < sz \<and> fin body = EOF \<and> n < sz then shortBody ''s3.bodyReader.Read'' n sz
        else fin body)
    in \<exists>b'. s3_Put space rd api c now s x key body opts =
      (if failure \<noteq> EOF then
         Some (Inl (Errorf ''s3.Client.Put'' ''s3: read body: %w'' [] [failure] []), s, b')
       else case api_PutObject api s x (s3_bucket c) key (rest body) n (storedType opts) of
         (Inl err, s1) \<Rightarrow> Some (Inl (s3_classifyErr err), s1, b')
       | (Inr out, s1) \<Rightarrow>
         let (obj, s2) = putObject api c s1 x key (storedType opts) out n in Some (Inr obj, s2, b'))"
proof -
  let ?n = "int (length (rest body))"
  have failure: "(if 0 < po_Size opts \<and> po_Size opts < ?n then longBody ''s3.bodyReader.Read'' (po_Size opts)
      else if 0 < po_Size opts \<and> fin body = EOF \<and> ?n < po_Size opts
      then shortBody ''s3.bodyReader.Read'' ?n (po_Size opts) else fin body) =
    sized_fin (\<lambda>e. e = EOF) ''s3.bodyReader.Read'' (po_Size opts) 0 (rest body) (fin body)"
    by (simp add: sized_fin_def)
  from ended_reader.s3_Put_fits [where space = space and api = api and now = now and s = s and x = x,
      OF body(1) space body(2) rng key fits]
  show ?thesis unfolding Let_def failure .
qed

theorem s3_Put_small_witness:
  "\<exists>b'. s3_Put (\<lambda>_. 512) bytes_Read (sampleAPI None None ::
     (unit, bytes bodyReader multiReader, unit) S3API) sample_s3 zeroTime () background ''k'' ''hello''
     (sample_opts 7) = Some (Inl (Errorf ''s3.Client.Put'' ''s3: read body: %w'' []
       [shortBody ''s3.bodyReader.Read'' 5 7] []), (), b')"
proof -
  have rng: "int64 (po_Size (sample_opts 7))" "0 \<le> s3_partSize sample_s3" "s3_partSize sample_s3 < maxInt64"
    and fits: "int (length (sized_rest (po_Size (sample_opts 7)) 0 ''hello'')) \<le> s3_partSize sample_s3"
    by (simp_all add: int64_def sample_s3_def sized_rest_def)
  from s3_Put_small [where space = "\<lambda>_. 512" and api = "sampleAPI None None ::
      (unit, bytes bodyReader multiReader, unit) S3API" and now = zeroTime and s = "()" and x = background,
      OF bytes_ended.ended_reader_axioms TrueI _ rng s3_validateKey_k fits]
  show ?thesis by (simp add: sized_eof)
qed

text \<open>
  A failed multipart upload. The error matches what the body's own failure matches when the body
  failed, and what the classified failure of the upload matches otherwise; a repeated abort that
  fails is named but matches nothing, and no abort is sent for an upload without an ID.
\<close>

theorem failedUpload_reports:
  assumes "failedUpload api c now s x key src err = (e, s')"
  shows "(\<forall>t. is_var t \<longrightarrow> (errors_Is e t \<longleftrightarrow>
      (case br_err src of Some b \<Rightarrow> errors_Is b t | None \<Rightarrow> errors_Is (s3_classifyErr err) t))) \<and>
    (errors_As uploadID err = None \<or> errors_As uploadID err = Some [] \<longrightarrow> s' = s)"
  using assms
  by (cases "br_err src") (auto simp: failedUpload_def Let_def split: option.splits prod.splits if_splits)

theorem failedUpload_reports_witness:
  "\<exists>e. failedUpload (sampleAPI None None :: (unit, unit, unit) S3API) sample_s3 zeroTime () background ''k''
     ((newBodyReader () 0)\<lparr>br_err := Some ErrUnexpectedEOF\<rparr>) (answer 503 ''SlowDown'') = (e, ()) \<and>
     \<not> errors_Is e ErrUnavailable"
proof -
  let ?src = "(newBodyReader () 0)\<lparr>br_err := Some ErrUnexpectedEOF\<rparr>"
  obtain e where "failedUpload (sampleAPI None None :: (unit, unit, unit) S3API) sample_s3 zeroTime () background
    ''k'' ?src (answer 503 ''SlowDown'') = (e, ())" by (metis old.unit.exhaust prod.exhaust)
  with failedUpload_reports [OF this] show ?thesis by (intro exI [of _ e]) simp
qed

end
