(* ===== verification/S3_Get.thy ===== *)
theory S3_Get
  imports S3_Objects Go_Text
begin

text \<open>
  \<open>s3/objects.go\<close>, Get: the body that resumes a failed read with a ranged request, and its
  classification. A Read sends requests, so the state of the reader is the body and the service.
  \<open>grd\<close> reads the body of an answer and \<open>gclose\<close> closes it; \<open>ctxErr s\<close> is what the caller's context
  reports at the state \<open>s\<close>, since it may end while the body is read.
\<close>

section \<open>resumingBody\<close>

record 'g resumingBody =
  rb_key :: string
  rb_etag :: string
  rb_size :: int
  rb_retries :: int
  rb_offset :: int
  rb_lastErr :: "err option"
  rb_err :: "err option"
  rb_closed :: bool
  rb_body :: "'g option"

definition errBodyClosed :: err where
  "errBodyClosed = ErrVar ''s3.errBodyClosed'' ''s3: read of a closed Get body''"

text \<open>\<open>setCurrent\<close>: a body set after Close is closed at once.\<close>

definition setCurrent :: "('g \<Rightarrow> err option \<times> 'g) \<Rightarrow> 'g resumingBody \<Rightarrow> 'g option \<Rightarrow> 'g resumingBody" where
  "setCurrent gclose b body =
     (case body of
        Some g \<Rightarrow> if rb_closed b then b\<lparr>rb_body := Some (snd (gclose g))\<rparr> else b\<lparr>rb_body := Some g\<rparr>
      | None \<Rightarrow> b\<lparr>rb_body := None\<rparr>)"

definition resumable :: "('s \<Rightarrow> err option) \<Rightarrow> 'g resumingBody \<Rightarrow> 's \<Rightarrow> bool" where
  "resumable ctxErr b s \<longleftrightarrow>
     ctxErr s = None \<and> rb_etag b \<noteq> [] \<and> (rb_size b < 0 \<or> rb_offset b < rb_size b)"

text \<open>\<open>fmt.Sprintf("bytes %d-", offset)\<close>.\<close>

definition rangeStart :: "int \<Rightarrow> string" where
  "rangeStart offset = ''bytes '' @ showInt offset @ ''-''"

definition resume ::
  "('s, 'u, 'g) S3API \<Rightarrow> ('g \<Rightarrow> err option \<times> 'g) \<Rightarrow> s3_Client \<Rightarrow> ctx \<Rightarrow> 'g resumingBody \<Rightarrow> 's \<Rightarrow>
   (err + 'g) \<times> 'g resumingBody \<times> 's" where
  "resume api gclose c x b s =
     (case api_GetObject api s x (s3_bucket c) (rb_key b) (Some (rb_offset b, rb_etag b)) of
        (Inl err, s') \<Rightarrow>
          (Inl (Errorf ''s3.resumingBody.resume'' ''s3: resume read of %q at byte %d: %w''
             [VStr (rb_key b), VInt (rb_offset b)] [classifyResume err] []), b, s')
      | (Inr out, s') \<Rightarrow>
          if \<not> prefix (rangeStart (rb_offset b)) (toString (get_ContentRange out)) then
            (Inl (Errorf ''s3.resumingBody.resume''
               ''s3: resume read of %q at byte %d: answer's Content-Range is %q, not the range asked for: %w''
               [VStr (rb_key b), VInt (rb_offset b), VStr (toString (get_ContentRange out))]
               (case rb_lastErr b of Some e \<Rightarrow> [e] | None \<Rightarrow> []) []), b, s')
          else (Inr (get_Body out), setCurrent gclose b (Some (get_Body out)), s'))"

text \<open>
  The start of one turn of Read's loop: the reading is over, or goes on with an answer's body, which
  may be a new one.
\<close>

definition acquire ::
  "('s, 'u, 'g) S3API \<Rightarrow> ('g \<Rightarrow> err option \<times> 'g) \<Rightarrow> ('s \<Rightarrow> err option) \<Rightarrow> s3_Client \<Rightarrow> ctx \<Rightarrow> int \<Rightarrow>
   'g resumingBody \<Rightarrow> 's \<Rightarrow> (err option + 'g \<times> int) \<times> 'g resumingBody \<times> 's" where
  "acquire api gclose ctxErr c x resumes b s =
     (if rb_closed b then (Inl (Some errBodyClosed), b, s)
      else if rb_err b \<noteq> None then (Inl (rb_err b), b, s)
      else case rb_body b of
        Some g \<Rightarrow> (Inr (g, resumes), b, s)
      | None \<Rightarrow>
        if resumes = rb_retries b \<or> \<not> resumable ctxErr b s then
          (Inl (rb_lastErr b), b\<lparr>rb_err := rb_lastErr b\<rparr>, s)
        else case resume api gclose c x b s of
          (Inl e, b', s') \<Rightarrow> (Inl (Some e), b'\<lparr>rb_err := Some e\<rparr>, s')
        | (Inr g, b', s') \<Rightarrow> (Inr (g, wrap64 (resumes + 1)), b', s'))"

definition resumingTurn ::
  "('s, 'u, 'g) S3API \<Rightarrow> 'g rd \<Rightarrow> ('g \<Rightarrow> err option \<times> 'g) \<Rightarrow> ('s \<Rightarrow> err option) \<Rightarrow> s3_Client \<Rightarrow> ctx \<Rightarrow> nat \<Rightarrow>
   int \<times> 'g resumingBody \<times> 's \<Rightarrow>
   ((bytes \<times> err option \<times> 'g resumingBody \<times> 's) + (int \<times> 'g resumingBody \<times> 's)) option" where
  "resumingTurn api grd gclose ctxErr c x m = (\<lambda>(resumes, b, s).
     (case acquire api gclose ctxErr c x resumes b s of
        (Inl e, b1, s1) \<Rightarrow> Some (Inl ([], e, b1, s1))
      | (Inr (g, resumes1), b1, s1) \<Rightarrow>
        do { (bs, e, g') \<leftarrow> grd g m;
             let b2 = b1\<lparr>rb_offset := wrap64 (rb_offset b1 + int (length bs))\<rparr>;
             if e = None \<or> e = Some EOF then Some (Inl (bs, e, b2\<lparr>rb_body := Some g'\<rparr>, s1))
             else
               let b3 = (setCurrent gclose b2 None)\<lparr>rb_lastErr := e\<rparr> in
               if bs \<noteq> [] then Some (Inl (bs, None, b3, s1)) else Some (Inr (resumes1, b3, s1)) }))"

definition resumingBody_Read ::
  "('s, 'u, 'g) S3API \<Rightarrow> 'g rd \<Rightarrow> ('g \<Rightarrow> err option \<times> 'g) \<Rightarrow> ('s \<Rightarrow> err option) \<Rightarrow> s3_Client \<Rightarrow> ctx \<Rightarrow>
   ('g resumingBody \<times> 's) rd" where
  "resumingBody_Read api grd gclose ctxErr c x = (\<lambda>(b, s) m.
     goLoop (resumingTurn api grd gclose ctxErr c x m) (0, b, s))"

definition resumingBody_Close :: "('g \<Rightarrow> err option \<times> 'g) \<Rightarrow> 'g resumingBody \<Rightarrow> err option \<times> 'g resumingBody" where
  "resumingBody_Close gclose b =
     (let b' = b\<lparr>rb_closed := True\<rparr> in
      case rb_body b' of
        Some g \<Rightarrow> let (e, g') = gclose g in (e, b'\<lparr>rb_body := Some g'\<rparr>)
      | None \<Rightarrow> (None, b'))"

section \<open>classifiedBody and Get\<close>

definition s3_classifiedBody_Read :: "'b rd \<Rightarrow> 'b rd" where
  "s3_classifiedBody_Read rd b m =
     do { (bs, e, b') \<leftarrow> rd b m;
          Some (bs, if e \<noteq> None \<and> e \<noteq> Some EOF then s3_classify e else e, b') }"

definition s3_Get ::
  "('s, 'u, 'g) S3API \<Rightarrow> s3_Client \<Rightarrow> 's \<Rightarrow> ctx \<Rightarrow> string \<Rightarrow> (err + 'g resumingBody Blob) \<times> 's" where
  "s3_Get api c s x key =
     (case s3_validateKey key of Some e \<Rightarrow> (Inl e, s) | None \<Rightarrow>
      (case api_GetObject api s x (s3_bucket c) key None of
         (Inl err, s') \<Rightarrow> (Inl (s3_classifyErr err), s')
       | (Inr out, s') \<Rightarrow>
         let h = get_head out;
             sz = (if head_ContentLength h = None then - 1 else toInt64 (head_ContentLength h));
             body = \<lparr>rb_key = key, rb_etag = toString (head_ETag h), rb_size = sz,
               rb_retries = s3_readRetriesOf c, rb_offset = 0, rb_lastErr = None, rb_err = None,
               rb_closed = False, rb_body = Some (get_Body out)\<rparr> in
         (Inr \<lparr>blob_Object = headObject key h, blob_Body = body\<rparr>, s')))"

section \<open>What a resumed read delivers\<close>

text \<open>
  The documented behaviour of the service. \<open>from g d\<close> says that \<open>d\<close> is still to come from the body
  \<open>g\<close> of an answer: a read delivers the next bytes of it, and ends with \<open>EOF\<close> only after the last;
  it may fail at any point. A conditional ranged request that is answered with the range asked for
  continues the version the condition names, whose content is \<open>d\<close>, at that offset.
\<close>

definition delivers :: "'g rd \<Rightarrow> ('g \<Rightarrow> bytes \<Rightarrow> bool) \<Rightarrow> bool" where
  "delivers grd from \<longleftrightarrow> (\<forall>g d m bs e g'. from g d \<longrightarrow> grd g m = Some (bs, e, g') \<longrightarrow>
     (\<exists>r. d = bs @ r \<and> (e = None \<longrightarrow> from g' r) \<and> (e = Some EOF \<longrightarrow> r = [])))"

definition s3_ranges ::
  "('s, 'u, 'g) S3API \<Rightarrow> ('g \<Rightarrow> bytes \<Rightarrow> bool) \<Rightarrow> string \<Rightarrow> string \<Rightarrow> string \<Rightarrow> bytes \<Rightarrow> bool" where
  "s3_ranges api from bucket key etag d \<longleftrightarrow> (\<forall>s x off out s'.
     api_GetObject api s x bucket key (Some (off, etag)) = (Inr out, s') \<longrightarrow> 0 \<le> off \<longrightarrow>
     prefix (rangeStart off) (toString (get_ContentRange out)) \<longrightarrow> from (get_Body out) (drop (nat off) d))"

text \<open>The state of a read of the version \<open>etag\<close> of \<open>key\<close>, with the content \<open>d\<close>.\<close>

definition rb_inv :: "('g \<Rightarrow> bytes \<Rightarrow> bool) \<Rightarrow> string \<Rightarrow> string \<Rightarrow> bytes \<Rightarrow> 'g resumingBody \<Rightarrow> bool" where
  "rb_inv from key etag d b \<longleftrightarrow>
     rb_key b = key \<and> rb_etag b = etag \<and> 0 \<le> rb_offset b \<and> rb_offset b \<le> int (length d) \<and>
     rb_lastErr b \<noteq> Some EOF \<and> rb_err b \<noteq> Some EOF \<and>
     (case rb_body b of Some g \<Rightarrow> from g (drop (nat (rb_offset b)) d) | None \<Rightarrow> True)"

lemma acquire_inv:
  assumes rng: "s3_ranges api from (s3_bucket c) key etag d"
    and inv: "rb_inv from key etag d b" and acq: "acquire api gclose ctxErr c x k b s = (r, b1, s1)"
  shows "rb_inv from key etag d b1 \<and> rb_offset b1 = rb_offset b \<and>
    (case r of Inl e \<Rightarrow> e \<noteq> Some EOF | Inr (g, k') \<Rightarrow> from g (drop (nat (rb_offset b)) d))"
proof (cases "rb_closed b \<or> rb_err b \<noteq> None \<or> rb_body b \<noteq> None \<or> k = rb_retries b \<or> \<not> resumable ctxErr b s")
  case True
  with inv acq show ?thesis
    by (auto simp: acquire_def rb_inv_def errBodyClosed_def EOF_def split: if_splits option.split_asm)
next
  case False
  obtain q b2 s2 where q: "resume api gclose c x b s = (q, b2, s2)" by (metis prod_cases3)
  with False acq have acq': "(case q of Inl e \<Rightarrow> (Inl (Some e), b2\<lparr>rb_err := Some e\<rparr>, s2)
      | Inr g \<Rightarrow> (Inr (g, wrap64 (k + 1)), b2, s2)) = (r, b1, s1)"
    by (cases q) (simp_all add: acquire_def)
  obtain a s3 where a: "api_GetObject api s x (s3_bucket c) key (Some (rb_offset b, etag)) = (a, s3)"
    by fastforce
  show ?thesis
  proof (cases a)
    case (Inl err)
    with q a inv acq' False show ?thesis by (auto simp: resume_def rb_inv_def EOF_def)
  next
    case (Inr out)
    with rng a inv have "from (get_Body out) (drop (nat (rb_offset b)) d)"
      if "prefix (rangeStart (rb_offset b)) (toString (get_ContentRange out))"
      using that unfolding s3_ranges_def rb_inv_def by blast
    with q a inv acq' Inr False show ?thesis
      by (auto simp: resume_def rb_inv_def EOF_def setCurrent_def split: if_splits)
  qed
qed

text \<open>
  One turn of the loop: the bytes it delivers are the next bytes of the object, whatever failed, and
  the end is reported only at the end; a turn that goes on has delivered nothing.
\<close>

lemma resumingTurn_content:
  assumes del: "delivers grd from" and rng: "s3_ranges api from (s3_bucket c) key etag d"
    and len: "int (length d) \<le> maxInt64" and inv: "rb_inv from key etag d b"
    and turn: "resumingTurn api grd gclose ctxErr c x m (k, b, s) = Some q"
  shows "case q of
      Inl (bs, e, b', s') \<Rightarrow> (\<exists>r. drop (nat (rb_offset b)) d = bs @ r \<and> (e = Some EOF \<longrightarrow> r = [])) \<and>
        (e \<noteq> Some EOF \<longrightarrow> rb_inv from key etag d b') \<and> rb_offset b' = rb_offset b + int (length bs)
    | Inr (k', b', s') \<Rightarrow> rb_inv from key etag d b' \<and> rb_offset b' = rb_offset b"
proof -
  obtain a b1 s1 where acq: "acquire api gclose ctxErr c x k b s = (a, b1, s1)" by (metis prod_cases3)
  note i = acquire_inv [OF rng inv acq]
  show ?thesis
  proof (cases a)
    case (Inl f)
    with turn acq i show ?thesis by (auto simp: resumingTurn_def)
  next
    case (Inr gk)
    obtain g k1 where gk: "gk = (g, k1)" by fastforce
    with i Inr have open_: "from g (drop (nat (rb_offset b)) d)" by simp
    from turn acq Inr gk obtain bs e g' where g: "grd g m = Some (bs, e, g')"
      by (auto simp: resumingTurn_def bind_eq_Some_conv)
    from del open_ g obtain rs where rs: "drop (nat (rb_offset b)) d = bs @ rs"
      "e = None \<longrightarrow> from g' rs" "e = Some EOF \<longrightarrow> rs = []"
      unfolding delivers_def by blast
    have lens: "length d - nat (rb_offset b) = length bs + length rs"
      using arg_cong [OF rs(1), of length] by simp
    have off: "rb_offset b + int (length bs) \<le> int (length d)" "0 \<le> rb_offset b"
      using lens inv unfolding rb_inv_def by linarith+
    have w: "wrap64 (rb_offset b + int (length bs)) = rb_offset b + int (length bs)"
      using off len by (simp add: wrap64_id)
    have rest: "drop (nat (rb_offset b + int (length bs))) d = rs"
      using rs(1) off by (simp add: nat_add_distrib drop_drop [symmetric] add.commute)
    let ?b2 = "b1\<lparr>rb_offset := rb_offset b + int (length bs)\<rparr>"
    let ?b3 = "?b2\<lparr>rb_body := None, rb_lastErr := e\<rparr>"
    from turn acq Inr gk g i w have q: "q =
      (if e = None \<or> e = Some EOF then Inl (bs, e, ?b2\<lparr>rb_body := Some g'\<rparr>, s1)
       else if bs \<noteq> [] then Inl (bs, None, ?b3, s1) else Inr (k1, ?b3, s1))"
      by (cases "e = None \<or> e = Some EOF"; cases "bs = []") (auto simp: resumingTurn_def setCurrent_def Let_def)
    show ?thesis
    proof (cases "e = None \<or> e = Some EOF")
      case True
      with q i rs off rest show ?thesis by (auto simp: rb_inv_def)
    next
      case False
      then have "rb_inv from key etag d ?b3" using i off by (simp add: rb_inv_def)
      with False q rs show ?thesis by (cases "bs = []") auto
    qed
  qed
qed

lemma resumingBody_Read_content:
  assumes del: "delivers grd from" and rng: "s3_ranges api from (s3_bucket c) key etag d"
    and len: "int (length d) \<le> maxInt64" and inv: "rb_inv from key etag d b"
    and rd: "resumingBody_Read api grd gclose ctxErr c x (b, s) m = Some (bs, e, b', s')"
  shows "(\<exists>r. drop (nat (rb_offset b)) d = bs @ r \<and> (e = Some EOF \<longrightarrow> r = [])) \<and>
    (e \<noteq> Some EOF \<longrightarrow> rb_inv from key etag d b') \<and> rb_offset b' = rb_offset b + int (length bs)"
proof -
  let ?I = "\<lambda>(k, b', s). rb_inv from key etag d b' \<and> rb_offset b' = rb_offset b"
  let ?Q = "\<lambda>(bs, e, b', s'). (\<exists>r. drop (nat (rb_offset b)) d = bs @ r \<and> (e = Some EOF \<longrightarrow> r = [])) \<and>
    (e \<noteq> Some EOF \<longrightarrow> rb_inv from key etag d b') \<and> rb_offset b' = rb_offset b + int (length bs)"
  have "?Q (bs, e, b', s')"
  proof (rule goLoop_invariant [where I = ?I and Q = ?Q])
    show "goLoop (resumingTurn api grd gclose ctxErr c x m) (0, b, s) = Some (bs, e, b', s')"
      using rd by (simp add: resumingBody_Read_def)
    show "?I (0, b, s)" using inv by simp
    fix a a'
    assume "?I a" "resumingTurn api grd gclose ctxErr c x m a = Some (Inr a')"
    then show "?I a'" using resumingTurn_content [OF del rng len] by (cases a) fastforce
  next
    fix a r
    assume "?I a" "resumingTurn api grd gclose ctxErr c x m a = Some (Inl r)"
    then show "?Q r" using resumingTurn_content [OF del rng len] by (cases a) fastforce
  qed
  then show ?thesis by simp
qed

lemma resumingBody_drains:
  assumes del: "delivers grd from" and rng: "s3_ranges api from (s3_bucket c) key etag d"
    and len: "int (length d) \<le> maxInt64"
  shows "drains (resumingBody_Read api grd gclose ctxErr c x) bs0 bs e t \<Longrightarrow> rb_inv from key etag d (fst bs0) \<Longrightarrow>
    \<exists>r. drop (nat (rb_offset (fst bs0))) d = bs @ r \<and> (e = EOF \<longrightarrow> r = [])"
proof (induction rule: drains.induct)
  case (drains_stop m a bs e t)
  obtain b s b' s' where ab: "a = (b, s)" "t = (b', s')" by fastforce
  with drains_stop resumingBody_Read_content [OF del rng len, of b gclose ctxErr x s m bs "Some e" b' s']
  show ?case by simp
next
  case (drains_more m a bs a1 d1 e t)
  obtain b s b1 s1 where ab: "a = (b, s)" "a1 = (b1, s1)" by fastforce
  with drains_more resumingBody_Read_content [OF del rng len, of b gclose ctxErr x s m bs None b1 s1]
  obtain r where r: "drop (nat (rb_offset b)) d = bs @ r" and b1: "rb_inv from key etag d b1"
    "rb_offset b1 = rb_offset b + int (length bs)" by auto
  have "0 \<le> rb_offset b" using drains_more.prems ab by (simp add: rb_inv_def)
  then have "drop (nat (rb_offset b1)) d = r"
    using r b1(2) by (simp add: nat_add_distrib drop_drop [symmetric] add.commute)
  with drains_more.IH ab b1(1) r show ?case by auto
qed

lemma s3_classifyErr_EOF: "e \<noteq> EOF \<Longrightarrow> s3_classifyErr e \<noteq> EOF"
  by (cases e rule: s3_classifyErr_cases) (auto simp: dual_def EOF_def)

lemma s3_classifiedBody_drains:
  "drains (s3_classifiedBody_Read rd) s d e t \<Longrightarrow>
     \<exists>e0. drains rd s d e0 t \<and> e = (if e0 = EOF then EOF else s3_classifyErr e0)"
proof (induction rule: drains.induct)
  case (drains_stop m s bs e t)
  from drains_stop(2) obtain f where f: "rd s m = Some (bs, f, t)"
    "(if f \<noteq> None \<and> f \<noteq> Some EOF then s3_classify f else f) = Some e"
    by (auto simp: s3_classifiedBody_Read_def bind_eq_Some_conv)
  then obtain e0 where "f = Some e0" "e = (if e0 = EOF then EOF else s3_classifyErr e0)"
    by (cases f) (auto split: if_splits)
  with drains_stop(1) f(1) show ?case by (blast intro: drains.drains_stop)
next
  case (drains_more m s bs s1 d e t)
  from drains_more(2) have "rd s m = Some (bs, None, s1)"
    by (auto simp: s3_classifiedBody_Read_def bind_eq_Some_conv split: if_splits)
  with drains_more(1) drains_more.IH show ?case by (blast intro: drains.drains_more)
qed

section \<open>Requests of a Read\<close>

lemma acquire_requests:
  assumes reqs: "\<And>s x k r. reqs (snd (api_GetObject api s x (s3_bucket c) k r)) \<le> Suc (reqs s)"
    and acq: "acquire api gclose ctxErr c x k b s = (q, b1, s1)" and k: "0 \<le> k" "k \<le> rb_retries b" "rb_retries b \<le> maxInt64"
  shows "rb_retries b1 = rb_retries b \<and>
    (case q of
       Inl e \<Rightarrow> s1 = s \<or> k < rb_retries b \<and> reqs s1 \<le> Suc (reqs s)
     | Inr (g, k1) \<Rightarrow> (rb_body b \<noteq> None \<and> k1 = k \<and> s1 = s) \<or>
         (rb_body b = None \<and> k < rb_retries b \<and> k1 = k + 1 \<and> reqs s1 \<le> Suc (reqs s)))"
proof (cases "rb_closed b \<or> rb_err b \<noteq> None \<or> rb_body b \<noteq> None \<or> k = rb_retries b \<or> \<not> resumable ctxErr b s")
  case True
  with acq show ?thesis by (auto simp: acquire_def split: if_splits option.split_asm)
next
  case False
  obtain a s2 where a: "api_GetObject api s x (s3_bucket c) (rb_key b) (Some (rb_offset b, rb_etag b)) = (a, s2)"
    by fastforce
  from reqs [of s x "rb_key b" "Some (rb_offset b, rb_etag b)"] a have "reqs s2 \<le> Suc (reqs s)" by simp
  moreover have "k < rb_retries b" "wrap64 (k + 1) = k + 1" using False k by (auto simp: wrap64_id)
  ultimately show ?thesis using False acq a
    by (cases a) (auto simp: acquire_def resume_def setCurrent_def split: if_splits)
qed

lemma resumingTurn_requests:
  assumes reqs: "\<And>s x k r. reqs (snd (api_GetObject api s x (s3_bucket c) k r)) \<le> Suc (reqs s)"
    and turn: "resumingTurn api grd gclose ctxErr c x m (k, b, s) = Some q"
    and k: "0 \<le> k" "k \<le> rb_retries b" "rb_retries b \<le> maxInt64"
  shows "case q of
      Inl (bs, e, b', s') \<Rightarrow> reqs s' + nat k \<le> reqs s + nat (rb_retries b)
    | Inr (k', b', s') \<Rightarrow> rb_retries b' = rb_retries b \<and> rb_body b' = None \<and> k' \<le> rb_retries b \<and>
        (rb_body b \<noteq> None \<and> k' = k \<or> rb_body b = None \<and> k' = k + 1) \<and>
        reqs s' + nat k \<le> reqs s + nat k'"
proof -
  obtain a b1 s1 where acq: "acquire api gclose ctxErr c x k b s = (a, b1, s1)" by (metis prod_cases3)
  note r = acquire_requests [OF reqs acq k]
  show ?thesis
  proof (cases a)
    case (Inl e)
    with turn acq r k show ?thesis by (auto simp: resumingTurn_def)
  next
    case (Inr gk)
    obtain g k1 where gk: "gk = (g, k1)" by fastforce
    with turn acq Inr obtain bs e g' where "grd g m = Some (bs, e, g')"
      by (auto simp: resumingTurn_def bind_eq_Some_conv)
    with turn acq Inr gk r k show ?thesis
      by (auto simp: resumingTurn_def setCurrent_def Let_def split: if_splits)
  qed
qed

lemma resumingBody_Read_requests:
  assumes reqs: "\<And>s x k r. reqs (snd (api_GetObject api s x (s3_bucket c) k r)) \<le> Suc (reqs s)"
    and reads: "\<And>g. grd g m \<noteq> None" and k: "0 \<le> rb_retries b" "rb_retries b \<le> maxInt64"
  shows "\<exists>bs e b' s'. resumingBody_Read api grd gclose ctxErr c x (b, s) m = Some (bs, e, b', s') \<and>
    reqs s' \<le> reqs s + nat (rb_retries b)"
proof -
  let ?I = "\<lambda>(k, b', s'). rb_retries b' = rb_retries b \<and> 0 \<le> k \<and> k \<le> rb_retries b \<and> reqs s' \<le> reqs s + nat k"
  let ?f = "\<lambda>(k, b', s'). 2 * nat (rb_retries b - k) + (if rb_body b' = None then 0 else 1)"
  let ?turn = "resumingTurn api grd gclose ctxErr c x m"
  have step: "?I a' \<and> ?f a' < ?f a" if "?I a" "?turn a = Some (Inr a')" for a a'
  proof -
    obtain k1 b1 s1 k2 b2 s2 where a: "a = (k1, b1, s1)" "a' = (k2, b2, s2)" by (metis prod_cases3)
    with that have i: "rb_retries b1 = rb_retries b" "0 \<le> k1" "k1 \<le> rb_retries b1" "rb_retries b1 \<le> maxInt64"
      "reqs s1 \<le> reqs s + nat k1" using k by auto
    from resumingTurn_requests [where q = "Inr a'" and k = k1 and b = b1 and s = s1 and m = m, OF reqs, OF _ i(2-4)]
      that(2) a have "rb_retries b2 = rb_retries b1" "rb_body b2 = None" "k2 \<le> rb_retries b1"
      "rb_body b1 \<noteq> None \<and> k2 = k1 \<or> rb_body b1 = None \<and> k2 = k1 + 1" "reqs s2 + nat k1 \<le> reqs s1 + nat k2"
      by simp_all
    with a i show ?thesis by (elim disjE) simp_all
  qed
  have stop: "reqs (snd (snd (snd r))) \<le> reqs s + nat (rb_retries b)"
    if "?I a" "?turn a = Some (Inl r)" for a r
  proof -
    obtain k1 b1 s1 where a: "a = (k1, b1, s1)" by (metis prod_cases3)
    with that have i: "rb_retries b1 = rb_retries b" "0 \<le> k1" "k1 \<le> rb_retries b1" "rb_retries b1 \<le> maxInt64"
      "reqs s1 \<le> reqs s + nat k1" using k by auto
    from resumingTurn_requests [where q = "Inl r" and k = k1 and b = b1 and s = s1 and m = m, OF reqs, OF _ i(2-4)]
      that(2) a have "reqs (snd (snd (snd r))) + nat k1 \<le> reqs s1 + nat (rb_retries b1)"
      by (cases r) auto
    with i show ?thesis by simp
  qed
  have total: "\<exists>q. ?turn a = Some q" for a
  proof -
    obtain k' b' s' where a: "a = (k', b', s')" by (metis prod_cases3)
    obtain q b1 s1 where acq: "acquire api gclose ctxErr c x k' b' s' = (q, b1, s1)" by (metis prod_cases3)
    show ?thesis
    proof (cases q)
      case (Inr gk)
      obtain g k1 where gk: "gk = (g, k1)" by fastforce
      from reads [of g] obtain bs e g' where "grd g m = Some (bs, e, g')" by auto
      with a acq Inr gk show ?thesis by (simp add: resumingTurn_def Let_def)
    qed (use a acq in \<open>simp add: resumingTurn_def\<close>)
  qed
  have "\<exists>r. goLoop ?turn (0, b, s) = Some r"
    by (rule goLoop_total [where I = ?I and f = ?f]) (use k total step in \<open>simp, blast\<close>)
  then obtain r where r: "goLoop ?turn (0, b, s) = Some r" by blast
  have "reqs (snd (snd (snd r))) \<le> reqs s + nat (rb_retries b)"
    by (rule goLoop_invariant [where I = ?I, OF r]) (use k step stop in \<open>simp, blast, blast\<close>)
  with r show ?thesis by (cases r) (auto simp: resumingBody_Read_def)
qed

text \<open>A failure that Read returns is recorded, or the body is closed.\<close>

lemma resumingBody_Read_failed:
  assumes "resumingBody_Read api grd gclose ctxErr c x (b, s) m = Some (bs, Some e, b', s')" and "e \<noteq> EOF"
  shows "rb_closed b' \<and> e = errBodyClosed \<or> \<not> rb_closed b' \<and> rb_err b' = Some e"
proof -
  let ?Q = "\<lambda>(bs, f, b', s'). \<forall>e. f = Some e \<longrightarrow> e \<noteq> EOF \<longrightarrow>
    rb_closed b' \<and> e = errBodyClosed \<or> \<not> rb_closed b' \<and> rb_err b' = Some e"
  have "?Q (bs, Some e, b', s')"
  proof (rule goLoop_invariant [where I = "\<lambda>_. True" and Q = ?Q])
    show "goLoop (resumingTurn api grd gclose ctxErr c x m) (0, b, s) = Some (bs, Some e, b', s')"
      using assms(1) by (simp add: resumingBody_Read_def)
    fix a r
    assume turn: "resumingTurn api grd gclose ctxErr c x m a = Some (Inl r)"
    obtain k b1 s1 where a: "a = (k, b1, s1)" by (metis prod_cases3)
    obtain q b2 s2 where acq: "acquire api gclose ctxErr c x k b1 s1 = (q, b2, s2)" by (metis prod_cases3)
    show "?Q r"
    proof (cases q)
      case (Inl f)
      with turn a acq have r: "r = ([], f, b2, s2)" by (simp add: resumingTurn_def)
      from acq Inl have "f = Some e \<longrightarrow> rb_closed b2 \<and> e = errBodyClosed \<or> \<not> rb_closed b2 \<and> rb_err b2 = Some e" for e
        by (auto simp: acquire_def resume_def split: if_splits option.split_asm prod.split_asm sum.split_asm)
      with r show ?thesis by simp
    next
      case (Inr gk)
      with turn a acq show ?thesis
        by (cases gk) (auto simp: resumingTurn_def bind_eq_Some_conv Let_def split: if_splits)
    qed
  qed simp_all
  with assms(2) show ?thesis by simp
qed

section \<open>Properties\<close>

text \<open>
  C4: a Get delivers the object it opened and nothing else. Over a service that behaves as S3
  documents, with a body that fails any number of times and at any point, whatever the reads and the
  resumptions, the bytes delivered are the content of the version the Get opened from its start: no
  byte is repeated, skipped or taken from another version, and \<open>EOF\<close> is reported only after the last.
\<close>

theorem s3_Get_content:
  assumes "s3_validateKey key = None" and "api_GetObject api s x (s3_bucket c) key None = (Inr out, s1)"
    and "from (get_Body out) d" and "delivers grd from" and "int (length d) \<le> maxInt64"
    and "s3_ranges api from (s3_bucket c) key (toString (head_ETag (get_head out))) d"
  shows "\<exists>blob. s3_Get api c s x key = (Inr blob, s1) \<and> blob_Object blob = headObject key (get_head out) \<and>
    (\<forall>gclose ctxErr bs e t.
       drains (s3_classifiedBody_Read (resumingBody_Read api grd gclose ctxErr c x)) (blob_Body blob, s1) bs e t \<longrightarrow>
       prefix bs d \<and> (e = EOF \<longrightarrow> bs = d))"
proof -
  obtain blob where get: "s3_Get api c s x key = (Inr blob, s1)" "blob_Object blob = headObject key (get_head out)"
    and inv: "rb_inv from key (toString (head_ETag (get_head out))) d (blob_Body blob)"
    and off: "rb_offset (blob_Body blob) = 0"
    using assms(1-3) by (simp add: s3_Get_def Let_def rb_inv_def)
  have "prefix bs d \<and> (e = EOF \<longrightarrow> bs = d)"
    if dr: "drains (s3_classifiedBody_Read (resumingBody_Read api grd gclose ctxErr c x)) (blob_Body blob, s1) bs e t"
    for gclose ctxErr bs e t
  proof -
    from s3_classifiedBody_drains [OF dr] obtain e0 where
      e0: "drains (resumingBody_Read api grd gclose ctxErr c x) (blob_Body blob, s1) bs e0 t"
      "e = (if e0 = EOF then EOF else s3_classifyErr e0)" by blast
    from resumingBody_drains [OF assms(4,6,5) e0(1)] inv off obtain r where
      "d = bs @ r" "e0 = EOF \<longrightarrow> r = []" by auto
    with e0(2) s3_classifyErr_EOF [of e0] show ?thesis by (cases "e0 = EOF") auto
  qed
  then show ?thesis by (intro exI [of _ blob] conjI get allI) (rule impI)
qed

text \<open>
  A service whose first answer breaks off after three bytes and whose ranged answers are whole. An
  answer's body is what it still delivers and whether it then breaks off; the state counts requests.
\<close>

definition flaky_Read :: "(bytes \<times> bool) rd" where
  "flaky_Read g m =
     Some (if fst g = [] then ([], Some (if snd g then ErrUnexpectedEOF else EOF), g)
       else (take m (fst g), None, (drop m (fst g), snd g)))"

definition flaky_from :: "bytes \<times> bool \<Rightarrow> bytes \<Rightarrow> bool" where
  "flaky_from g d \<longleftrightarrow> prefix (fst g) d \<and> (\<not> snd g \<longrightarrow> fst g = d)"

definition flakyAPI :: "bytes \<Rightarrow> (nat, unit, bytes \<times> bool) S3API" where
  "flakyAPI content =
     \<lparr>api_CreateBucket = (\<lambda>s x b r. (None, s)), api_HeadBucket = (\<lambda>s x b. (None, s)),
      api_PutObject = (\<lambda>s x b k d n t. (Inl EOF, s)), api_UploadObject = (\<lambda>s x b k u n t. None),
      api_AbortMultipartUpload = (\<lambda>s x b k u. (None, s)),
      api_GetObject = (\<lambda>s x b k r.
        (Inr \<lparr>get_head = \<lparr>head_ContentLength = Some (int (length content)), head_ContentType = None,
             head_ETag = Some ''t'', head_LastModified = None\<rparr>,
           get_ContentRange = map_option (\<lambda>(off, tag). rangeStart off) r,
           get_Body = (case r of None \<Rightarrow> (take 3 content, True) | Some (off, tag) \<Rightarrow> (drop (nat off) content, False))\<rparr>,
         Suc s)),
      api_HeadObject = (\<lambda>s x b k. (Inl EOF, s)), api_DeleteObject = (\<lambda>s x b k. (None, s)),
      api_ListObjectsV2 = (\<lambda>s x b p t n. (Inl EOF, s))\<rparr>"

lemma flaky_delivers: "delivers flaky_Read flaky_from"
  unfolding delivers_def flaky_Read_def flaky_from_def
  by (auto simp: prefix_def split: if_splits) (metis append_assoc append_take_drop_id)+

lemma flaky_ranges: "s3_ranges (flakyAPI d) flaky_from bucket key etag d"
  by (auto simp: s3_ranges_def flakyAPI_def flaky_from_def)

lemma flaky_read:
  "\<exists>t blob. s3_Get (flakyAPI ''hello'') sample_s3 0 background ''k'' = (Inr blob, 1) \<and>
     readAll (\<lambda>_. 512) (s3_classifiedBody_Read (resumingBody_Read (flakyAPI ''hello'') flaky_Read
       (\<lambda>g. (None, g)) (\<lambda>_. None) sample_s3 background)) (blob_Body blob, 1) [] = Some (''hello'', None, t)"
  by (simp add: s3_Get_def s3_validateKey_k flakyAPI_def readAll.simps s3_classifiedBody_Read_def
      resumingBody_Read_def goLoop.simps resumingTurn_def acquire_def flaky_Read_def setCurrent_def
      resumable_def resume_def toString_def toInt64_def sample_s3_def wrap64_def)

abbreviation flaky_body :: "((bytes \<times> bool) resumingBody \<times> nat) rd" where
  "flaky_body \<equiv> s3_classifiedBody_Read (resumingBody_Read (flakyAPI ''hello'') flaky_Read
     (\<lambda>g. (None, g)) (\<lambda>_. None) sample_s3 background)"

theorem s3_Get_content_witness:
  "\<exists>blob t. s3_Get (flakyAPI ''hello'') sample_s3 0 background ''k'' = (Inr blob, 1) \<and>
     drains flaky_body (blob_Body blob, 1) ''hello'' EOF t"
proof -
  from flaky_read obtain t blob where get: "s3_Get (flakyAPI ''hello'') sample_s3 0 background ''k'' = (Inr blob, 1)"
    and all: "readAll (\<lambda>_. 512) flaky_body (blob_Body blob, 1) [] = Some (''hello'', None, t)" by blast
  from readAll_drains [OF _ all] obtain d where d: "drains flaky_body (blob_Body blob, 1) d EOF t"
    by (auto split: if_splits)
  obtain out where out: "api_GetObject (flakyAPI ''hello'') 0 background (s3_bucket sample_s3) ''k'' None = (Inr out, 1)"
    "flaky_from (get_Body out) ''hello''"
    by (simp add: flakyAPI_def flaky_from_def)
  have "int (length ''hello'') \<le> maxInt64" by simp
  from s3_Get_content [OF s3_validateKey_k out flaky_delivers this flaky_ranges] obtain blob' where
    blob': "s3_Get (flakyAPI ''hello'') sample_s3 0 background ''k'' = (Inr blob', 1)" and
    all: "\<forall>gclose ctxErr bs e t. drains (s3_classifiedBody_Read (resumingBody_Read (flakyAPI ''hello'') flaky_Read
        gclose ctxErr sample_s3 background)) (blob_Body blob', 1) bs e t \<longrightarrow>
      prefix bs ''hello'' \<and> (e = EOF \<longrightarrow> bs = ''hello'')" by (elim exE conjE) (rule that)
  from blob' get have "blob' = blob" by simp
  with all d have "d = ''hello''" by blast
  with get d show ?thesis by blast
qed

text \<open>
  C12: every Read of a Get body returns, and sends at most as many requests as the retries it is
  given: over answers whose reads return, with a retry count that is not negative, the loop of Read
  ends however often the reads fail.
\<close>

theorem resumingBody_bounded:
  assumes "\<And>s x k r. reqs (snd (api_GetObject api s x (s3_bucket c) k r)) \<le> Suc (reqs s)"
    and "\<And>g. grd g m \<noteq> None" and "0 \<le> rb_retries b" and "rb_retries b \<le> maxInt64"
  shows "\<exists>bs e b' s'. resumingBody_Read api grd gclose ctxErr c x (b, s) m = Some (bs, e, b', s') \<and>
    reqs s' \<le> reqs s + nat (rb_retries b)"
  using assms by (rule resumingBody_Read_requests)

theorem resumingBody_bounded_witness:
  "\<exists>bs e b' s'. resumingBody_Read (flakyAPI ''hello'') flaky_Read (\<lambda>g. (None, g)) (\<lambda>_. None) sample_s3 background
     (\<lparr>rb_key = ''k'', rb_etag = ''t'', rb_size = 5, rb_retries = 2, rb_offset = 3, rb_lastErr = Some ErrUnexpectedEOF,
       rb_err = None, rb_closed = False, rb_body = None\<rparr>, 7) 10 = Some (bs, e, b', s') \<and> s' \<le> 9"
  using resumingBody_bounded [where reqs = "\<lambda>s. s" and api = "flakyAPI ''hello''" and grd = flaky_Read and s = 7
      and m = 10 and gclose = "\<lambda>g. (None, g)" and ctxErr = "\<lambda>_. None" and c = sample_s3 and x = background
      and b = "\<lparr>rb_key = ''k'', rb_etag = ''t'', rb_size = 5, rb_retries = 2, rb_offset = 3,
        rb_lastErr = Some ErrUnexpectedEOF, rb_err = None, rb_closed = False, rb_body = None\<rparr>"]
  by (simp add: flakyAPI_def flaky_Read_def)

text \<open>
  C40: a failed body stays failed. A failure that Read returns is returned again by every later Read,
  with no byte and no request, until the body is closed; after Close every Read fails with the error
  of a closed body, again with no request.
\<close>

theorem resumingBody_sticky:
  assumes "resumingBody_Read api grd gclose ctxErr c x (b, s) m = Some (bs, Some e, b', s')" and "e \<noteq> EOF"
    and "resumingBody_Close gclose b0 = (ce, b2)"
  shows "resumingBody_Read api grd gclose ctxErr c x (b', t) n = Some ([], Some e, b', t) \<and>
    resumingBody_Read api grd gclose ctxErr c x (b2, t) n = Some ([], Some errBodyClosed, b2, t)"
proof
  show "resumingBody_Read api grd gclose ctxErr c x (b', t) n = Some ([], Some e, b', t)"
    using resumingBody_Read_failed [OF assms(1,2)]
    by (auto simp: resumingBody_Read_def goLoop.simps resumingTurn_def acquire_def)
  from assms(3) have "rb_closed b2"
    by (auto simp: resumingBody_Close_def Let_def split: option.split_asm prod.split_asm)
  then show "resumingBody_Read api grd gclose ctxErr c x (b2, t) n = Some ([], Some errBodyClosed, b2, t)"
    by (simp add: resumingBody_Read_def goLoop.simps resumingTurn_def acquire_def)
qed

abbreviation failed_body :: "bool \<Rightarrow> (bytes \<times> bool) resumingBody" where
  "failed_body cl \<equiv> \<lparr>rb_key = ''k'', rb_etag = ''t'', rb_size = 5, rb_retries = 0, rb_offset = 3,
     rb_lastErr = Some ErrUnexpectedEOF, rb_err = Some ErrUnexpectedEOF, rb_closed = cl, rb_body = None\<rparr>"

theorem resumingBody_sticky_witness:
  "resumingBody_Read (flakyAPI ''hello'') flaky_Read (\<lambda>g. (None, g)) (\<lambda>_. None) sample_s3 background
     (failed_body False, 4) 9 = Some ([], Some ErrUnexpectedEOF, failed_body False, 4)"
proof -
  have rd: "resumingBody_Read (flakyAPI ''hello'') flaky_Read (\<lambda>g. (None, g)) (\<lambda>_. None) sample_s3 background
     ((failed_body False)\<lparr>rb_err := None\<rparr>, 1) 7 = Some ([], Some ErrUnexpectedEOF, failed_body False, 1)"
    by (simp add: resumingBody_Read_def goLoop.simps resumingTurn_def acquire_def)
  have cl: "resumingBody_Close (\<lambda>g. (None, g)) (failed_body False) = (None, failed_body True)"
    by (simp add: resumingBody_Close_def)
  show ?thesis using resumingBody_sticky [OF rd _ cl] by simp
qed

end
