(* ===== verification/Azure_Keys.thy ===== *)
theory Azure_Keys
  imports S3_Keys
begin

text \<open>
  \<open>azureblob/keys.go\<close>: the rules for blob and container names. Each validator is equivalent to the
  rules it stands for, stated over the whole name.
\<close>

section \<open>Blob names\<close>

definition az_maxKeyLength :: int where "az_maxKeyLength = 1024"
definition maxKeySegments :: int where "maxKeySegments = 254"

definition backslash :: char where "backslash = CHR 0x5C"

definition az_validateKey :: "string \<Rightarrow> err option" where
  "az_validateKey key =
     (if key = [] then Some (newError ''azureblob.validateKey'' ''azureblob: empty key'' [])
      else let n = int (runeCountInString key) in
        if n > az_maxKeyLength then
          Some (newError ''azureblob.validateKey'' ''azureblob: key is %d characters, the limit is %d''
            [VInt n, VInt az_maxKeyLength])
        else let n = int (count_list key (CHR ''/'')) + 1 in
          if n > maxKeySegments then
            Some (newError ''azureblob.validateKey''
              ''azureblob: key has %d path segments, the limit is %d'' [VInt n, VInt maxKeySegments])
          else case first_some (\<lambda>(i, r). if isControl r then Some (i, r) else None) (runes key) of
            Some (i, r) \<Rightarrow> Some (newError ''azureblob.validateKey''
              ''azureblob: key has a control character %U at byte %d'' [VInt (int r), VInt (int i)])
          | None \<Rightarrow>
            let lst = key ! (length key - 1) in
            if lst = CHR ''.'' \<or> lst = CHR ''/'' \<or> lst = backslash then
              Some (newError ''azureblob.validateKey'' ''azureblob: key ends in %q'' [VByte lst])
            else map_option (\<lambda>segment. newError ''azureblob.validateKey''
                ''azureblob: key path segment %q ends in a dot'' [VStr segment])
              (first_some (\<lambda>segment. if hasSuffix segment ''.'' then Some segment else None)
                (splitOn (CHR ''/'') key)))"

section \<open>Container names\<close>

definition minContainerLength :: int where "minContainerLength = 3"
definition maxContainerLength :: int where "maxContainerLength = 63"

fun containerLoop :: "string \<Rightarrow> nat \<Rightarrow> string \<Rightarrow> err option" where
  "containerLoop name i [] = None"
| "containerLoop name i (b # bs) =
     (if lowerAlnum b then containerLoop name (i + 1) bs
      else if b = CHR ''-'' then
        (if i = 0 \<or> i = length name - 1 \<or> name ! (i - 1) = CHR ''-'' then
           Some (newError ''azureblob.validateContainer''
             ''azureblob: container name %q has a hyphen at its start or end or next to another''
             [VStr name])
         else containerLoop name (i + 1) bs)
      else Some (newError ''azureblob.validateContainer''
        ''azureblob: container name %q has %q; want lowercase letters, digits, and hyphens''
        [VStr name, VByte b]))"

definition validateContainer :: "string \<Rightarrow> err option" where
  "validateContainer name =
     (let n = int (length name) in
      if n < minContainerLength \<or> n > maxContainerLength then
        Some (newError ''azureblob.validateContainer''
          ''azureblob: container name %q is %d characters, want %d to %d''
          [VStr name, VInt n, VInt minContainerLength, VInt maxContainerLength])
      else containerLoop name 0 name)"

section \<open>What the loops accept\<close>

definition containerChar :: "char \<Rightarrow> bool" where
  "containerChar b \<longleftrightarrow> lowerAlnum b \<or> b = CHR ''-''"

lemma hyphen_not_alnum [simp]: "\<not> lowerAlnum (CHR ''-'')"
  by code_simp

text \<open>The bytes before \<open>bs\<close> and \<open>bs\<close> itself: no hyphen at either end and no two together.\<close>

lemma containerLoop_None:
  "name = pre @ bs \<Longrightarrow> containerLoop name (length pre) bs = None \<longleftrightarrow>
     list_all containerChar bs \<and> (bs \<noteq> [] \<longrightarrow> lowerAlnum (last bs)) \<and>
     \<not> sublist ''--'' bs \<and>
     (bs \<noteq> [] \<longrightarrow> hd bs = CHR ''-'' \<longrightarrow> pre \<noteq> [] \<and> last pre \<noteq> CHR ''-'')"
proof (induction bs arbitrary: pre)
  case Nil
  then show ?case by simp
next
  case (Cons b bs)
  from Cons.IH [of "pre @ [b]"] Cons.prems have IH: "containerLoop name (length pre + 1) bs = None \<longleftrightarrow>
     list_all containerChar bs \<and> (bs \<noteq> [] \<longrightarrow> lowerAlnum (last bs)) \<and> \<not> sublist ''--'' bs \<and>
     (bs \<noteq> [] \<longrightarrow> hd bs = CHR ''-'' \<longrightarrow> b \<noteq> CHR ''-'')" by simp
  have end_iff: "length pre = length name - 1 \<longleftrightarrow> bs = []" using Cons.prems by auto
  have prev: "pre \<noteq> [] \<longrightarrow> name ! (length pre - 1) = last pre"
    using Cons.prems by (auto simp: last_conv_nth nth_append)
  have sub: "sublist ''--'' (b # bs) \<longleftrightarrow> (b = CHR ''-'' \<and> bs \<noteq> [] \<and> hd bs = CHR ''-'') \<or> sublist ''--'' bs"
    by (cases bs) (auto simp: sublist_Cons_right)
  consider (alnum) "lowerAlnum b" "b \<noteq> CHR ''-''" | (hyphen) "\<not> lowerAlnum b" "b = CHR ''-''"
    | (other) "\<not> lowerAlnum b" "b \<noteq> CHR ''-''" by auto
  then show ?case
  proof cases
    case alnum
    then have "containerLoop name (length pre) (b # bs) = None \<longleftrightarrow> containerLoop name (length pre + 1) bs = None"
      by simp
    also note IH
    finally show ?thesis using alnum sub by (simp add: containerChar_def [of b])
  next
    case hyphen
    then have "containerLoop name (length pre) (b # bs) = None \<longleftrightarrow>
        pre \<noteq> [] \<and> bs \<noteq> [] \<and> last pre \<noteq> CHR ''-'' \<and> containerLoop name (length pre + 1) bs = None"
      using end_iff prev by (cases "pre = []"; cases "bs = []") simp_all
    also note IH
    finally show ?thesis using hyphen sub by (auto simp: containerChar_def [of "CHR ''-''"])
  next
    case other
    then show ?thesis by (simp add: containerChar_def [of b])
  qed
qed

lemma first_some_pair:
  "first_some (\<lambda>(i, r). if P r then Some (i, r) else None) ps = None \<longleftrightarrow> \<not> list_ex (\<lambda>(i, r). P r) ps"
  by (induction ps) (auto split: option.splits if_splits)

lemma first_some_pairD:
  "first_some (\<lambda>(i, r). if P r then Some (i, r) else None) ps = Some x \<Longrightarrow> list_ex (\<lambda>(i, r). P r) ps"
  using first_some_pair [of P ps] by auto

text \<open>A segment ends in a dot exactly when the key does or has a dot before a slash.\<close>

lemma segment_dot:
  "list_ex (\<lambda>seg. suffix ''.'' seg) (splitOn (CHR ''/'') key) \<longleftrightarrow> suffix ''.'' key \<or> sublist ''./'' key"
proof (induction key)
  case Nil
  then show ?case by simp
next
  case (Cons c key)
  obtain p ps where sp: "splitOn (CHR ''/'') key = p # ps" by (cases "splitOn (CHR ''/'') key") auto
  from join_splitOn [of "CHR ''/''" key] sp have key: "key = p @ concat (map (\<lambda>q. CHR ''/'' # q) ps)" by simp
  have empty: "p = [] \<longleftrightarrow> key = [] \<or> hd key = CHR ''/''"
  proof (cases p)
    case Nil
    with key show ?thesis by (cases ps) auto
  next
    case (Cons d p')
    with splitOn_no_sep [of p "CHR ''/''" key] sp key show ?thesis by auto
  qed
  have suf: "suffix ''.'' (c # xs) \<longleftrightarrow> (c = CHR ''.'' \<and> xs = []) \<or> suffix ''.'' xs" for xs
    by (auto simp: suffix_Cons)
  have sub: "sublist ''./'' (c # key) \<longleftrightarrow> (c = CHR ''.'' \<and> key \<noteq> [] \<and> hd key = CHR ''/'') \<or> sublist ''./'' key"
    by (cases key) (auto simp: sublist_Cons_right)
  show ?case using Cons.IH sp empty suf sub by (cases "c = CHR ''/''") auto
qed

section \<open>Properties\<close>

text \<open>
  C31: the Azure key rule accepts exactly the non-empty keys of at most 1024 characters and 254
  path segments without a control character whose last byte is neither a dot nor a slash nor a
  backslash and in which no dot stands before a slash.
\<close>

theorem az_validateKey_iff:
  "az_validateKey key = None \<longleftrightarrow> key \<noteq> [] \<and> runeCountInString key \<le> 1024 \<and>
     length (splitOn (CHR ''/'') key) \<le> 254 \<and> \<not> list_ex (\<lambda>(i, r). isControl r) (runes key) \<and>
     last key \<notin> {CHR ''.'', CHR ''/'', backslash} \<and> \<not> sublist ''./'' key"
proof (cases "key = []")
  case True
  then show ?thesis by (simp add: az_validateKey_def)
next
  case False
  then have lst: "key ! (length key - 1) = last key" by (simp add: last_conv_nth)
  have suf: "suffix ''.'' key \<longleftrightarrow> last key = CHR ''.''"
    using False by (auto simp: suffix_def) (metis append_butlast_last_id)
  have seg: "first_some (\<lambda>seg. if hasSuffix seg ''.'' then Some seg else None) (splitOn (CHR ''/'') key) = None
      \<longleftrightarrow> \<not> (last key = CHR ''.'' \<or> sublist ''./'' key)"
    by (simp add: first_some_guard hasSuffix_def segment_dot suf)
  show ?thesis
    using False seg
    by (auto simp: az_validateKey_def Let_def lst [simplified] az_maxKeyLength_def maxKeySegments_def
        length_splitOn first_some_pair dest: first_some_pairD split: option.splits)
qed

text \<open>
  C32: the container rule accepts exactly the names of 3 to 63 lowercase letters, digits and hyphens
  that start and end with a letter or digit and have no two hyphens together.
\<close>

theorem validateContainer_iff:
  "validateContainer name = None \<longleftrightarrow> 3 \<le> length name \<and> length name \<le> 63 \<and>
     list_all containerChar name \<and> lowerAlnum (hd name) \<and> lowerAlnum (last name) \<and>
     \<not> sublist ''--'' name"
proof (cases "3 \<le> length name \<and> length name \<le> 63")
  case False
  then show ?thesis by (auto simp: validateContainer_def minContainerLength_def maxContainerLength_def Let_def)
next
  case True
  then have ne: "name \<noteq> []" by auto
  then have hd_iff: "list_all containerChar name \<Longrightarrow> hd name \<noteq> CHR ''-'' \<longleftrightarrow> lowerAlnum (hd name)"
    by (cases name) (auto simp: containerChar_def)
  from True show ?thesis
    using containerLoop_None [of name "[]" name] ne hd_iff
    by (auto simp: validateContainer_def minContainerLength_def maxContainerLength_def Let_def)
qed

end
