(* ===== verification/Azure_Errors.thy ===== *)
theory Azure_Errors
  imports S3_Errors
begin

text \<open>
  \<open>azureblob/errors.go\<close>. The SDK's \<open>bloberror.HasCode\<close> is the argument \<open>hasCode\<close>; what its
  documentation says of it is \<open>hasCode_doc\<close>: it holds of an error that has an
  \<open>*azcore.ResponseError\<close> in its tree whose code is one of those given, and of no other, nil
  included.
\<close>

type_synonym hasCode = "err option \<Rightarrow> string list \<Rightarrow> bool"

definition hasCode_doc :: "hasCode \<Rightarrow> bool" where
  "hasCode_doc hasCode \<longleftrightarrow> (\<forall>e codes. hasCode e codes \<longleftrightarrow>
     (case Option.bind e (errors_As azResponse) of
        Some (status, code) \<Rightarrow> code \<in> set codes | None \<Rightarrow> False))"

definition az_classifyErr :: "hasCode \<Rightarrow> err \<Rightarrow> err" where
  "az_classifyErr hasCode e =
     (if errors_Is e ErrNotFound \<or> errors_Is e ErrContainerNotFound \<or> errors_Is e ErrUnavailable then e
      else case errors_As azResponse e of
        None \<Rightarrow> if errors_Is e Canceled then e else dual ErrUnavailable e
      | Some (status, code) \<Rightarrow>
        if hasCode (Some e) [''ContainerNotFound''] then dual ErrContainerNotFound e
        else if hasCode (Some e) [''BlobNotFound''] then dual ErrNotFound e
        else if status \<ge> 500 \<or> hasCode (Some e) [''ServerBusy'', ''OperationTimedOut'', ''InternalError'']
          then dual ErrUnavailable e
        else e)"

definition az_classify :: "hasCode \<Rightarrow> err option \<Rightarrow> err option" where
  "az_classify hasCode e = map_option (az_classifyErr hasCode) e"

definition classifyRead :: "hasCode \<Rightarrow> err \<Rightarrow> err" where
  "classifyRead hasCode e =
     (if hasCode (Some e) [''ConditionNotMet'']
      then Errorf ''azureblob.classifyRead'' ''%w: the blob changed during the read: %w'' []
        [ErrNotFound, e] []
      else az_classifyErr hasCode e)"

lemma az_classify_simps [simp]:
  "az_classify hasCode None = None" "az_classify hasCode (Some e) = Some (az_classifyErr hasCode e)"
  by (simp_all add: az_classify_def)

lemma az_classifyErr_shape:
  "az_classifyErr hasCode e = e \<or> (\<not> classified e \<and>
     (az_classifyErr hasCode e = dual ErrContainerNotFound e \<or>
      az_classifyErr hasCode e = dual ErrNotFound e \<or> az_classifyErr hasCode e = dual ErrUnavailable e))"
  by (simp add: az_classifyErr_def classified_def split: option.split prod.split)

lemma az_classifyErr_classified: "classified e \<Longrightarrow> az_classifyErr hasCode e = e"
  by (simp add: az_classifyErr_def classified_def)

lemma az_classifyErr_Is: "errors_Is e t \<Longrightarrow> errors_Is (az_classifyErr hasCode e) t"
  using az_classifyErr_shape [of hasCode e] by (auto simp: errors_Is_dual_cause)

lemma az_classifyErr_idem: "az_classifyErr hasCode (az_classifyErr hasCode e) = az_classifyErr hasCode e"
  using az_classifyErr_shape [of hasCode e]
  by (elim disjE conjE) (simp_all add: az_classifyErr_classified classified_def)

section \<open>Properties\<close>

text \<open>
  The Azure classification keeps the cause, is stable, and adds at most one sentinel, and the
  classification of a failed read of a Get body keeps the cause too, whatever \<open>HasCode\<close> answers.
\<close>

theorem az_classify_sound:
  "(errors_Is e t \<longrightarrow> errors_Is (az_classifyErr hasCode e) t \<and> errors_Is (classifyRead hasCode e) t) \<and>
   az_classifyErr hasCode (az_classifyErr hasCode e) = az_classifyErr hasCode e \<and>
   (\<not> classified e \<longrightarrow>
      \<not> (errors_Is (az_classifyErr hasCode e) ErrNotFound \<and> errors_Is (az_classifyErr hasCode e) ErrContainerNotFound) \<and>
      \<not> (errors_Is (az_classifyErr hasCode e) ErrNotFound \<and> errors_Is (az_classifyErr hasCode e) ErrUnavailable) \<and>
      \<not> (errors_Is (az_classifyErr hasCode e) ErrContainerNotFound \<and> errors_Is (az_classifyErr hasCode e) ErrUnavailable))"
proof (intro conjI impI)
  show "az_classifyErr hasCode (az_classifyErr hasCode e) = az_classifyErr hasCode e"
    by (rule az_classifyErr_idem)
  show keep: "errors_Is (az_classifyErr hasCode e) t" if "errors_Is e t"
    using that by (rule az_classifyErr_Is)
  show "errors_Is (classifyRead hasCode e) t" if "errors_Is e t"
    using that keep by (simp add: classifyRead_def)
qed (use az_classifyErr_shape [of hasCode e] in \<open>auto simp: classified_def\<close>)+

text \<open>An answer from the service with a status and a code, and \<open>HasCode\<close> as documented.\<close>

definition az_answer :: "int \<Rightarrow> string \<Rightarrow> err" where
  "az_answer status code = Foreign \<lparr>message = [], httpStatus = None, apiCode = None,
     uploadID = None, azResponse = Some (status, code)\<rparr> []"

definition docHasCode :: hasCode where
  "docHasCode e codes =
     (case Option.bind e (errors_As azResponse) of
        Some (status, code) \<Rightarrow> code \<in> set codes | None \<Rightarrow> False)"

lemma docHasCode_doc: "hasCode_doc docHasCode"
  by (simp add: hasCode_doc_def docHasCode_def)

theorem az_classify_sound_witness:
  "\<not> (errors_Is (az_classifyErr docHasCode (az_answer 404 ''ContainerNotFound'')) ErrNotFound \<and>
      errors_Is (az_classifyErr docHasCode (az_answer 404 ''ContainerNotFound'')) ErrContainerNotFound)"
  using az_classify_sound [of "az_answer 404 ''ContainerNotFound''" EOF docHasCode]
  by (auto simp: classified_def az_answer_def)

text \<open>
  C34: what an Azure error without a sentinel becomes, given what \<open>HasCode\<close> documents. One without an
  answer is \<open>ErrUnavailable\<close> unless the caller cancelled; an answer is \<open>ErrContainerNotFound\<close> exactly
  for a missing container, \<open>ErrNotFound\<close> exactly for a missing blob, and \<open>ErrUnavailable\<close> exactly for
  a server error or a busy, timed-out or internal error code; and a Get body whose blob was replaced
  fails with \<open>ErrNotFound\<close>.
\<close>

theorem az_classify_table:
  assumes "hasCode_doc hasCode" and "\<not> classified e"
  shows "(errors_As azResponse e = None \<longrightarrow>
      (if errors_Is e Canceled then az_classifyErr hasCode e = e
       else errors_Is (az_classifyErr hasCode e) ErrUnavailable)) \<and>
    (\<forall>status code. errors_As azResponse e = Some (status, code) \<longrightarrow>
      (errors_Is (az_classifyErr hasCode e) ErrContainerNotFound \<longleftrightarrow> code = ''ContainerNotFound'') \<and>
      (errors_Is (az_classifyErr hasCode e) ErrNotFound \<longleftrightarrow> code = ''BlobNotFound'') \<and>
      (errors_Is (az_classifyErr hasCode e) ErrUnavailable \<longleftrightarrow>
         code \<notin> {''ContainerNotFound'', ''BlobNotFound''} \<and>
         (500 \<le> status \<or> code \<in> {''ServerBusy'', ''OperationTimedOut'', ''InternalError''})) \<and>
      (code = ''ConditionNotMet'' \<longrightarrow> errors_Is (classifyRead hasCode e) ErrNotFound))"
proof (cases "errors_As azResponse e")
  case None
  with assms(2) show ?thesis by (simp add: az_classifyErr_def classified_def)
next
  case (Some r)
  obtain status code where r: "r = (status, code)" by fastforce
  have code: "hasCode (Some e) codes \<longleftrightarrow> code \<in> set codes" for codes
    using assms(1) Some r by (simp add: hasCode_doc_def)
  from assms(2) show ?thesis
    by (simp add: Some r az_classifyErr_def classifyRead_def classified_def code)
qed

theorem az_classify_table_witness:
  "errors_Is (az_classifyErr docHasCode (az_answer 404 ''BlobNotFound'')) ErrNotFound \<and>
   \<not> errors_Is (az_classifyErr docHasCode (az_answer 404 ''BlobNotFound'')) ErrContainerNotFound"
  using az_classify_table [OF docHasCode_doc, of "az_answer 404 ''BlobNotFound''"]
  by (simp add: classified_def az_answer_def)

end
