(* ===== verification/Azure_Client.thy ===== *)
theory Azure_Client
  imports Azure_Keys Azure_Errors Client_API Config
begin

text \<open>
  \<open>azureblob/client.go\<close>: the options, the construction and the container operations of the Azure
  Blob provider. The SDK's constructors and its path joining are arguments of New, and its container
  client is the record \<open>AzAPI\<close> of the calls the provider makes, over a state of the service.
\<close>

section \<open>Constants\<close>

definition defaultBlockSize :: int where "defaultBlockSize = 4 * 2 ^ 20"
definition az_defaultConcurrency :: int where "az_defaultConcurrency = 4"
definition minBlockSize :: int where "minBlockSize = 2 ^ 20"
definition maxBlockSize :: int where "maxBlockSize = 100 * 2 ^ 20"
definition az_maxConcurrency :: int where "az_maxConcurrency = 32"

section \<open>Options\<close>

definition az_optionError :: "string \<Rightarrow> string \<Rightarrow> val list \<Rightarrow> err" where
  "az_optionError fn text vs = newError (''azureblob.'' @ fn) text vs"

definition uploadOptions :: "string smap \<Rightarrow> err + int \<times> int" where
  "uploadOptions opts =
     (let blockSize = (case map_of opts ''block_size'' of
            None \<Rightarrow> Inr defaultBlockSize
          | Some v \<Rightarrow>
            let bad = Inl (az_optionError ''uploadOptions''
                  ''azureblob: option %s: %q is not an integer between %d and %d bytes''
                  [VStr ''block_size'', VStr v, VInt minBlockSize, VInt maxBlockSize]) in
            case parseInt 64 v of
              Inl e \<Rightarrow> bad
            | Inr n \<Rightarrow> if n < minBlockSize \<or> n > maxBlockSize then bad else Inr n);
          concurrency = (case map_of opts ''concurrency'' of
            None \<Rightarrow> Inr az_defaultConcurrency
          | Some v \<Rightarrow>
            let bad = Inl (az_optionError ''uploadOptions''
                  ''azureblob: option %s: %q is not an integer between 1 and %d''
                  [VStr ''concurrency'', VStr v, VInt az_maxConcurrency]) in
            case atoi v of
              Inl e \<Rightarrow> bad
            | Inr n \<Rightarrow> if n < 1 \<or> n > az_maxConcurrency then bad else Inr n) in
      case blockSize of Inl e \<Rightarrow> Inl e | Inr b \<Rightarrow>
      case concurrency of Inl e \<Rightarrow> Inl e | Inr k \<Rightarrow> Inr (b, k))"

definition az_readRetries :: "int \<Rightarrow> int" where
  "az_readRetries maxRetries = (if maxRetries = 0 then 3 else if maxRetries < 0 then 0 else maxRetries)"

text \<open>The SDK's \<open>policy.RetryOptions\<close>, of which the provider sets two fields; zero is unset.\<close>

record clientOptions =
  MaxRetries :: int
  TryTimeout :: int

definition clientOptions_of :: "(string \<Rightarrow> err + int) \<Rightarrow> string smap \<Rightarrow> err + clientOptions" where
  "clientOptions_of parseDuration opts =
     (let retries = (case map_of opts ''max_retries'' of
            None \<Rightarrow> Inr 0
          | Some v \<Rightarrow>
            let bad = Inl (az_optionError ''clientOptions''
                  ''azureblob: option %s: %q is not a non-negative integer'' [VStr ''max_retries'', VStr v]) in
            case parseInt 32 v of
              Inl e \<Rightarrow> bad
            | Inr n \<Rightarrow> if n < 0 then bad else Inr (if n = 0 then - 1 else wrap32 n));
          timeout = (case map_of opts ''try_timeout'' of
            None \<Rightarrow> Inr 0
          | Some v \<Rightarrow>
            let bad = Inl (az_optionError ''clientOptions''
                  ''azureblob: option %s: %q is not a positive duration'' [VStr ''try_timeout'', VStr v]) in
            case parseDuration v of Inl e \<Rightarrow> bad | Inr d \<Rightarrow> if d \<le> 0 then bad else Inr d) in
      case retries of Inl e \<Rightarrow> Inl e | Inr r \<Rightarrow>
      case timeout of Inl e \<Rightarrow> Inl e | Inr t \<Rightarrow> Inr \<lparr>MaxRetries = r, TryTimeout = t\<rparr>)"

section \<open>Construction\<close>

record 'cc az_Client =
  az_container :: 'cc
  az_blockSize :: int
  az_concurrency :: int
  az_readRetriesOf :: int

definition serviceURL :: "Config \<Rightarrow> string" where
  "serviceURL cfg =
     (if cfg_Endpoint cfg = [] then ''https://'' @ cfg_Account cfg @ ''.blob.core.windows.net/''
      else cfg_Endpoint cfg)"

definition az_New ::
  "(string \<Rightarrow> err + int) \<Rightarrow> (string \<Rightarrow> string \<Rightarrow> err + 'cred) \<Rightarrow> (string \<Rightarrow> string \<Rightarrow> string) \<Rightarrow>
   (string \<Rightarrow> 'cred \<Rightarrow> clientOptions \<Rightarrow> err + 'cc) \<Rightarrow> maps \<Rightarrow> Config \<Rightarrow> (err + 'cc az_Client) go" where
  "az_New parseDuration newCredential joinPaths newClient h cfg =
     (let required = (\<lambda>text. Ret (Inl (newError ''azureblob.New'' text []))) in
      if \<not> cfg_finalized cfg then Panic ''azureblob: Config not finalized: call Finalize before New''
      else if cfg_Container cfg = [] then required ''azureblob: storage container required''
      else case validateContainer (cfg_Container cfg) of Some e \<Rightarrow> Ret (Inl e) | None \<Rightarrow>
      if cfg_Account cfg = [] then required ''azureblob: storage account required''
      else if cfg_Key cfg = [] then required ''azureblob: storage key required''
      else case clientOptions_of parseDuration (options h (cfg_Options cfg)) of
        Inl e \<Rightarrow> Ret (Inl e) | Inr opts \<Rightarrow>
        case uploadOptions (options h (cfg_Options cfg)) of Inl e \<Rightarrow> Ret (Inl e) | Inr (blockSize, concurrency) \<Rightarrow>
        case newCredential (cfg_Account cfg) (cfg_Key cfg) of
          Inl e \<Rightarrow> Ret (Inl (Errorf ''azureblob.New'' ''azureblob: shared key credential: %w'' [] [e] []))
        | Inr cred \<Rightarrow>
          case newClient (joinPaths (serviceURL cfg) (cfg_Container cfg)) cred opts of
            Inl e \<Rightarrow> Ret (Inl (Errorf ''azureblob.New'' ''azureblob: container client: %w'' [] [e] []))
          | Inr cc \<Rightarrow>
            Ret (Inr \<lparr>az_container = cc, az_blockSize = blockSize, az_concurrency = concurrency,
              az_readRetriesOf = az_readRetries (MaxRetries opts)\<rparr>))"

section \<open>The SDK\<close>

text \<open>What the provider reads of the SDK's answers; a pointer that may be nil is an option.\<close>

record blobProps =
  bp_ContentLength :: "int option"
  bp_ContentType :: "string option"
  bp_ETag :: "string option"
  bp_LastModified :: "time option"

record 'g downloadOut =
  dl_props :: blobProps
  dl_Body :: "'g option"

record blobItem =
  bi_Name :: "string option"
  bi_Properties :: "blobProps option"

record blobPage =
  bpg_NextMarker :: "string option"
  bpg_Segment :: "blobItem option list option"

text \<open>
  The calls, on the container client \<open>'cc\<close>. \<open>'u\<close> is the body of an upload, which the call reads and
  returns, and \<open>'g\<close> the body of an answer. NewRetryReader makes a reader from an answer.
\<close>

record ('s, 'cc, 'u, 'g) AzAPI =
  sdk_Create :: "'cc \<Rightarrow> 's \<Rightarrow> ctx \<Rightarrow> err option \<times> 's"
  sdk_GetProperties :: "'cc \<Rightarrow> 's \<Rightarrow> ctx \<Rightarrow> err option \<times> 's"
  sdk_UploadStream :: "'cc \<Rightarrow> 's \<Rightarrow> ctx \<Rightarrow> string \<Rightarrow> 'u \<Rightarrow> int \<Rightarrow> int \<Rightarrow> string \<Rightarrow>
    ((err + blobProps) \<times> 's \<times> 'u) option"
  sdk_DownloadStream :: "'cc \<Rightarrow> 's \<Rightarrow> ctx \<Rightarrow> string \<Rightarrow> (err + 'g downloadOut) \<times> 's"
  sdk_NewRetryReader :: "'g downloadOut \<Rightarrow> ctx \<Rightarrow> int \<Rightarrow> 'g"
  sdk_BlobGetProperties :: "'cc \<Rightarrow> 's \<Rightarrow> ctx \<Rightarrow> string \<Rightarrow> (err + blobProps) \<times> 's"
  sdk_Delete :: "'cc \<Rightarrow> 's \<Rightarrow> ctx \<Rightarrow> string \<Rightarrow> err option \<times> 's"
  sdk_NextPage :: "'cc \<Rightarrow> 's \<Rightarrow> ctx \<Rightarrow> string option \<Rightarrow> string option \<Rightarrow> int option \<Rightarrow> (err + blobPage) \<times> 's"

section \<open>Container operations\<close>

definition az_EnsureContainer ::
  "hasCode \<Rightarrow> ('s, 'cc, 'u, 'g) AzAPI \<Rightarrow> 'cc az_Client \<Rightarrow> 's \<Rightarrow> ctx \<Rightarrow> err option \<times> 's" where
  "az_EnsureContainer hasCode api c s x =
     (let (e, s') = sdk_Create api (az_container c) s x in
      if hasCode e [''ContainerAlreadyExists''] then (None, s') else (az_classify hasCode e, s'))"

definition az_Probe ::
  "hasCode \<Rightarrow> ('s, 'cc, 'u, 'g) AzAPI \<Rightarrow> 'cc az_Client \<Rightarrow> 's \<Rightarrow> ctx \<Rightarrow> err option \<times> 's" where
  "az_Probe hasCode api c s x =
     (let (e, s') = sdk_GetProperties api (az_container c) s x in (az_classify hasCode e, s'))"

definition az_Capabilities :: "'cc az_Client \<Rightarrow> Capabilities" where
  "az_Capabilities c = \<lparr>cap_MaxKeyLength = az_maxKeyLength, cap_ValidateKey = Some az_validateKey\<rparr>"

section \<open>Properties\<close>

lemma uploadOptions_bounds:
  "uploadOptions opts = Inr (b, k) \<Longrightarrow> 2 ^ 20 \<le> b \<and> b \<le> 100 * 2 ^ 20 \<and> 1 \<le> k \<and> k \<le> 32"
  unfolding uploadOptions_def Let_def defaultBlockSize_def minBlockSize_def maxBlockSize_def
    az_defaultConcurrency_def az_maxConcurrency_def
  by (auto split: sum.split_asm option.split_asm if_split_asm)

lemma az_New_cases:
  assumes "az_New pd cred join mk h cfg = Ret (Inr c)"
  obtains opts b k where "cfg_finalized cfg" "validateContainer (cfg_Container cfg) = None"
    "clientOptions_of pd (options h (cfg_Options cfg)) = Inr opts"
    "uploadOptions (options h (cfg_Options cfg)) = Inr (b, k)"
    "az_blockSize c = b" "az_concurrency c = k" "az_readRetriesOf c = az_readRetries (MaxRetries opts)"
  using assms unfolding az_New_def Let_def
  by (simp split: if_split_asm option.split_asm sum.split_asm prod.split_asm) fastforce

lemma az_readRetries_nonneg: "0 \<le> az_readRetries n"
  by (simp add: az_readRetries_def)

text \<open>
  C38: the client New makes has block size and concurrency within the service's limits and a retry
  count that is not negative, so the option \<open>max_retries\<close> reaches the reading of a body as it is
  written: for every count a 32-bit integer holds, zero included, which the SDK would read as its
  default, a Get body resumes exactly that often.
\<close>

theorem az_New_options:
  assumes "az_New pd cred join mk h cfg = Ret (Inr c)"
  shows "validateContainer (cfg_Container cfg) = None \<and> 2 ^ 20 \<le> az_blockSize c \<and> az_blockSize c \<le> 100 * 2 ^ 20 \<and>
    1 \<le> az_concurrency c \<and> az_concurrency c \<le> 32 \<and> 0 \<le> az_readRetriesOf c \<and>
    (\<forall>n. map_of (options h (cfg_Options cfg)) ''max_retries'' = Some (showInt n) \<longrightarrow> 0 \<le> n \<longrightarrow> n \<le> maxInt32 \<longrightarrow>
      az_readRetriesOf c = n) \<and>
    (map_of (options h (cfg_Options cfg)) ''max_retries'' = None \<longrightarrow> az_readRetriesOf c = 3)"
  using assms
proof (rule az_New_cases)
  fix opts b k
  assume made: "validateContainer (cfg_Container cfg) = None"
    "clientOptions_of pd (options h (cfg_Options cfg)) = Inr opts"
    "uploadOptions (options h (cfg_Options cfg)) = Inr (b, k)"
    "az_blockSize c = b" "az_concurrency c = k" "az_readRetriesOf c = az_readRetries (MaxRetries opts)"
  have "az_readRetriesOf c = n" if "map_of (options h (cfg_Options cfg)) ''max_retries'' = Some (showInt n)"
    "0 \<le> n" "n \<le> maxInt32" for n
    using that made(2,6) parseInt_showInt [of 32 n]
    by (auto simp: clientOptions_of_def az_readRetries_def wrap32_id Let_def
        split: option.split_asm sum.split_asm if_split_asm)
  moreover have "az_readRetriesOf c = 3" if "map_of (options h (cfg_Options cfg)) ''max_retries'' = None"
    using that made(2,6)
    by (auto simp: clientOptions_of_def az_readRetries_def Let_def
        split: option.split_asm sum.split_asm if_split_asm)
  ultimately show ?thesis
    using made(1,4,5,6) uploadOptions_bounds [OF made(3)] az_readRetries_nonneg by simp
qed

definition azure_config :: Config where
  "azure_config = sample_config\<lparr>cfg_Account := ''acct'', cfg_Key := ''key'', cfg_finalized := True\<rparr>"

abbreviation sample_az_New :: "(err + unit az_Client) go" where
  "sample_az_New \<equiv> az_New (\<lambda>_. Inr 1) (\<lambda>a k. Inr ()) (\<lambda>u c. u @ c) (\<lambda>u cred opts. Inr ()) sample_maps azure_config"

lemma sample_az_New_made: "\<exists>c. sample_az_New = Ret (Inr c)"
  by (simp add: az_New_def azure_config_def sample_config_def options_def sample_maps_def validateContainer_def
      minContainerLength_def maxContainerLength_def lowerAlnum_def clientOptions_of_def uploadOptions_def)

theorem az_New_options_witness: "\<exists>c. sample_az_New = Ret (Inr c) \<and> az_concurrency c \<le> 32 \<and> az_readRetriesOf c = 3"
proof -
  from sample_az_New_made obtain c where c: "sample_az_New = Ret (Inr c)" by blast
  with az_New_options [OF c] show ?thesis
    by (simp add: azure_config_def sample_config_def options_def sample_maps_def)
qed

end
