(* ===== verification/Azure_Objects.thy ===== *)
theory Azure_Objects
  imports Azure_Client Sized_Body
begin

text \<open>
  \<open>azureblob/objects.go\<close>: the reader \<open>trackedReader\<close> around a Put body, and the five operations on
  blobs. The state of \<open>trackedReader\<close> is atomic in the code because the SDK may read the body on a
  goroutine of its own; the model is the sequence of its Reads.
\<close>

section \<open>trackedReader\<close>

record 'r trackedReader =
  tr_r :: 'r
  tr_size :: int
  tr_n :: int
  tr_err :: "err option"

definition newTrackedReader :: "'r \<Rightarrow> int \<Rightarrow> 'r trackedReader" where
  "newTrackedReader r sz = \<lparr>tr_r = r, tr_size = sz, tr_n = 0, tr_err = None\<rparr>"

definition readError :: "'r trackedReader \<Rightarrow> err option" where
  "readError t = tr_err t"

text \<open>\<open>fail\<close> records the error unless one is recorded, and returns the recorded one.\<close>

definition tracked_fail :: "'r trackedReader \<Rightarrow> err \<Rightarrow> err option \<times> 'r trackedReader" where
  "tracked_fail t e = (let t' = (if tr_err t = None then t\<lparr>tr_err := Some e\<rparr> else t) in (readError t', t'))"

definition trackedReader_Read :: "'r rd \<Rightarrow> 'r trackedReader rd" where
  "trackedReader_Read rd t m =
     (case readError t of Some x \<Rightarrow> Some ([], Some x, t) | None \<Rightarrow>
      let remain = wrap64 (tr_size t - tr_n t) in
      if tr_size t > 0 \<and> remain \<le> 0 then
        do { (bs, e, r') \<leftarrow> rd (tr_r t) 1;
             let t' = t\<lparr>tr_r := r'\<rparr>;
             if bs \<noteq> [] then
               let (x, t'') = tracked_fail t' (longBody ''azureblob.trackedReader.Read'' (tr_size t)) in Some ([], x, t'')
             else (case e of
                 Some err \<Rightarrow>
                   if \<not> errors_Is err EOF then let (x, t'') = tracked_fail t' err in Some ([], x, t'')
                   else Some ([], e, t')
               | None \<Rightarrow> Some ([], None, t')) }
      else
        do { let p = (if tr_size t > 0 \<and> int m > remain then nat remain else m);
             (bs, e, r') \<leftarrow> rd (tr_r t) p;
             let read = wrap64 (tr_n t + int (length bs));
             let t' = t\<lparr>tr_r := r', tr_n := read\<rparr>;
             (case e of
                None \<Rightarrow> Some (bs, None, t')
              | Some err \<Rightarrow>
                if \<not> errors_Is err EOF then let (x, t'') = tracked_fail t' err in Some (bs, x, t'')
                else if tr_size t > 0 \<and> read < tr_size t then
                  let (x, t'') = tracked_fail t' (shortBody ''azureblob.trackedReader.Read'' read (tr_size t))
                  in Some (bs, x, t'')
                else Some (bs, e, t')) })"

lemma sized_not_eof: "\<not> errors_Is (longBody site z) EOF" "\<not> errors_Is (shortBody site n z) EOF"
  by (simp_all add: longBody_def shortBody_def)

lemma sized_neq_EOF [simp]:
  "longBody site z \<noteq> EOF" "shortBody site n z \<noteq> EOF" "EOF \<noteq> longBody site z" "EOF \<noteq> shortBody site n z"
  using sized_not_eof(1) [of site z] sized_not_eof(2) [of site n z] by auto

lemmas tracked_defs = trackedReader_Read_def tracked_fail_def readError_def Let_def

sublocale stream_reader \<subseteq> azb: sized_reader rd ok rest fin steps "trackedReader_Read rd" tr_r tr_size tr_n tr_err
  "\<lambda>e. errors_Is e EOF" "''azureblob.trackedReader.Read''"
proof (unfold_locales, goal_cases)
  case (1 b x m)
  then show ?case by (simp add: tracked_defs)
next
  case (2 b m)
  have w: "wrap64 (tr_size b - tr_n b) = tr_size b - tr_n b" using 2 by (simp add: int64_def wrap64_id)
  show ?case
  proof (cases "tr_n b = tr_size b")
    case True
    from 2(2) zero_less_one show ?thesis
    proof (cases rule: read_cases)
      case (more bs r')
      with 2 True w show ?thesis
        by (cases bs) (simp_all add: tracked_defs sized_rest_def sized_fin_def sized_not_eof)
    next
      case (stop r')
      with 2 True w show ?thesis
        by (cases "rest (tr_r b)"; cases "errors_Is (fin (tr_r b)) EOF")
          (simp_all add: tracked_defs sized_rest_def sized_fin_def sized_not_eof)
    qed
  next
    case False
    define p where "p = (if int m > tr_size b - tr_n b then nat (tr_size b - tr_n b) else m)"
    have p: "0 < p" "p \<le> m" "int p \<le> tr_size b - tr_n b" using False 2 by (auto simp: p_def)
    from 2(2) p(1) show ?thesis
    proof (cases rule: read_cases)
      case (more bs r')
      have "wrap64 (tr_n b + int (length bs)) = tr_n b + int (length bs)"
        using 2 p more(6) by (intro wrap64_id) (auto simp: int64_def)
      with more 2 False w p show ?thesis by (simp add: tracked_defs p_def [symmetric])
    next
      case (stop r')
      have "wrap64 (tr_n b + int (length (rest (tr_r b)))) = tr_n b + int (length (rest (tr_r b)))"
        using 2 p stop(2) by (intro wrap64_id) (auto simp: int64_def)
      with stop 2 False w p show ?thesis
        by (simp add: tracked_defs p_def [symmetric] sized_rest_def sized_fin_def sized_not_eof)
    qed
  qed
next
  case (3 b m)
  from 3(2,5) show ?case
  proof (cases rule: read_cases)
    case (more bs r')
    with 3 show ?thesis by (simp add: tracked_defs)
  next
    case (stop r')
    with 3 show ?thesis by (simp add: tracked_defs)
  qed
qed (simp_all add: sized_not_eof)

section \<open>Answers\<close>

text \<open>\<open>deref\<close> with the zero value of its type.\<close>

definition deref :: "'a \<Rightarrow> 'a option \<Rightarrow> 'a" where
  "deref zero p = (case p of None \<Rightarrow> zero | Some v \<Rightarrow> v)"

definition az_entityTag :: "string option \<Rightarrow> string" where
  "az_entityTag e =
     (case e of
        None \<Rightarrow> []
      | Some s \<Rightarrow>
        if s = [] \<or> prefix [CHR 0x22] s \<or> prefix [CHR ''W'', CHR ''/'', CHR 0x22] s then s
        else CHR 0x22 # s @ [CHR 0x22])"

definition modifiedAt :: "time option \<Rightarrow> time" where
  "modifiedAt t = toUTC (deref zeroTime t)"

text \<open>The object that Get and Stat report of an answer.\<close>

definition propsObject :: "string \<Rightarrow> blobProps \<Rightarrow> Object" where
  "propsObject key p =
     \<lparr>obj_Key = key, obj_Size = deref 0 (bp_ContentLength p), obj_ContentType = deref [] (bp_ContentType p),
      obj_ETag = az_entityTag (bp_ETag p), obj_ModifiedAt = modifiedAt (bp_LastModified p)\<rparr>"

section \<open>The operations\<close>

definition az_Put ::
  "hasCode \<Rightarrow> ('s, 'cc, 'b trackedReader, 'g) AzAPI \<Rightarrow> 'cc az_Client \<Rightarrow> 's \<Rightarrow> ctx \<Rightarrow> string \<Rightarrow> 'b \<Rightarrow> PutOptions \<Rightarrow>
   ((err + Object) \<times> 's \<times> 'b) option" where
  "az_Put hasCode api c s x key body opts =
     (let tracked = newTrackedReader body (po_Size opts);
          contentType = (if po_ContentType opts = [] then defaultContentType else po_ContentType opts) in
      do { (r, s', tracked') \<leftarrow> sdk_UploadStream api (az_container c) s x key tracked (az_blockSize c)
             (az_concurrency c) contentType;
           Some (case r of
               Inl err \<Rightarrow> (case readError tracked' of
                   Some readErr \<Rightarrow> Inl (Errorf ''azureblob.Client.Put'' ''azureblob: read body: %w'' [] [readErr] [])
                 | None \<Rightarrow> Inl (az_classifyErr hasCode err))
             | Inr resp \<Rightarrow> Inr \<lparr>obj_Key = key, obj_Size = tr_n tracked', obj_ContentType = contentType,
                 obj_ETag = az_entityTag (bp_ETag resp), obj_ModifiedAt = modifiedAt (bp_LastModified resp)\<rparr>,
             s', tr_r tracked') })"

definition resuming ::
  "('s, 'cc, 'u, 'g) AzAPI \<Rightarrow> 'cc az_Client \<Rightarrow> ctx \<Rightarrow> 'g downloadOut \<Rightarrow> 'g \<Rightarrow> 'g" where
  "resuming api c x resp body =
     (if az_readRetriesOf c = 0 then body else sdk_NewRetryReader api resp x (az_readRetriesOf c))"

definition az_classifiedBody_Read :: "hasCode \<Rightarrow> 'b rd \<Rightarrow> 'b rd" where
  "az_classifiedBody_Read hasCode rd b m =
     do { (bs, e, b') \<leftarrow> rd b m;
          Some (bs, case e of
              Some err \<Rightarrow> if err \<noteq> EOF then Some (classifyRead hasCode err) else e
            | None \<Rightarrow> None, b') }"

definition az_Get ::
  "hasCode \<Rightarrow> ('s, 'cc, 'u, 'g) AzAPI \<Rightarrow> 'cc az_Client \<Rightarrow> 's \<Rightarrow> ctx \<Rightarrow> string \<Rightarrow> (err + 'g Blob) \<times> 's" where
  "az_Get hasCode api c s x key =
     (case sdk_DownloadStream api (az_container c) s x key of
        (Inl err, s') \<Rightarrow> (Inl (az_classifyErr hasCode err), s')
      | (Inr resp, s') \<Rightarrow>
        (case dl_Body resp of
           None \<Rightarrow> (Inl (newError ''azureblob.Client.Get'' ''azureblob: get blob returned no body'' []), s')
         | Some body \<Rightarrow>
           (Inr \<lparr>blob_Object = propsObject key (dl_props resp), blob_Body = resuming api c x resp body\<rparr>, s')))"

definition az_Stat ::
  "hasCode \<Rightarrow> ('s, 'cc, 'u, 'g) AzAPI \<Rightarrow> 'cc az_Client \<Rightarrow> 's \<Rightarrow> ctx \<Rightarrow> string \<Rightarrow> (err + Object) \<times> 's" where
  "az_Stat hasCode api c s x key =
     (case sdk_BlobGetProperties api (az_container c) s x key of
        (Inl err, s') \<Rightarrow> (Inl (az_classifyErr hasCode err), s')
      | (Inr p, s') \<Rightarrow> (Inr (propsObject key p), s'))"

definition az_Delete ::
  "hasCode \<Rightarrow> ('s, 'cc, 'u, 'g) AzAPI \<Rightarrow> 'cc az_Client \<Rightarrow> 's \<Rightarrow> ctx \<Rightarrow> string \<Rightarrow> err option \<times> 's" where
  "az_Delete hasCode api c s x key =
     (let (e, s') = sdk_Delete api (az_container c) s x key in
      if hasCode e [''BlobNotFound''] then (None, s') else (az_classify hasCode e, s'))"

definition blobObjects :: "blobItem option list \<Rightarrow> Object list" where
  "blobObjects items = concat (map (\<lambda>i.
     case i of None \<Rightarrow> [] | Some item \<Rightarrow>
     (case bi_Name item of None \<Rightarrow> [] | Some name \<Rightarrow>
        [case bi_Properties item of
           None \<Rightarrow> \<lparr>obj_Key = name, obj_Size = 0, obj_ContentType = [], obj_ETag = [], obj_ModifiedAt = zeroTime\<rparr>
         | Some p \<Rightarrow> propsObject name p])) items)"

definition maxResults :: "int \<Rightarrow> int option" where
  "maxResults limit = (if 0 < limit then Some (wrap32 (min limit maxInt32)) else None)"

definition az_List ::
  "hasCode \<Rightarrow> ('s, 'cc, 'u, 'g) AzAPI \<Rightarrow> 'cc az_Client \<Rightarrow> 's \<Rightarrow> ctx \<Rightarrow> ListOptions \<Rightarrow> (err + Page) \<times> 's" where
  "az_List hasCode api c s x opts =
     (let pre = (if lo_Prefix opts \<noteq> [] then Some (lo_Prefix opts) else None);
          marker = (if lo_Token opts \<noteq> [] then Some (lo_Token opts) else None) in
      case sdk_NextPage api (az_container c) s x pre marker (maxResults (lo_Limit opts)) of
        (Inl err, s') \<Rightarrow> (Inl (az_classifyErr hasCode err), s')
      | (Inr resp, s') \<Rightarrow>
        (Inr \<lparr>pg_Objects = (case bpg_Segment resp of None \<Rightarrow> [] | Some items \<Rightarrow> blobObjects items),
           pg_Next = deref [] (bpg_NextMarker resp)\<rparr>, s'))"

section \<open>The service a Put writes to\<close>

text \<open>
  How the SDK reads a body it uploads in blocks: an error that arrives with the bytes completing a
  block is dropped, and the reader is read again for the next block; the body has ended when a Read
  returns \<open>EOF\<close>.
\<close>

inductive blockwise :: "'u rd \<Rightarrow> 'u \<Rightarrow> bytes \<Rightarrow> 'u \<Rightarrow> bool" for rd where
  block_end: "0 < m \<Longrightarrow> rd u m = Some (bs, Some EOF, u') \<Longrightarrow> blockwise rd u bs u'"
| block_more: "0 < m \<Longrightarrow> rd u m = Some (bs, None, u') \<Longrightarrow> blockwise rd u' d u'' \<Longrightarrow> blockwise rd u (bs @ d) u''"
| block_full: "0 < m \<Longrightarrow> rd u m = Some (bs, Some e, u') \<Longrightarrow> length bs = m \<Longrightarrow> blockwise rd u' d u'' \<Longrightarrow>
    blockwise rd u (bs @ d) u''"

text \<open>
  What the code relies on when it uploads: the SDK sends the Put Blob or the Put Block List only after
  the body ends, so what an upload leaves at the key is all that its reads of the body delivered, also
  when only its answer was lost, or nothing.
\<close>

definition az_writes ::
  "('s, 'cc, 'u, 'g) AzAPI \<Rightarrow> 'u rd \<Rightarrow> 'cc \<Rightarrow> ('s \<Rightarrow> string \<rightharpoonup> bytes) \<Rightarrow> bool" where
  "az_writes api urd cc stored \<longleftrightarrow>
     (\<forall>s x k u bsize conc t r s' u'. sdk_UploadStream api cc s x k u bsize conc t = Some (r, s', u') \<longrightarrow>
        (\<exists>d. blockwise urd u d u' \<and> stored s' = (stored s)(k \<mapsto> d)) \<or> (isl r \<and> stored s' = stored s))"

context stream_reader
begin

text \<open>A body read to its end is the whole body, of the declared size, and is counted.\<close>

lemma newTrackedReader_spec:
  assumes "ok b" and "int64 sz"
  shows "azb.sb_inv (newTrackedReader b sz)" "azb.sb_rest (newTrackedReader b sz) = sized_rest sz 0 (rest b)"
    "azb.sb_fin (newTrackedReader b sz) =
      sized_fin (\<lambda>e. errors_Is e EOF) ''azureblob.trackedReader.Read'' sz 0 (rest b) (fin b)"
    "tr_err (newTrackedReader b sz) = None" "tr_n (newTrackedReader b sz) = 0"
  using assms by (simp_all add: azb.sb_inv_def azb.sb_rest_def azb.sb_fin_def newTrackedReader_def int64_def)

lemma trackedReader_drains:
  assumes ok: "ok b" and sz: "int64 sz" and dr: "drains (trackedReader_Read rd) (newTrackedReader b sz) d e t"
  shows "d = sized_rest sz 0 (rest b)"
    "e = sized_fin (\<lambda>e. errors_Is e EOF) ''azureblob.trackedReader.Read'' sz 0 (rest b) (fin b)"
    "tr_n t = wrap64 (int (length d))" "readError t = (if errors_Is e EOF then None else Some e)"
    "e = EOF \<Longrightarrow> d = rest b \<and> fin b = EOF \<and> (0 < sz \<longrightarrow> int (length (rest b)) = sz)"
proof -
  note new = newTrackedReader_spec [OF ok sz]
  from stream_reader.drains_content [OF azb.sized_stream dr new(1)] new(2,3)
  show d: "d = sized_rest sz 0 (rest b)"
    and e: "e = sized_fin (\<lambda>e. errors_Is e EOF) ''azureblob.trackedReader.Read'' sz 0 (rest b) (fin b)"
    by simp_all
  from azb.sized_drains [OF dr new(1,4)] new(5)
  show "tr_n t = wrap64 (int (length d))" "readError t = (if errors_Is e EOF then None else Some e)"
    by (simp_all add: readError_def)
  assume "e = EOF"
  moreover have "longBody site z \<noteq> EOF" "shortBody site n z \<noteq> EOF" for site n z
    using sized_not_eof [of site z] sized_not_eof(2) [of site n z] by auto
  ultimately show "d = rest b \<and> fin b = EOF \<and> (0 < sz \<longrightarrow> int (length (rest b)) = sz)"
    using d e by (auto simp: sized_rest_def sized_fin_def split: if_splits)
qed

end

text \<open>A failure that is recorded ends every upload: it is repeated with no bytes, so nothing drops it.\<close>

lemma blockwise_failed: "blockwise (trackedReader_Read rd) t d t' \<Longrightarrow> readError t = Some x \<Longrightarrow> \<not> errors_Is x EOF \<Longrightarrow> False"
  by (induction rule: blockwise.induct) (auto simp: trackedReader_Read_def)

context ended_reader
begin

lemma trackedReader_ended:
  assumes inv: "azb.sb_inv t" and m: "0 < m" and rd: "trackedReader_Read rd t m = Some (bs, Some EOF, t')"
  shows "azb.sb_inv t' \<and> azb.sb_rest t' = [] \<and> azb.sb_fin t' = EOF \<and> tr_err t' = None"
proof -
  have live: "tr_err t = None"
    using inv rd by (auto simp: azb.sb_inv_def trackedReader_Read_def readError_def split: option.split_asm)
  with inv have t: "ok (tr_r t)" "int64 (tr_size t)" "int64 (tr_n t)"
    "0 < tr_size t \<longrightarrow> 0 \<le> tr_n t \<and> tr_n t \<le> tr_size t" by (simp_all add: azb.sb_inv_def)
  have w: "wrap64 (tr_size t - tr_n t) = tr_size t - tr_n t" if "0 < tr_size t"
    using t that by (intro wrap64_id) (auto simp: int64_def)
  show ?thesis
  proof (cases "0 < tr_size t \<and> tr_n t = tr_size t")
    case True
    with rd live w obtain r where r: "rd (tr_r t) 1 = Some ([], Some EOF, r)" "t' = t\<lparr>tr_r := r\<rparr>"
      by (auto simp: tracked_defs bind_eq_Some_conv sized_not_eof split: if_splits option.splits)
    from ended [OF t(1) zero_less_one r(1)] True t live show ?thesis
      by (auto simp: r(2) azb.sb_inv_def azb.sb_rest_def azb.sb_fin_def sized_rest_def sized_fin_def)
  next
    case False
    define p where "p = (if tr_size t > 0 \<and> int m > tr_size t - tr_n t then nat (tr_size t - tr_n t) else m)"
    have p: "0 < p" "0 < tr_size t \<Longrightarrow> int p \<le> tr_size t - tr_n t" using m False t by (auto simp: p_def)
    from rd live False t w obtain r where r: "rd (tr_r t) p = Some (bs, Some EOF, r)"
      and n: "\<not> (tr_size t > 0 \<and> wrap64 (tr_n t + int (length bs)) < tr_size t)"
      and t': "t' = t\<lparr>tr_r := r, tr_n := wrap64 (tr_n t + int (length bs))\<rparr>"
      by (auto simp: tracked_defs bind_eq_Some_conv sized_not_eof p_def split: if_splits option.splits)
    have "wrap64 (tr_n t + int (length bs)) = tr_n t + int (length bs)" "tr_n t + int (length bs) \<le> tr_size t"
      if "0 < tr_size t"
      using bounded [OF t(1) p(1) r] p(2) [OF that] t that by (auto simp: int64_def intro!: wrap64_id)
    with ended [OF t(1) p(1) r] n t live show ?thesis
      by (auto simp: t' azb.sb_inv_def azb.sb_rest_def azb.sb_fin_def sized_rest_def sized_fin_def wrap64_int64)
  qed
qed

text \<open>An upload that reads the tracked body to an end has read the whole body, however errors are dropped.\<close>

lemma trackedReader_blockwise:
  "blockwise (trackedReader_Read rd) t d t' \<Longrightarrow> azb.sb_inv t \<Longrightarrow> tr_err t = None \<Longrightarrow>
     (errors_Is (azb.sb_fin t) EOF \<Longrightarrow> azb.sb_fin t = EOF) \<Longrightarrow>
     d = azb.sb_rest t \<and> azb.sb_fin t = EOF \<and> tr_n t' = wrap64 (tr_n t + int (length d))"
proof (induction rule: blockwise.induct)
  case (block_end m t bs t')
  then show ?case using azb.sized_step [of t m] by auto
next
  case (block_more m t bs t1 d t')
  then have "azb.sb_inv t1" "tr_err t1 = None" "tr_n t1 = wrap64 (tr_n t + int (length bs))"
    "azb.sb_rest t = bs @ azb.sb_rest t1" "azb.sb_fin t1 = azb.sb_fin t"
    using azb.sized_step [of t m] by auto
  with block_more.IH block_more.prems show ?case by (simp add: wrap64_add add.assoc)
next
  case (block_full m t bs e t1 d t')
  then have step: "tr_n t1 = wrap64 (tr_n t + int (length bs))" "azb.sb_rest t = bs" "azb.sb_fin t = e"
    "tr_err t1 = (if errors_Is e EOF then None else Some e)"
    using azb.sized_step [of t m] by auto
  show ?case
  proof (cases "errors_Is e EOF")
    case True
    with block_full.prems(3) step(3) have e: "e = EOF" by simp
    from trackedReader_ended [OF block_full.prems(1) block_full.hyps(1)] block_full.hyps(2) e
    have "azb.sb_inv t1" "azb.sb_rest t1 = []" "azb.sb_fin t1 = EOF" "tr_err t1 = None" by auto
    with block_full.IH e step show ?thesis by (simp add: wrap64_add)
  next
    case False
    with blockwise_failed [OF block_full.hyps(4)] step(4) show ?thesis by (simp add: readError_def)
  qed
qed

lemma upload_whole:
  assumes ok: "ok b" and sz: "int64 sz" and plain: "errors_Is (fin b) EOF \<Longrightarrow> fin b = EOF"
    and up: "blockwise (trackedReader_Read rd) (newTrackedReader b sz) d t"
  shows "d = rest b" "fin b = EOF" "0 < sz \<Longrightarrow> int (length (rest b)) = sz" "tr_n t = wrap64 (int (length (rest b)))"
proof -
  note new = newTrackedReader_spec [OF ok sz]
  have "errors_Is (azb.sb_fin (newTrackedReader b sz)) EOF \<Longrightarrow> azb.sb_fin (newTrackedReader b sz) = EOF"
    using plain by (auto simp: new(3) sized_fin_def sized_not_eof split: if_splits)
  from trackedReader_blockwise [OF up new(1,4) this] new(2,3,5)
  have d: "d = sized_rest sz 0 (rest b)"
    "sized_fin (\<lambda>e. errors_Is e EOF) ''azureblob.trackedReader.Read'' sz 0 (rest b) (fin b) = EOF"
    "tr_n t = wrap64 (int (length d))" by simp_all
  then show "d = rest b" "fin b = EOF" "0 < sz \<Longrightarrow> int (length (rest b)) = sz" "tr_n t = wrap64 (int (length (rest b)))"
    by (auto simp: sized_rest_def sized_fin_def split: if_splits)
qed

end

section \<open>Properties\<close>

text \<open>
  C10: the Azure Put is all or nothing and never truncates. Over a service that behaves as the SDK
  documents, which drops an error that arrives with the bytes completing a block, a Put that succeeds
  has stored exactly the body, which ended well and has the declared size when one is declared, and
  reports the key, the type and the number of bytes; one that fails has changed nothing, or stored the
  whole body. The body is an \<open>io.Reader\<close> as documented: it ends with \<open>io.EOF\<close> itself, again on every
  later Read, or with an error that does not match it.
\<close>

theorem az_Put_whole:
  assumes body: "ended_reader rd ok rest fin steps" "ok body" and plain: "errors_Is (fin body) EOF \<Longrightarrow> fin body = EOF"
    and rng: "int64 (po_Size opts)"
    and doc: "az_writes api (trackedReader_Read rd) (az_container c) stored"
    and put: "az_Put hasCode api c s x key body opts = Some (r, s', b')"
  shows "(case r of
      Inr obj \<Rightarrow> stored s' = (stored s)(key \<mapsto> rest body) \<and> obj_Key obj = key \<and>
        obj_Size obj = wrap64 (int (length (rest body))) \<and> obj_ContentType obj = storedType opts \<and>
        loc (obj_ModifiedAt obj) = UTC
    | Inl e \<Rightarrow> stored s' = stored s \<or> stored s' = (stored s)(key \<mapsto> rest body)) \<and>
    (stored s' \<noteq> stored s \<longrightarrow> fin body = EOF \<and> (0 < po_Size opts \<longrightarrow> int (length (rest body)) = po_Size opts))"
proof -
  from put obtain q t where up: "sdk_UploadStream api (az_container c) s x key (newTrackedReader body (po_Size opts))
      (az_blockSize c) (az_concurrency c) (storedType opts) = Some (q, s', t)"
    and r0: "r = (case q of
        Inl err \<Rightarrow> (case readError t of
            Some readErr \<Rightarrow> Inl (Errorf ''azureblob.Client.Put'' ''azureblob: read body: %w'' [] [readErr] [])
          | None \<Rightarrow> Inl (az_classifyErr hasCode err))
      | Inr resp \<Rightarrow> Inr \<lparr>obj_Key = key, obj_Size = tr_n t, obj_ContentType = storedType opts,
          obj_ETag = az_entityTag (bp_ETag resp), obj_ModifiedAt = modifiedAt (bp_LastModified resp)\<rparr>)"
    by (auto simp: az_Put_def storedType_def [symmetric] Let_def bind_eq_Some_conv)
  have r: "case q of Inl err \<Rightarrow> isl r | Inr resp \<Rightarrow> r = Inr \<lparr>obj_Key = key, obj_Size = tr_n t,
      obj_ContentType = storedType opts, obj_ETag = az_entityTag (bp_ETag resp),
      obj_ModifiedAt = modifiedAt (bp_LastModified resp)\<rparr>"
    by (simp add: r0 split: sum.split option.split)
  from doc [unfolded az_writes_def, rule_format, OF up] show ?thesis
  proof
    assume "\<exists>d. blockwise (trackedReader_Read rd) (newTrackedReader body (po_Size opts)) d t \<and>
      stored s' = (stored s)(key \<mapsto> d)"
    then obtain d where d: "blockwise (trackedReader_Read rd) (newTrackedReader body (po_Size opts)) d t"
      "stored s' = (stored s)(key \<mapsto> d)" by (elim exE conjE) (rule that)
    note whole = ended_reader.upload_whole [OF body rng plain d(1)]
    have "stored s' = (stored s)(key \<mapsto> rest body)" using d(2) whole(1) by simp
    with whole(2-4) r show ?thesis by (cases q; cases r) (auto simp: modifiedAt_def)
  next
    assume "isl q \<and> stored s' = stored s"
    with r show ?thesis by (cases q; cases r) auto
  qed
qed

text \<open>
  A container in memory, the service of the witnesses: it reads the body in blocks of \<open>n\<close> bytes
  and drops an error that comes with a full block.
\<close>

partial_function (option) readBlocks ::
  "nat \<Rightarrow> 'u rd \<Rightarrow> 'u \<Rightarrow> bytes \<Rightarrow> (bytes \<times> err option \<times> 'u) option" where
  "readBlocks n rd u acc =
     do { (bs, e, u') \<leftarrow> rd u n;
          (if e = None \<or> length bs = n then readBlocks n rd u' (acc @ bs)
           else Some (acc @ bs, if e = Some EOF then None else e, u')) }"

lemma readBlocks_blockwise:
  fixes rd :: "'u rd"
  assumes "readBlocks n rd u acc = Some (out, None, u')" "0 < n"
  shows "\<exists>d. out = acc @ d \<and> blockwise rd u d u'"
proof -
  define P where "P = (\<lambda>(n :: nat) (rd :: 'u rd) u (acc :: bytes) (r :: bytes \<times> err option \<times> 'u). 0 < n \<longrightarrow>
    (\<forall>out u'. r = (out, None, u') \<longrightarrow> (\<exists>d. out = acc @ d \<and> blockwise rd u d u')))"
  have "P n rd u acc (out, None, u')"
  proof (rule readBlocks.raw_induct [where P = P, OF _ assms(1)])
    fix f :: "nat \<Rightarrow> 'u rd \<Rightarrow> 'u \<Rightarrow> bytes \<Rightarrow> (bytes \<times> err option \<times> 'u) option" and n rd u acc r
    assume IH: "\<And>n rd u acc r. f n rd u acc = Some r \<Longrightarrow> P n rd u acc r"
      and eq: "rd u n \<bind> (\<lambda>(bs, e, u'). if e = None \<or> length bs = n then f n rd u' (acc @ bs)
        else Some (acc @ bs, if e = Some EOF then None else e, u')) = Some r"
    then obtain bs e u1 where rd: "rd u n = Some (bs, e, u1)" by (auto simp: bind_eq_Some_conv)
    show "P n rd u acc r" unfolding P_def
    proof (intro impI allI)
      fix out u'
      assume n: "0 < n" and r: "r = (out, None, u')"
      show "\<exists>d. out = acc @ d \<and> blockwise rd u d u'"
      proof (cases "e = None \<or> length bs = n")
        case True
        with eq rd have "P n rd u1 (acc @ bs) r" by (intro IH) simp
        with n r obtain d where "out = (acc @ bs) @ d" "blockwise rd u1 d u'" by (auto simp: P_def)
        moreover have "blockwise rd u (bs @ d) u'"
          using True rd n \<open>blockwise rd u1 d u'\<close> by (cases e) (auto intro: block_more block_full)
        ultimately show ?thesis by auto
      next
        case False
        with eq rd r have "out = acc @ bs" "e = Some EOF" "u' = u1" by (auto split: if_splits)
        with rd n show ?thesis by (auto intro: block_end)
      qed
    qed
  qed
  with assms(2) show ?thesis by (simp add: P_def)
qed

definition memAz :: "'u rd \<Rightarrow> (string \<rightharpoonup> bytes, unit, 'u, unit) AzAPI" where
  "memAz urd =
     \<lparr>sdk_Create = (\<lambda>cc s x. (Some (az_answer 409 ''ContainerAlreadyExists''), s)),
      sdk_GetProperties = (\<lambda>cc s x. (None, s)),
      sdk_UploadStream = (\<lambda>cc s x k u bsize conc t.
        do { (d, e, u') \<leftarrow> readBlocks 512 urd u [];
             Some (case e of
               None \<Rightarrow> (Inr \<lparr>bp_ContentLength = None, bp_ContentType = None, bp_ETag = Some ''t'',
                 bp_LastModified = None\<rparr>, s(k \<mapsto> d), u')
             | Some err \<Rightarrow> (Inl err, s, u')) }),
      sdk_DownloadStream = (\<lambda>cc s x k. (Inl (az_answer 404 ''BlobNotFound''), s)),
      sdk_NewRetryReader = (\<lambda>out x n. ()),
      sdk_BlobGetProperties = (\<lambda>cc s x k. (Inl (az_answer 404 ''BlobNotFound''), s)),
      sdk_Delete = (\<lambda>cc s x k. (Some (az_answer 404 ''BlobNotFound''), s)),
      sdk_NextPage = (\<lambda>cc s x p t n. (Inr \<lparr>bpg_NextMarker = None, bpg_Segment =
        Some [None, Some \<lparr>bi_Name = Some ''k'', bi_Properties = None\<rparr>]\<rparr>, s))\<rparr>"

lemma memAz_writes: "az_writes (memAz urd) urd cc (\<lambda>s. s)"
  unfolding az_writes_def
proof (intro allI impI)
  fix s x k u bsize conc t r s' u'
  assume up: "sdk_UploadStream (memAz urd) cc s x k u bsize conc t = Some (r, s', u')"
  then obtain d e where d: "readBlocks 512 urd u [] = Some (d, e, u')"
    by (auto simp: memAz_def bind_eq_Some_conv split: option.split_asm)
  show "(\<exists>d. blockwise urd u d u' \<and> s' = s(k \<mapsto> d)) \<or> (isl r \<and> s' = s)"
  proof (cases e)
    case None
    with readBlocks_blockwise [of 512 urd u "[]" d u'] d have "blockwise urd u d u'" by simp
    with up d None show ?thesis by (auto simp: memAz_def)
  next
    case (Some err)
    with up d show ?thesis by (auto simp: memAz_def)
  qed
qed

abbreviation sample_az :: "unit az_Client" where
  "sample_az \<equiv> \<lparr>az_container = (), az_blockSize = 1048576, az_concurrency = 4, az_readRetriesOf = 3\<rparr>"

abbreviation az_opts :: "int \<Rightarrow> PutOptions" where
  "az_opts n \<equiv> \<lparr>po_ContentType = [], po_Size = n\<rparr>"

lemma sample_tracked:
  "n = 5 \<or> n = 7 \<Longrightarrow> \<exists>t. readBlocks 512 (trackedReader_Read bytes_Read) (newTrackedReader ''hello'' n) [] =
     Some (''hello'', if n = 5 then None else Some (shortBody ''azureblob.trackedReader.Read'' 5 n), t) \<and>
     drains (trackedReader_Read bytes_Read) (newTrackedReader ''hello'' n) ''hello''
       (if n = 5 then EOF else shortBody ''azureblob.trackedReader.Read'' 5 n) t"
proof -
  assume n: "n = 5 \<or> n = 7"
  let ?t = "newTrackedReader ''hello'' n"
  obtain t1 t2 where reads: "trackedReader_Read bytes_Read ?t 512 = Some (''hello'', None, t1)"
      "trackedReader_Read bytes_Read t1 512 =
        Some ([], Some (if n = 5 then EOF else shortBody ''azureblob.trackedReader.Read'' 5 n), t2)"
    using n by (auto simp: tracked_defs newTrackedReader_def bytes_Read_def wrap64_def)
  then have "readBlocks 512 (trackedReader_Read bytes_Read) ?t [] =
      Some (''hello'', if n = 5 then None else Some (shortBody ''azureblob.trackedReader.Read'' 5 n), t2)"
    by (simp add: readBlocks.simps)
  moreover have "drains (trackedReader_Read bytes_Read) ?t (''hello'' @ [])
      (if n = 5 then EOF else shortBody ''azureblob.trackedReader.Read'' 5 n) t2"
    using drains_stop [of 512 "trackedReader_Read bytes_Read" t1, OF _ reads(2)]
    by (intro drains_more [where rd = "trackedReader_Read bytes_Read" and s = ?t, OF _ reads(1)]) simp_all
  ultimately show ?thesis by auto
qed

theorem az_Put_whole_witness:
  "\<exists>obj s' b'. az_Put docHasCode (memAz (trackedReader_Read bytes_Read)) sample_az Map.empty background ''k''
     ''hello'' (az_opts 5) = Some (Inr obj, s', b') \<and> s' = [''k'' \<mapsto> ''hello''] \<and> obj_Size obj = 5"
proof -
  from sample_tracked [of 5] obtain obj s' b' where put: "az_Put docHasCode (memAz (trackedReader_Read bytes_Read))
      sample_az Map.empty background ''k'' ''hello'' (az_opts 5) = Some (Inr obj, s', b')"
    by (auto simp: az_Put_def memAz_def)
  have "int64 (po_Size (az_opts 5))" by (simp add: int64_def)
  from az_Put_whole [OF bytes_ended.ended_reader_axioms TrueI _ this memAz_writes put] put
  show ?thesis by (auto simp: wrap64_def)
qed

text \<open>
  A body failure is the body's. When the upload read the body until it failed, by its own error
  or by missing its declared size, Put's error wraps that failure, whatever error the SDK returned:
  it matches what the failure matches and nothing else, so no sentinel is added.
\<close>

theorem az_Put_body_failure:
  assumes body: "stream_reader rd ok rest fin steps" "ok body" and rng: "int64 (po_Size opts)"
    and up: "sdk_UploadStream api (az_container c) s x key (newTrackedReader body (po_Size opts))
      (az_blockSize c) (az_concurrency c) (storedType opts) = Some (Inl err, s', t)"
    and read: "drains (trackedReader_Read rd) (newTrackedReader body (po_Size opts)) d e t" "\<not> errors_Is e EOF"
  shows "\<exists>f. az_Put hasCode api c s x key body opts = Some (Inl f, s', tr_r t) \<and>
    (\<forall>v. is_var v \<longrightarrow> (errors_Is f v \<longleftrightarrow> errors_Is e v)) \<and>
    (0 < po_Size opts \<and> int (length (rest body)) < po_Size opts \<and> fin body = EOF \<longrightarrow> errors_Is f ErrUnexpectedEOF)"
proof -
  note tracked = stream_reader.trackedReader_drains [OF body rng read(1)]
  have "errors_Is e ErrUnexpectedEOF"
    if "0 < po_Size opts" "int (length (rest body)) < po_Size opts" "fin body = EOF"
    using tracked(2) that by (simp add: sized_fin_def shortBody_def)
  moreover have "az_Put hasCode api c s x key body opts =
    Some (Inl (Errorf ''azureblob.Client.Put'' ''azureblob: read body: %w'' [] [e] []), s', tr_r t)"
    using up tracked(4) read(2) by (simp add: az_Put_def storedType_def Let_def)
  ultimately show ?thesis by auto
qed

theorem az_Put_body_failure_witness:
  "\<exists>f s' b'. az_Put docHasCode (memAz (trackedReader_Read bytes_Read)) sample_az Map.empty background ''k''
     ''hello'' (az_opts 7) = Some (Inl f, s', b') \<and> errors_Is f ErrUnexpectedEOF"
proof -
  from sample_tracked [of 7] obtain t where all:
    "readBlocks 512 (trackedReader_Read bytes_Read) (newTrackedReader ''hello'' 7) [] =
     Some (''hello'', Some (shortBody ''azureblob.trackedReader.Read'' 5 7), t)"
    and dr: "drains (trackedReader_Read bytes_Read)
      (newTrackedReader ''hello'' (po_Size (az_opts 7))) ''hello'' (shortBody ''azureblob.trackedReader.Read'' 5 7) t"
    by auto
  have up: "sdk_UploadStream (memAz (trackedReader_Read bytes_Read)) (az_container sample_az) Map.empty background
      ''k'' (newTrackedReader ''hello'' (po_Size (az_opts 7))) (az_blockSize sample_az) (az_concurrency sample_az)
      (storedType (az_opts 7)) = Some (Inl (shortBody ''azureblob.trackedReader.Read'' 5 7), Map.empty, t)"
    using all by (simp add: memAz_def)
  have "int64 (po_Size (az_opts 7))" by (simp add: int64_def)
  from az_Put_body_failure [OF bytes_rd.stream_reader_axioms TrueI this up dr sized_not_eof(2), of docHasCode]
  show ?thesis by auto
qed

end
