(* ===== verification/Spec2Isabelle.thy ===== *)
theory Spec2Isabelle
  imports Suite_Tidy Lifecycle S3_Put S3_Get Azure_Objects
begin

text \<open>
  A verification of \<^emph>\<open>go-storage\<close>, an object storage library in Go: a \<open>Client\<close> interface over what
  Azure Blob and S3 share, a \<open>Store\<close> that gates and bounds a client, the two providers, and the fake
  and the conformance suite that providers are tested with.

  \<^bold>\<open>The program.\<close> \<open>Config\<close> (\<open>src/config.go\<close>, \<open>src/env.go\<close>) is layered by \<open>Merge\<close> and completed by
  \<open>Finalize\<close>. A provider's \<open>New\<close> (\<open>src/s3/client.go\<close>, \<open>src/azureblob/client.go\<close>) turns a finalized
  configuration into a \<open>Client\<close> (\<open>src/client.go\<close>), and \<open>New\<close> of \<open>src/store.go\<close> wraps it in a \<open>Store\<close>.
  \<open>Start\<close> and \<open>Shutdown\<close> open and close the gate; \<open>Put\<close> puts a \<open>limitReader\<close> or two around the body and
  hands it to the client, \<open>Get\<close> puts an \<open>idleReader\<close> (\<open>src/idle.go\<close>) around the client's body. A provider
  puts its own reader around a Put body (\<open>bodyReader\<close>, \<open>trackedReader\<close>), resumes a Get body that breaks,
  and classifies the SDK's errors into the sentinels of \<open>src/errors.go\<close>. \<open>src/storagetest/fake.go\<close> is a
  client in memory, and \<open>src/storagetest/suite.go\<close> runs fifteen cases over any client.

  \<^bold>\<open>The theories.\<close>
  \<^item> \<open>Prelude\<close>: Go's strings, integers with their wrap-around, panics, maps, times, and \<open>goLoop\<close>, a loop
    that may not end, with its rules for invariants and for termination.
  \<^item> \<open>Go_Errors\<close>: error values, \<open>errors.Is\<close>, \<open>errors.AsType\<close>, \<open>%w\<close>, and the sentinels.
    \<open>Go_Strings\<close>, \<open>Go_Text\<close>: UTF-8, \<open>strings\<close>, \<open>strconv\<close>, \<open>encoding/hex\<close>.
    \<open>Go_Readers\<close>: \<open>io.Reader\<close> as a state and a function, what a sequence of reads delivers (\<open>drains\<close>),
    \<open>io.ReadAll\<close>, the locale \<open>stream_reader\<close> of readers over a finite stream, and readers whose result is
    open, as relations.
  \<^item> \<open>Client_API\<close>: \<open>Client\<close> as a record of functions and its documented contract as the locale
    \<open>storage_client\<close>: what holds of the stored objects in every state, and what the operations must answer
    while the store is up, with the container and without it.
  \<^item> \<open>Config\<close>: \<open>Env\<close>, \<open>Merge\<close>, \<open>Finalize\<close> and their parts, over a heap of maps, so that what is shared
    and what is copied shows.
  \<^item> \<open>Limit_Reader\<close>, \<open>Idle_Reader\<close>: the two readers of the Store; the timer of the second is open.
  \<^item> \<open>Store\<close>: every method of \<open>Store\<close>. \<open>Put_Spec\<close>: the outcome of a Put as a function of the limits and the
    stream. \<open>Store_Client\<close>: the locale \<open>store_over\<close> in which the Store meets the contract of the client below.
    \<open>Lifecycle\<close>: Start, Shutdown and the operations of any number of goroutines as a step relation: the lock
    \<open>mu\<close> is explicit, and a step is one access to shared state, one call of the client, its answer or a
    return. The body of a critical section is one step, since \<open>shut\<close> is only accessed under \<open>mu\<close>.
  \<^item> \<open>Fake\<close>: the fake, its invariant \<open>fake_wf\<close>, and its interpretation of \<open>storage_client\<close>.
    \<open>Composition\<close>: the Store over the fake.
  \<^item> \<open>Suite\<close>, \<open>Suite_Cases\<close>: the helpers, the cases and the runner of the conformance suite, as tests of
    a small monad. \<open>Suite_Passes\<close>: the locale \<open>suite_ready\<close> of clients over which every case passes, and
    the fake as one. \<open>Suite_Tidy\<close>: the suite restores what it found.
  \<^item> \<open>Sized_Body\<close>: the locale \<open>sized_reader\<close>, the contract of both providers' body readers, and
    \<open>io.ReadAtLeast\<close>, \<open>io.LimitReader\<close> and \<open>io.MultiReader\<close>.
  \<^item> \<open>S3_Keys\<close>, \<open>S3_Errors\<close>, \<open>S3_Client\<close>, \<open>S3_Objects\<close>, \<open>S3_Put\<close>, \<open>S3_Get\<close>: \<open>src/s3/keys.go\<close>, \<open>errors.go\<close>,
    \<open>client.go\<close>, and \<open>objects.go\<close> in three parts.
    \<open>Azure_Keys\<close>, \<open>Azure_Errors\<close>, \<open>Azure_Client\<close>, \<open>Azure_Objects\<close>: the same of \<open>src/azureblob\<close>.

  A definition has the name of the function it models, with \<open>s3_\<close>, \<open>az_\<close>, \<open>fake_\<close> or \<open>suite_\<close> before it where
  several packages use the name, and a method has its type before it. State is passed explicitly: an
  operation on a client takes the client's state and returns the next one. An error is \<open>Inl\<close> or
  \<open>Some\<close>; a call that does not return is \<open>None\<close>.

  \<^bold>\<open>What is shown.\<close> The Store refines the contract of its client, decides every Put as specified, and
  returns what was put. Its lifecycle is right in every interleaving: ready exactly after a Start that set
  \<open>started\<close> and before any Shutdown, the client closed once, no deadlock, and after a Shutdown no call of the
  client but the one a goroutine had already been let through to. Start and Shutdown as functions are
  exactly what their steps compute when no other goroutine steps. The limiting readers cut a body
  exactly where they say, and the three checks of a declared size in the repository agree. Finalize succeeds
  exactly on valid configurations, Merge and the option overrides never write a map that is shared.
  The idle reader passes the body's bytes and end on under every behaviour of its timer; one race of the
  timer, in which the error of the cancelled request reaches the caller, is part of the statement.
  Over a service that behaves as its documentation says, and an SDK of Azure that drops an error which
  arrives with the bytes completing a block, a Put of either provider stores the whole body or
  nothing; a Get body of S3 delivers the content of one version however its reads break, with a bounded number
  of requests. The validators accept exactly the documented names, the classifications of errors are given
  as tables, and the clients that New makes have their settings in range. The fake meets the contract
  of \<open>Client\<close>, and the conformance suite passes over it, in all its cases, without leaving a trace.

  \<^bold>\<open>Parameters.\<close> Code outside the repository is an argument: the SDKs as the records \<open>S3API\<close> and
  \<open>AzAPI\<close> of their calls, whose documented behaviour is a named hypothesis with a model in memory as
  its instance; \<open>bloberror.HasCode\<close>, \<open>time.ParseDuration\<close>, \<open>url.Parse\<close>, \<open>runtime.JoinPaths\<close>, the
  functions \<open>EnvName\<close> and \<open>SetDurationFromEnv\<close> of go-core's \<open>config\<close>; the environment; SHA-256; the clock, random bytes, the growth of the buffer
  of \<open>io.ReadAll\<close>, and the caller's reader.

  \<^bold>\<open>Loops.\<close> Loops over a caller's reader may not end, so \<open>io.ReadAll\<close>, \<open>io.ReadAtLeast\<close> and the
  resuming Read of S3 are \<open>partial_function (option)\<close> or \<open>goLoop\<close>; that they return is proved, for readers
  over finite streams and for any service. The listing walk of the suite counts down from \<open>maxPages\<close>, the
  bound of the source. Everything else is structural recursion.

  \<^bold>\<open>Not modelled.\<close> The documentation files \<open>doc.go\<close> hold no code. A \<open>Close\<close> that runs while a Read of
  S3's \<open>resumingBody\<close> is in progress: Close and Read are a sequence here. How the SDKs retry, sign and
  split an upload. The wording of errors is kept as a format and its arguments, not as rendered text, and
  of a problem a test reports the arguments that are errors or zones are left out. S3's \<open>bodyReader\<close> compares
  with \<open>io.EOF\<close> where the Store and the Azure provider ask \<open>errors.Is\<close>; the models keep the difference, and
  the agreement of the three is stated for bodies that end with \<open>io.EOF\<close> itself or with no match of it.
\<close>

section \<open>One rule, three readers\<close>

text \<open>
  C11: the declared size of a Put is checked by three pieces of code, the Store's exact limit and the
  reader of each provider, and they agree. On any finite body that ends with a plain \<open>io.EOF\<close> or with
  an error of its own, all three deliver the same bytes, end well on the same bodies, and otherwise
  end with errors that match the same variables, \<open>io.ErrUnexpectedEOF\<close> for a short body included;
  and both providers count the bytes they delivered.
\<close>

theorem size_checks_agree:
  assumes body: "stream_reader rd ok rest fin steps" "ok body" and plain: "errors_Is (fin body) EOF \<Longrightarrow> fin body = EOF"
    and sz: "0 < sz" "sz \<le> maxInt64" and long: "\<And>v. is_var v \<Longrightarrow> \<not> errors_Is long v"
    and store: "drains (limitReader_Read rd) (newLimitReader body sz True long) d1 e1 l"
    and s3: "drains (bodyReader_Read rd) (newBodyReader body sz) d2 e2 b"
    and azure: "drains (trackedReader_Read rd) (newTrackedReader body sz) d3 e3 t"
  shows "d1 = d2 \<and> d2 = d3 \<and> (e1 = EOF \<longleftrightarrow> e2 = EOF) \<and> (e2 = EOF \<longleftrightarrow> e3 = EOF) \<and>
    (\<forall>v. is_var v \<longrightarrow> (errors_Is e1 v \<longleftrightarrow> errors_Is e2 v) \<and> (errors_Is e2 v \<longleftrightarrow> errors_Is e3 v)) \<and>
    br_n b = int (length d2) \<and> tr_n t = int (length d3)"
proof -
  have rng: "int64 sz" using sz by (simp add: int64_def)
  have inv: "lr_inv ok (newLimitReader body sz True long)" using body sz by (intro lr_inv_new) simp_all
  have one: "d1 = sized_rest sz 0 (rest body)"
    "e1 = limit_fin ''storage.limitReader.Read'' sz 0 True long (rest body) (fin body)"
    using stream_reader.drains_content [OF stream_reader.limitReader_stream [OF body(1)] store inv] sz
    by (simp_all add: lr_rest_def lr_fin_def limit_rest_def newLimitReader_def sized_rest_def)
  have two: "d2 = sized_rest sz 0 (rest body)"
    "e2 = sized_fin (\<lambda>e. e = EOF) ''s3.bodyReader.Read'' sz 0 (rest body) (fin body)"
    "br_n b = wrap64 (int (length d2))"
    using stream_reader.bodyReader_drains [OF body rng s3] by simp_all
  have three: "d3 = sized_rest sz 0 (rest body)"
    "e3 = sized_fin (\<lambda>e. errors_Is e EOF) ''azureblob.trackedReader.Read'' sz 0 (rest body) (fin body)"
    "tr_n t = wrap64 (int (length d3))"
    using stream_reader.trackedReader_drains [OF body rng azure] by simp_all
  have len: "wrap64 (int (length d2)) = int (length d2)"
    using sz two(1) by (intro wrap64_id) (auto simp: sized_rest_def)
  have eof: "errors_Is (fin body) EOF \<longleftrightarrow> fin body = EOF" using plain by auto
  have "long \<noteq> EOF" using long [of EOF] by auto
  moreover have "errors_Is (shortBody site n z) v \<longleftrightarrow> v = ErrUnexpectedEOF" "\<not> errors_Is (longBody site z) v"
    if "is_var v" for site n z v using that by (auto simp: shortBody_def longBody_def)
  ultimately show ?thesis using one two three len long sized_eof sz
    by (simp add: limit_fin_def sized_fin_def eof)
qed

theorem size_checks_agree_witness:
  "\<exists>d1 e1 l d2 e2 b d3 e3 t.
     drains (limitReader_Read bytes_Read) (newLimitReader ''hello'' 7 True (newError [] [] [])) d1 e1 l \<and>
     drains (bodyReader_Read bytes_Read) (newBodyReader ''hello'' 7) d2 e2 b \<and>
     drains (trackedReader_Read bytes_Read) (newTrackedReader ''hello'' 7) d3 e3 t \<and> d1 = d3 \<and> br_n b = tr_n t"
proof -
  have "lr_inv (\<lambda>_. True) (newLimitReader ''hello'' 7 True (newError [] [] []))" by (intro lr_inv_new) simp_all
  from stream_reader.drains_exists [OF bytes_rd.limitReader_stream, OF this] obtain d1 e1 l where
    one: "drains (limitReader_Read bytes_Read) (newLimitReader ''hello'' 7 True (newError [] [] [])) d1 e1 l"
    by (elim exE) (rule that)
  have rng: "int64 7" by (simp add: int64_def)
  from stream_reader.drains_exists [OF bytes_rd.s3b.sized_stream, OF bytes_rd.newBodyReader_spec(1) [where b = "''hello''"], OF TrueI rng]
  obtain d2 e2 b where two: "drains (bodyReader_Read bytes_Read) (newBodyReader ''hello'' 7) d2 e2 b"
    by (elim exE) (rule that)
  from stream_reader.drains_exists [OF bytes_rd.azb.sized_stream, OF bytes_rd.newTrackedReader_spec(1) [where b = "''hello''"], OF TrueI rng]
  obtain d3 e3 t where three: "drains (trackedReader_Read bytes_Read) (newTrackedReader ''hello'' 7) d3 e3 t"
    by (elim exE) (rule that)
  have eq: "d1 = d3" "br_n b = tr_n t"
    using size_checks_agree [OF bytes_rd.stream_reader_axioms TrueI _ _ _ _ one two three] by simp_all
  show ?thesis by (intro exI conjI, rule one, rule two, rule three, rule eq(1), rule eq(2))
qed

end
